(* ===== verification/Kernel_Prelude.thy ===== *)
theory Kernel_Prelude
  imports Main "HOL-Library.Word" "HOL-Library.Multiset"
begin

text \<open>
  Shared vocabulary of the development: the machine integers of the 32-bit ARM target
  (S3C2440, \<^verbatim>\<open>unsigned long\<close> is 32 bits wide), the kernel's error numbers, the
  result type of fallible functions, and generic lemmas on words and lists that several
  components use.

  A C function that returns \<^verbatim>\<open>0\<close> or \<^verbatim>\<open>-Exxx\<close> is modelled by a value of type
  \<open>'a result\<close>: \<open>Inl Exxx\<close> is the error return, \<open>Inr v\<close> the successful one.
\<close>

unbundle bit_operations_syntax

type_synonym u8 = "8 word"
type_synonym u16 = "16 word"
type_synonym u32 = "32 word"
type_synonym u64 = "64 word"

type_synonym uid_t = u32
type_synonym gid_t = u32

datatype errno =
    EPERM | ENOENT | ESRCH | EINTR | EIO | E2BIG | ENOEXEC | EBADF | EAGAIN | ENOMEM | EACCES | EFAULT | EBUSY
  | EEXIST | ENOTDIR | EISDIR | EINVAL | ETXTBSY | EFBIG | ENOSPC | EROFS | ERANGE | EDEADLK
  | ENOLCK | ENOSYS | ELOOP | EIDRM | ENODATA | EOVERFLOW | EOPNOTSUPP | ESTALE | EDQUOT

type_synonym 'a result = "errno + 'a"

named_theorems word_bits \<open>bit-level reading of the word operations\<close>
named_theorems cap_abs \<open>capability operations read as set operations\<close>
named_theorems frame \<open>fields that an operation leaves alone\<close>

lemmas [word_bits] = bit_and_iff bit_or_iff bit_xor_iff bit_not_iff

lemma word_zero_iff_bits: "(w :: 'a::len word) = 0 \<longleftrightarrow> (\<forall>n < LENGTH('a). \<not> bit w n)"
  by (auto simp: bit_eq_iff dest: bit_imp_le_length)

lemma word_eq_iff_bits:
  "(v :: 'a::len word) = w \<longleftrightarrow> (\<forall>n < LENGTH('a). bit v n = bit w n)"
  by (auto simp: bit_eq_iff dest: bit_imp_le_length)

lemma bit_power_two [word_bits]:
  "bit (2 ^ k :: 'a::len word) n \<longleftrightarrow> n = k \<and> k < LENGTH('a)"
  by (auto simp: bit_exp_iff)

lemma and_power_two_zero [word_bits]: "(w AND 2 ^ k = (0 :: 'a::len word)) \<longleftrightarrow> \<not> bit w k"
  by (rule and_exp_eq_0_iff_not_bit)

lemma unat_and_mask:
  assumes "k < LENGTH('a)"
  shows "unat ((w :: 'a::len word) AND (2 ^ k - 1)) = unat w mod 2 ^ k"
proof -
  have "w AND (2 ^ k - 1) = take_bit k w"
    by (simp add: take_bit_eq_mask mask_eq_exp_minus_1)
  then show ?thesis
    by (simp only: unsigned_take_bit_eq) (simp only: take_bit_eq_mod)
qed

lemma unat_power_two: "k < LENGTH('a) \<Longrightarrow> unat (2 ^ k :: 'a::len word) = 2 ^ k"
  using unat_of_nat [where 'a = 'a, of "2 ^ k"] by simp

lemma bind_result_Inr:
  "(case r of Inl e \<Rightarrow> Inl e | Inr v \<Rightarrow> f v) = Inr w \<longleftrightarrow> (\<exists>v. r = Inr v \<and> f v = Inr w)"
  by (cases r) auto

lemma mset_swap_update:
  assumes "i < length xs" "j < length xs" "i \<noteq> j"
  shows "mset (xs[i := xs ! j, j := v]) = mset (xs[i := v])"
proof -
  have "xs[i := xs ! j, j := v] = (xs[i := v])[i := (xs[i := v]) ! j, j := (xs[i := v]) ! i]"
    using assms by (simp add: list_update_swap)
  then show ?thesis
    using assms mset_swap [of j "xs[i := v]" i] by simp
qed

end
