(* ===== verification/Capability.thy ===== *)
theory Capability
  imports Kernel_Prelude
begin

text \<open>
  Capability sets: \<^verbatim>\<open>include/linux/capability.h\<close>.  A \<^verbatim>\<open>kernel_cap_t\<close> is an array
  of \<^verbatim>\<open>_KERNEL_CAPABILITY_U32S = 2\<close> 32-bit words; the loops
  \<^verbatim>\<open>CAP_FOR_EACH_U32\<close> are written out over the two words.  The abstraction
  \<open>cap_set\<close> reads such an array as the set of the capability numbers below 64 whose bit
  is on; the locale \<open>capability_sets\<close> is the interface the credential code relies on, and
  its interpretation shows that the bit operations implement it.
\<close>

section \<open>The data and the operations of capability.h\<close>

record kernel_cap_t =
  cap0 :: u32
  cap1 :: u32

definition CAP_LAST_CAP :: nat where "CAP_LAST_CAP = 33"

definition CAP_CHOWN :: nat where "CAP_CHOWN = 0"
definition CAP_DAC_OVERRIDE :: nat where "CAP_DAC_OVERRIDE = 1"
definition CAP_DAC_READ_SEARCH :: nat where "CAP_DAC_READ_SEARCH = 2"
definition CAP_FOWNER :: nat where "CAP_FOWNER = 3"
definition CAP_FSETID :: nat where "CAP_FSETID = 4"
definition CAP_SETGID :: nat where "CAP_SETGID = 6"
definition CAP_SETUID :: nat where "CAP_SETUID = 7"
definition CAP_SETPCAP :: nat where "CAP_SETPCAP = 8"
definition CAP_LINUX_IMMUTABLE :: nat where "CAP_LINUX_IMMUTABLE = 9"
definition CAP_SYS_PTRACE :: nat where "CAP_SYS_PTRACE = 19"
definition CAP_SYS_ADMIN :: nat where "CAP_SYS_ADMIN = 21"
definition CAP_SYS_NICE :: nat where "CAP_SYS_NICE = 23"
definition CAP_SYS_RESOURCE :: nat where "CAP_SYS_RESOURCE = 24"
definition CAP_SYS_TIME :: nat where "CAP_SYS_TIME = 25"
definition CAP_MKNOD :: nat where "CAP_MKNOD = 27"
definition CAP_SETFCAP :: nat where "CAP_SETFCAP = 31"
definition CAP_MAC_OVERRIDE :: nat where "CAP_MAC_OVERRIDE = 32"

lemmas cap_numbers =
  CAP_LAST_CAP_def CAP_CHOWN_def CAP_DAC_OVERRIDE_def CAP_DAC_READ_SEARCH_def CAP_FOWNER_def
  CAP_FSETID_def CAP_SETGID_def CAP_SETUID_def CAP_SETPCAP_def CAP_LINUX_IMMUTABLE_def
  CAP_SYS_PTRACE_def CAP_SYS_ADMIN_def CAP_SYS_NICE_def CAP_SYS_RESOURCE_def CAP_SYS_TIME_def
  CAP_MKNOD_def CAP_SETFCAP_def CAP_MAC_OVERRIDE_def

text \<open>Capability numbers are naturals; the C macro also refuses negative ones.\<close>

definition cap_valid :: "nat \<Rightarrow> bool" where
  "cap_valid x \<longleftrightarrow> x \<le> CAP_LAST_CAP"

definition CAP_TO_INDEX :: "nat \<Rightarrow> nat" where
  "CAP_TO_INDEX x = drop_bit 5 x"

definition CAP_TO_MASK :: "nat \<Rightarrow> u32" where
  "CAP_TO_MASK x = push_bit (x AND 31) 1"

text \<open>\<^verbatim>\<open>c.cap[i]\<close>; the array has two elements, so the index is 0 or 1.\<close>

definition cap_word :: "kernel_cap_t \<Rightarrow> nat \<Rightarrow> u32" where
  "cap_word c i = (if i = 0 then cap0 c else cap1 c)"

definition set_cap_word :: "kernel_cap_t \<Rightarrow> nat \<Rightarrow> u32 \<Rightarrow> kernel_cap_t" where
  "set_cap_word c i w = (if i = 0 then c\<lparr>cap0 := w\<rparr> else c\<lparr>cap1 := w\<rparr>)"

definition cap_raise :: "kernel_cap_t \<Rightarrow> nat \<Rightarrow> kernel_cap_t" where
  "cap_raise c flag =
     set_cap_word c (CAP_TO_INDEX flag) (cap_word c (CAP_TO_INDEX flag) OR CAP_TO_MASK flag)"

definition cap_lower :: "kernel_cap_t \<Rightarrow> nat \<Rightarrow> kernel_cap_t" where
  "cap_lower c flag =
     set_cap_word c (CAP_TO_INDEX flag) (cap_word c (CAP_TO_INDEX flag) AND NOT (CAP_TO_MASK flag))"

definition cap_raised :: "kernel_cap_t \<Rightarrow> nat \<Rightarrow> bool" where
  "cap_raised c flag \<longleftrightarrow> cap_word c (CAP_TO_INDEX flag) AND CAP_TO_MASK flag \<noteq> 0"

definition CAP_EMPTY_SET :: kernel_cap_t where
  "CAP_EMPTY_SET = \<lparr>cap0 = 0, cap1 = 0\<rparr>"

definition CAP_FULL_SET :: kernel_cap_t where
  "CAP_FULL_SET = \<lparr>cap0 = NOT 0, cap1 = NOT 0\<rparr>"

definition CAP_INIT_EFF_SET :: kernel_cap_t where
  "CAP_INIT_EFF_SET = \<lparr>cap0 = NOT (CAP_TO_MASK CAP_SETPCAP), cap1 = NOT 0\<rparr>"

definition CAP_FS_MASK_B0 :: u32 where
  "CAP_FS_MASK_B0 = CAP_TO_MASK CAP_CHOWN OR CAP_TO_MASK CAP_MKNOD OR CAP_TO_MASK CAP_DAC_OVERRIDE
     OR CAP_TO_MASK CAP_DAC_READ_SEARCH OR CAP_TO_MASK CAP_FOWNER OR CAP_TO_MASK CAP_FSETID"

definition CAP_FS_MASK_B1 :: u32 where
  "CAP_FS_MASK_B1 = CAP_TO_MASK CAP_MAC_OVERRIDE"

definition CAP_FS_SET :: kernel_cap_t where
  "CAP_FS_SET = \<lparr>cap0 = CAP_FS_MASK_B0 OR CAP_TO_MASK CAP_LINUX_IMMUTABLE, cap1 = CAP_FS_MASK_B1\<rparr>"

definition CAP_NFSD_SET :: kernel_cap_t where
  "CAP_NFSD_SET = \<lparr>cap0 = CAP_FS_MASK_B0 OR CAP_TO_MASK CAP_SYS_RESOURCE, cap1 = CAP_FS_MASK_B1\<rparr>"

definition cap_combine :: "kernel_cap_t \<Rightarrow> kernel_cap_t \<Rightarrow> kernel_cap_t" where
  "cap_combine a b = \<lparr>cap0 = cap0 a OR cap0 b, cap1 = cap1 a OR cap1 b\<rparr>"

definition cap_intersect :: "kernel_cap_t \<Rightarrow> kernel_cap_t \<Rightarrow> kernel_cap_t" where
  "cap_intersect a b = \<lparr>cap0 = cap0 a AND cap0 b, cap1 = cap1 a AND cap1 b\<rparr>"

definition cap_drop :: "kernel_cap_t \<Rightarrow> kernel_cap_t \<Rightarrow> kernel_cap_t" where
  "cap_drop a d = \<lparr>cap0 = cap0 a AND NOT (cap0 d), cap1 = cap1 a AND NOT (cap1 d)\<rparr>"

definition cap_invert :: "kernel_cap_t \<Rightarrow> kernel_cap_t" where
  "cap_invert c = \<lparr>cap0 = NOT (cap0 c), cap1 = NOT (cap1 c)\<rparr>"

definition cap_isclear :: "kernel_cap_t \<Rightarrow> bool" where
  "cap_isclear a \<longleftrightarrow> (if cap0 a \<noteq> 0 then False else if cap1 a \<noteq> 0 then False else True)"

definition cap_issubset :: "kernel_cap_t \<Rightarrow> kernel_cap_t \<Rightarrow> bool" where
  "cap_issubset a s = cap_isclear (cap_drop a s)"

definition cap_is_fs_cap :: "nat \<Rightarrow> bool" where
  "cap_is_fs_cap c \<longleftrightarrow> CAP_TO_MASK c AND cap_word CAP_FS_SET (CAP_TO_INDEX c) \<noteq> 0"

definition cap_drop_fs_set :: "kernel_cap_t \<Rightarrow> kernel_cap_t" where
  "cap_drop_fs_set a = cap_drop a CAP_FS_SET"

definition cap_raise_fs_set :: "kernel_cap_t \<Rightarrow> kernel_cap_t \<Rightarrow> kernel_cap_t" where
  "cap_raise_fs_set a permitted = cap_combine a (cap_intersect permitted CAP_FS_SET)"

definition cap_drop_nfsd_set :: "kernel_cap_t \<Rightarrow> kernel_cap_t" where
  "cap_drop_nfsd_set a = cap_drop a CAP_NFSD_SET"

definition cap_raise_nfsd_set :: "kernel_cap_t \<Rightarrow> kernel_cap_t \<Rightarrow> kernel_cap_t" where
  "cap_raise_nfsd_set a permitted = cap_combine a (cap_intersect permitted CAP_NFSD_SET)"

section \<open>Reading a capability array as a set\<close>

definition cap_set :: "kernel_cap_t \<Rightarrow> nat set" where
  "cap_set c = {n. n < 32 \<and> bit (cap0 c) n} \<union> {n. 32 \<le> n \<and> n < 64 \<and> bit (cap1 c) (n - 32)}"

lemma cap_set_mem:
  "n \<in> cap_set c \<longleftrightarrow> (n < 64 \<and> (if n < 32 then bit (cap0 c) n else bit (cap1 c) (n - 32)))"
  by (auto simp: cap_set_def)

lemma cap_set_bounded: "n \<in> cap_set c \<Longrightarrow> n < 64"
  by (simp add: cap_set_mem)

lemma cap_set_inject [cap_abs]: "cap_set a = cap_set b \<longleftrightarrow> a = b"
proof
  assume eq: "cap_set a = cap_set b"
  have "bit (cap0 a) n = bit (cap0 b) n" if "n < 32" for n
    using eq that cap_set_mem [of n a] cap_set_mem [of n b] by simp
  moreover have "bit (cap1 a) n = bit (cap1 b) n" if "n < 32" for n
    using eq that cap_set_mem [of "n + 32" a] cap_set_mem [of "n + 32" b] by simp
  ultimately show "a = b"
    by (cases a, cases b) (simp add: word_eq_iff_bits)
qed simp

lemma cap_set_combine [cap_abs]: "cap_set (cap_combine a b) = cap_set a \<union> cap_set b"
  by (auto simp: cap_set_mem cap_combine_def word_bits split: if_splits)

lemma cap_set_intersect [cap_abs]: "cap_set (cap_intersect a b) = cap_set a \<inter> cap_set b"
  by (auto simp: cap_set_mem cap_intersect_def word_bits split: if_splits)

lemma cap_set_drop [cap_abs]: "cap_set (cap_drop a b) = cap_set a - cap_set b"
  by (auto simp: cap_set_mem cap_drop_def word_bits split: if_splits)

lemma cap_set_invert [cap_abs]: "cap_set (cap_invert a) = {..<64} - cap_set a"
  by (auto simp: cap_set_mem cap_invert_def word_bits split: if_splits)

lemma cap_set_empty [cap_abs]: "cap_set CAP_EMPTY_SET = {}"
  by (auto simp: cap_set_mem CAP_EMPTY_SET_def split: if_splits)

lemma cap_set_full [cap_abs]: "cap_set CAP_FULL_SET = {..<64}"
  by (auto simp: cap_set_mem CAP_FULL_SET_def word_bits split: if_splits)

lemma cap_isclear_set [cap_abs]: "cap_isclear a \<longleftrightarrow> cap_set a = {}"
proof -
  have "cap_isclear a \<longleftrightarrow> a = CAP_EMPTY_SET"
    by (cases a) (auto simp: cap_isclear_def CAP_EMPTY_SET_def)
  then show ?thesis
    by (metis cap_set_empty cap_set_inject)
qed

lemma cap_issubset_set [cap_abs]: "cap_issubset a b \<longleftrightarrow> cap_set a \<subseteq> cap_set b"
  by (auto simp: cap_issubset_def cap_isclear_set cap_set_drop)

lemma CAP_TO_MASK_bit [word_bits]: "bit (CAP_TO_MASK x) n \<longleftrightarrow> n = x mod 32"
proof -
  have "x AND 31 = x mod 32"
    using take_bit_eq_mask [of 5 x] by (simp add: take_bit_eq_mod mask_eq_exp_minus_1)
  then show ?thesis by (auto simp: CAP_TO_MASK_def word_bits)
qed

lemma CAP_TO_INDEX_div: "CAP_TO_INDEX x = x div 32"
  by (simp add: CAP_TO_INDEX_def drop_bit_eq_div)

lemma cap_raised_set [cap_abs]: "f < 64 \<Longrightarrow> cap_raised c f \<longleftrightarrow> f \<in> cap_set c"
  by (auto simp: cap_raised_def cap_set_mem cap_word_def CAP_TO_INDEX_div word_zero_iff_bits
      word_bits le_mod_geq)

lemma cap_set_mem_div: "n \<in> cap_set c \<longleftrightarrow> n < 64 \<and> bit (cap_word c (n div 32)) (n mod 32)"
  by (auto simp: cap_set_mem cap_word_def le_mod_geq)

lemma cap_word_set_cap_word:
  "i < 2 \<Longrightarrow> j < 2 \<Longrightarrow> cap_word (set_cap_word c i w) j = (if i = j then w else cap_word c j)"
  by (auto simp: cap_word_def set_cap_word_def)

lemma div_32_less: "(n::nat) < 64 \<Longrightarrow> n div 32 < 2"
  by (simp add: less_mult_imp_div_less)

lemma same_cap_bit:
  "(n::nat) < 64 \<Longrightarrow> f < 64 \<Longrightarrow> f div 32 = n div 32 \<and> n mod 32 = f mod 32 \<longleftrightarrow> n = f"
  by (metis mult_div_mod_eq)

lemma cap_set_mem_update:
  assumes "n < 64" "f < 64"
  shows "n \<in> cap_set (set_cap_word c (f div 32) w) \<longleftrightarrow>
    (if f div 32 = n div 32 then bit w (n mod 32) else n \<in> cap_set c)"
  using assms by (simp add: cap_set_mem_div cap_word_set_cap_word div_32_less)

lemma cap_set_raise [cap_abs]:
  assumes "f < 64"
  shows "cap_set (cap_raise c f) = insert f (cap_set c)"
proof -
  have "n \<in> cap_set (cap_raise c f) \<longleftrightarrow> n = f \<or> n \<in> cap_set c" if "n < 64" for n
    unfolding cap_raise_def CAP_TO_INDEX_div cap_set_mem_update [OF that assms]
    using same_cap_bit [OF that assms] that
    by (auto simp: word_bits cap_set_mem_div [of n c])
  with assms show ?thesis by (auto dest: cap_set_bounded)
qed

lemma cap_set_lower [cap_abs]:
  assumes "f < 64"
  shows "cap_set (cap_lower c f) = cap_set c - {f}"
proof -
  have "n \<in> cap_set (cap_lower c f) \<longleftrightarrow> n \<noteq> f \<and> n \<in> cap_set c" if "n < 64" for n
    unfolding cap_lower_def CAP_TO_INDEX_div cap_set_mem_update [OF that assms]
    using same_cap_bit [OF that assms] that
    by (auto simp: word_bits cap_set_mem_div [of n c])
  with assms show ?thesis by (auto dest: cap_set_bounded)
qed

lemma cap_set_drop_fs [cap_abs]: "cap_set (cap_drop_fs_set a) = cap_set a - cap_set CAP_FS_SET"
  by (simp add: cap_drop_fs_set_def cap_abs)

lemma cap_set_raise_fs [cap_abs]:
  "cap_set (cap_raise_fs_set a p) = cap_set a \<union> (cap_set p \<inter> cap_set CAP_FS_SET)"
  by (simp add: cap_raise_fs_set_def cap_abs)

section \<open>The interface the credential code relies on\<close>

text \<open>
  The callers of \<^verbatim>\<open>capability.h\<close> use the operations as the algebra of sets.  The
  locale states that contract; the lemmas below it are the ones the credential transitions
  need, and they hold for every representation of capability sets.
\<close>

locale capability_sets =
  fixes view :: "'c \<Rightarrow> nat set"
    and combine :: "'c \<Rightarrow> 'c \<Rightarrow> 'c"
    and intersect :: "'c \<Rightarrow> 'c \<Rightarrow> 'c"
    and diff :: "'c \<Rightarrow> 'c \<Rightarrow> 'c"
    and issubset :: "'c \<Rightarrow> 'c \<Rightarrow> bool"
    and none :: 'c
  assumes view_inject: "view a = view b \<Longrightarrow> a = b"
    and view_combine: "view (combine a b) = view a \<union> view b"
    and view_intersect: "view (intersect a b) = view a \<inter> view b"
    and view_diff: "view (diff a b) = view a - view b"
    and view_none: "view none = {}"
    and issubset_view: "issubset a b \<longleftrightarrow> view a \<subseteq> view b"
begin

lemmas views = view_combine view_intersect view_diff view_none issubset_view

lemma issubset_refl: "issubset a a"
  by (simp add: views)

lemma issubset_trans: "issubset a b \<Longrightarrow> issubset b c \<Longrightarrow> issubset a c"
  by (auto simp: views)

lemma issubset_antisym: "issubset a b \<Longrightarrow> issubset b a \<Longrightarrow> a = b"
  by (auto simp: views intro: view_inject)

lemma none_least: "issubset none a"
  by (simp add: views)

lemma below_none: "issubset a none \<Longrightarrow> a = none"
  by (rule issubset_antisym) (simp_all add: none_least)

lemma diff_below: "issubset a b \<Longrightarrow> issubset (diff a m) b"
  by (auto simp: views)

lemma raise_below: "issubset a p \<Longrightarrow> issubset (combine a (intersect p m)) p"
  by (auto simp: views)

lemma exec_formula_below:
  "issubset (combine (intersect bound fp) (intersect inh fi)) (combine bound inh)"
  by (auto simp: views)

end

interpretation kcap: capability_sets cap_set cap_combine cap_intersect cap_drop cap_issubset
  CAP_EMPTY_SET
  by unfold_locales (simp_all add: cap_abs)

end
