(* ===== verification/Group_Info.thy ===== *)
theory Group_Info
  imports Kernel_Prelude
begin

text \<open>
  Supplementary groups: \<^verbatim>\<open>struct group_info\<close> of \<^verbatim>\<open>include/linux/cred.h\<close> and its
  operations in \<^verbatim>\<open>kernel/sys.c\<close>.  The group ids live in a two-level array of blocks of
  \<^verbatim>\<open>NGROUPS_PER_BLOCK\<close> ids (one page each); \<open>gview\<close> is the flat array that
  \<^verbatim>\<open>GROUP_AT\<close> presents.  Shown here: \<^verbatim>\<open>groups_sort\<close> sorts and permutes,
  \<^verbatim>\<open>groups_search\<close> on a sorted array is membership for ids that are less than \<open>2 ^ 31\<close>
  apart (and is not for others), and the copies from and to user space are inverse to each other.

  User memory is the list of the words that are readable (writable) at the user's pointer: an
  access beyond its end faults.  Reference counts and the release of memory are not modelled;
  failing allocations are arguments.
\<close>

section \<open>The data and the operations\<close>

definition NGROUPS_SMALL :: nat where "NGROUPS_SMALL = 32"
definition NGROUPS_PER_BLOCK :: nat where "NGROUPS_PER_BLOCK = 1024"
definition NGROUPS_MAX :: nat where "NGROUPS_MAX = 65536"

text \<open>\<^verbatim>\<open>nblocks\<close> is the length of \<open>blocks\<close>.\<close>

record group_info =
  ngroups :: nat
  blocks :: "gid_t list list"

definition GROUP_AT :: "group_info \<Rightarrow> nat \<Rightarrow> gid_t" where
  "GROUP_AT gi i = blocks gi ! (i div NGROUPS_PER_BLOCK) ! (i mod NGROUPS_PER_BLOCK)"

text \<open>The same macro on the left of an assignment.\<close>

definition GROUP_SET :: "group_info \<Rightarrow> nat \<Rightarrow> gid_t \<Rightarrow> group_info" where
  "GROUP_SET gi i v = gi\<lparr>blocks := (blocks gi)[i div NGROUPS_PER_BLOCK :=
     (blocks gi ! (i div NGROUPS_PER_BLOCK))[i mod NGROUPS_PER_BLOCK := v]]\<rparr>"

text \<open>
  \<open>kmalloc_ok\<close> and \<open>page_ok i\<close> say whether the allocations succeed, \<open>junk\<close> is what
  fresh memory holds.
\<close>

definition groups_alloc :: "bool \<Rightarrow> (nat \<Rightarrow> bool) \<Rightarrow> gid_t \<Rightarrow> nat \<Rightarrow> group_info option" where
  "groups_alloc kmalloc_ok page_ok junk gidsetsize =
     (let nblocks = (gidsetsize + NGROUPS_PER_BLOCK - 1) div NGROUPS_PER_BLOCK;
          nblocks = (if nblocks \<noteq> 0 then nblocks else 1)
      in if \<not> kmalloc_ok then None
         else if gidsetsize \<le> NGROUPS_SMALL then
           Some \<lparr>ngroups = gidsetsize, blocks = [replicate NGROUPS_SMALL junk]\<rparr>
         else if list_all page_ok [0..<nblocks] then
           Some \<lparr>ngroups = gidsetsize,
                 blocks = replicate nblocks (replicate NGROUPS_PER_BLOCK junk)\<rparr>
         else None)"

fun to_user_blocks :: "gid_t list list \<Rightarrow> nat \<Rightarrow> nat \<Rightarrow> gid_t list result" where
  "to_user_blocks [] cnt room = Inr []"
| "to_user_blocks (b # bs) cnt room =
     (let cp_count = min NGROUPS_PER_BLOCK cnt
      in if room < cp_count then Inl EFAULT
         else case to_user_blocks bs (cnt - cp_count) (room - NGROUPS_PER_BLOCK) of
                Inl e \<Rightarrow> Inl e
              | Inr out \<Rightarrow> Inr (take cp_count b @ out))"

text \<open>\<open>room\<close> is the number of ids the user buffer can take; the result is what it then holds.\<close>

definition groups_to_user :: "nat \<Rightarrow> group_info \<Rightarrow> gid_t list result" where
  "groups_to_user room gi = to_user_blocks (blocks gi) (ngroups gi) room"

fun from_user_blocks :: "gid_t list list \<Rightarrow> nat \<Rightarrow> gid_t list \<Rightarrow> gid_t list list result" where
  "from_user_blocks [] cnt grouplist = Inr []"
| "from_user_blocks (b # bs) cnt grouplist =
     (let cp_count = min NGROUPS_PER_BLOCK cnt
      in if length grouplist < cp_count then Inl EFAULT
         else case from_user_blocks bs (cnt - cp_count) (drop NGROUPS_PER_BLOCK grouplist) of
                Inl e \<Rightarrow> Inl e
              | Inr bs' \<Rightarrow> Inr ((take cp_count grouplist @ drop cp_count b) # bs'))"

definition groups_from_user :: "group_info \<Rightarrow> gid_t list \<Rightarrow> group_info result" where
  "groups_from_user gi grouplist =
     (case from_user_blocks (blocks gi) (ngroups gi) grouplist of
        Inl e \<Rightarrow> Inl e
      | Inr bs \<Rightarrow> Inr (gi\<lparr>blocks := bs\<rparr>))"

text \<open>
  The Shell sort.  \<open>sort_shift\<close> is its innermost loop and returns the array and the final
  value of \<^verbatim>\<open>right\<close>; the enclosing loop only runs it with a nonzero stride.
\<close>

function sort_shift :: "group_info \<Rightarrow> nat \<Rightarrow> gid_t \<Rightarrow> int \<Rightarrow> nat \<Rightarrow> group_info \<times> nat" where
  "sort_shift gi stride tmp left right =
     (if stride \<noteq> 0 \<and> left \<ge> 0 \<and> GROUP_AT gi (nat left) > tmp
      then sort_shift (GROUP_SET gi right (GROUP_AT gi (nat left))) stride tmp
             (left - int stride) (nat left)
      else (gi, right))"
  by pat_completeness auto
termination
  by (relation "measure (\<lambda>(gi, stride, tmp, left, right). nat (left + 1))") auto

declare sort_shift.simps [simp del]

definition sort_insert :: "nat \<Rightarrow> nat \<Rightarrow> group_info \<Rightarrow> group_info" where
  "sort_insert stride base gi =
     (let right = base + stride;
          tmp = GROUP_AT gi right;
          (gi', right') = sort_shift gi stride tmp (int base) right
      in GROUP_SET gi' right' tmp)"

definition sort_pass :: "nat \<Rightarrow> group_info \<Rightarrow> group_info" where
  "sort_pass stride gi = fold (sort_insert stride) [0..<ngroups gi - stride] gi"

fun sort_strides :: "nat \<Rightarrow> group_info \<Rightarrow> group_info" where
  "sort_strides stride gi =
     (if stride = 0 then gi else sort_strides (stride div 3) (sort_pass stride gi))"

declare sort_strides.simps [simp del]

function first_stride :: "nat \<Rightarrow> nat \<Rightarrow> nat" where
  "first_stride gidsetsize stride =
     (if stride < gidsetsize then first_stride gidsetsize (3 * stride + 1) else stride)"
  by pat_completeness auto
termination
  by (relation "measure (\<lambda>(n, s). n - s)") auto

declare first_stride.simps [simp del]

definition groups_sort :: "group_info \<Rightarrow> group_info" where
  "groups_sort gi = sort_strides (first_stride (ngroups gi) 1 div 3) gi"

text \<open>
  The binary search.  \<^verbatim>\<open>int cmp = grp - GROUP_AT(...)\<close> subtracts two unsigned ids and
  reads the 32-bit difference as a signed number.  The indices stay below
  \<^verbatim>\<open>NGROUPS_MAX\<close>, so their sum does not wrap.
\<close>

function groups_search_loop :: "group_info \<Rightarrow> gid_t \<Rightarrow> nat \<Rightarrow> nat \<Rightarrow> bool" where
  "groups_search_loop gi grp left right =
     (if left < right then
        let mid = (left + right) div 2;
            cmp = sint (grp - GROUP_AT gi mid)
        in if cmp > 0 then groups_search_loop gi grp (mid + 1) right
           else if cmp < 0 then groups_search_loop gi grp left mid
           else True
      else False)"
  by pat_completeness auto
termination
  by (relation "measure (\<lambda>(gi, grp, left, right). right - left)") auto

declare groups_search_loop.simps [simp del]

definition groups_search :: "group_info option \<Rightarrow> gid_t \<Rightarrow> bool" where
  "groups_search gio grp =
     (case gio of None \<Rightarrow> False | Some gi \<Rightarrow> groups_search_loop gi grp 0 (ngroups gi))"

section \<open>The flat view of the block array\<close>

definition gview :: "group_info \<Rightarrow> gid_t list" where
  "gview gi = map (GROUP_AT gi) [0..<ngroups gi]"

text \<open>
  The shape of the blocks of \<open>n\<close> ids: as many blocks as needed, each with room for the ids
  that go into it.
\<close>

fun block_shape :: "nat \<Rightarrow> gid_t list list \<Rightarrow> bool" where
  "block_shape n [] \<longleftrightarrow> n = 0"
| "block_shape n (b # bs) \<longleftrightarrow>
     min NGROUPS_PER_BLOCK n \<le> length b \<and> block_shape (n - NGROUPS_PER_BLOCK) bs"

definition groups_wf :: "group_info \<Rightarrow> bool" where
  "groups_wf gi \<longleftrightarrow> block_shape (ngroups gi) (blocks gi)"

lemma block_shape_index:
  "block_shape n bs \<Longrightarrow> i < n \<Longrightarrow>
    i div NGROUPS_PER_BLOCK < length bs \<and> i mod NGROUPS_PER_BLOCK < length (bs ! (i div NGROUPS_PER_BLOCK))"
proof (induction n bs arbitrary: i rule: block_shape.induct)
  case (2 n b bs)
  show ?case
  proof (cases "i < NGROUPS_PER_BLOCK")
    case True
    with 2 show ?thesis by auto
  next
    case False
    moreover have "NGROUPS_PER_BLOCK > 0" by (simp add: NGROUPS_PER_BLOCK_def)
    ultimately show ?thesis
      using 2 "2.IH" [of "i - NGROUPS_PER_BLOCK"]
      by (simp add: le_div_geq le_mod_geq not_less)
  qed
qed simp

lemma block_shape_update:
  "block_shape n bs \<Longrightarrow> block_shape n (bs[k := (bs ! k)[m := v]])"
  by (induction n bs arbitrary: k rule: block_shape.induct) (auto split: nat.split)

lemma groups_wf_index:
  assumes "groups_wf gi" "i < ngroups gi"
  shows "i div NGROUPS_PER_BLOCK < length (blocks gi)"
    "i mod NGROUPS_PER_BLOCK < length (blocks gi ! (i div NGROUPS_PER_BLOCK))"
  using block_shape_index [of "ngroups gi" "blocks gi" i] assms by (simp_all add: groups_wf_def)

lemma length_gview [simp]: "length (gview gi) = ngroups gi"
  by (simp add: gview_def)

lemma gview_nth [simp]: "i < ngroups gi \<Longrightarrow> gview gi ! i = GROUP_AT gi i"
  by (simp add: gview_def)

lemma ngroups_GROUP_SET [simp]: "ngroups (GROUP_SET gi i v) = ngroups gi"
  by (simp add: GROUP_SET_def)

lemma groups_wf_GROUP_SET [simp]: "groups_wf gi \<Longrightarrow> groups_wf (GROUP_SET gi i v)"
  unfolding groups_wf_def GROUP_SET_def by (simp add: block_shape_update)

lemma GROUP_AT_SET:
  assumes "groups_wf gi" "i < ngroups gi" "j < ngroups gi"
  shows "GROUP_AT (GROUP_SET gi i v) j = (if i = j then v else GROUP_AT gi j)"
proof -
  have "i div NGROUPS_PER_BLOCK = j div NGROUPS_PER_BLOCK \<Longrightarrow> i \<noteq> j \<Longrightarrow>
      i mod NGROUPS_PER_BLOCK \<noteq> j mod NGROUPS_PER_BLOCK"
    by (metis mult_div_mod_eq)
  with groups_wf_index [OF assms(1)] assms(2,3) show ?thesis
    unfolding GROUP_SET_def GROUP_AT_def
    by (cases "i = j"; cases "i div NGROUPS_PER_BLOCK = j div NGROUPS_PER_BLOCK") simp_all
qed

lemma gview_GROUP_SET:
  "groups_wf gi \<Longrightarrow> i < ngroups gi \<Longrightarrow> gview (GROUP_SET gi i v) = (gview gi)[i := v]"
  by (rule nth_equalityI) (auto simp: GROUP_AT_SET nth_list_update)

section \<open>The sort\<close>

text \<open>
  With any stride the innermost loop only moves elements: putting \<open>tmp\<close> into the hole at
  \<open>right\<close> gives the same multiset before and after.
\<close>

lemma sort_shift_perm:
  assumes "sort_shift gi stride tmp left right = (gi', right')"
    and "groups_wf gi" "right < ngroups gi" "left = int right - int stride"
  shows "groups_wf gi' \<and> ngroups gi' = ngroups gi \<and> right' < ngroups gi \<and>
    mset ((gview gi')[right' := tmp]) = mset ((gview gi)[right := tmp])"
  using assms
proof (induction gi stride tmp left right arbitrary: gi' right' rule: sort_shift.induct)
  case (1 gi stride tmp left right)
  show ?case
  proof (cases "stride \<noteq> 0 \<and> left \<ge> 0 \<and> GROUP_AT gi (nat left) > tmp")
    case True
    let ?g = "GROUP_SET gi right (GROUP_AT gi (nat left))"
    have l: "nat left < ngroups gi" "nat left \<noteq> right"
      using True "1.prems" by auto
    have run: "sort_shift ?g stride tmp (left - int stride) (nat left) = (gi', right')"
      using "1.prems"(1) True by (simp add: sort_shift.simps [of gi])
    have "mset ((gview ?g)[nat left := tmp]) = mset ((gview gi)[right := tmp])"
      using l "1.prems"(2,3) mset_swap_update [of right "gview gi" "nat left" tmp]
      by (simp add: gview_GROUP_SET)
    with "1.IH" [OF True run] "1.prems" l True show ?thesis by simp
  next
    case False
    then have "gi' = gi" "right' = right"
      using "1.prems"(1) by (auto simp: sort_shift.simps [of gi])
    with "1.prems" show ?thesis by simp
  qed
qed

lemma sort_insert_perm:
  assumes "groups_wf gi" "base + stride < ngroups gi"
  shows "groups_wf (sort_insert stride base gi) \<and> ngroups (sort_insert stride base gi) = ngroups gi
    \<and> mset (gview (sort_insert stride base gi)) = mset (gview gi)"
proof -
  let ?tmp = "GROUP_AT gi (base + stride)"
  obtain gi' right' where run: "sort_shift gi stride ?tmp (int base) (base + stride) = (gi', right')"
    by fastforce
  have "(gview gi)[base + stride := ?tmp] = gview gi"
    using assms by (simp flip: gview_nth)
  with sort_shift_perm [OF run] assms run show ?thesis
    by (simp add: sort_insert_def gview_GROUP_SET)
qed

text \<open>With stride 1 the loop inserts into the sorted prefix.\<close>

lemma sort_shift_sorted:
  assumes "sort_shift gi 1 tmp left right = (gi', right')"
    and "groups_wf gi" "right \<le> hi" "hi < ngroups gi" "left = int right - 1"
    and "\<forall>i j. i < j \<longrightarrow> j \<le> hi \<longrightarrow> i \<noteq> right \<longrightarrow> j \<noteq> right \<longrightarrow> GROUP_AT gi i \<le> GROUP_AT gi j"
    and "\<forall>j. right < j \<longrightarrow> j \<le> hi \<longrightarrow> tmp < GROUP_AT gi j"
  shows "right' \<le> hi \<and>
    (\<forall>i j. i < j \<longrightarrow> j \<le> hi \<longrightarrow>
       GROUP_AT (GROUP_SET gi' right' tmp) i \<le> GROUP_AT (GROUP_SET gi' right' tmp) j)"
  using assms
proof (induction gi "1::nat" tmp left right arbitrary: gi' right' rule: sort_shift.induct)
  case (1 gi tmp left right)
  show ?case
  proof (cases "left \<ge> 0 \<and> GROUP_AT gi (nat left) > tmp")
    case True
    let ?g = "GROUP_SET gi right (GROUP_AT gi (nat left))"
    have l: "nat left < right" "Suc (nat left) = right"
      using True "1.prems" by auto
    have run: "sort_shift ?g 1 tmp (left - int 1) (nat left) = (gi', right')"
      using "1.prems"(1) True by (simp add: sort_shift.simps [of gi])
    have at: "GROUP_AT ?g k = (if right = k then GROUP_AT gi (nat left) else GROUP_AT gi k)"
      if "k \<le> hi" for k
      using that "1.prems" by (simp add: GROUP_AT_SET)
    have s: "\<forall>i j. i < j \<longrightarrow> j \<le> hi \<longrightarrow> i \<noteq> nat left \<longrightarrow> j \<noteq> nat left \<longrightarrow>
        GROUP_AT ?g i \<le> GROUP_AT ?g j"
      using "1.prems"(6) l by (auto simp: at)
    have g: "\<forall>j. nat left < j \<longrightarrow> j \<le> hi \<longrightarrow> tmp < GROUP_AT ?g j"
      using "1.prems"(7) True l by (auto simp: at)
    show ?thesis
      using "1.hyps" [OF _ run] True "1.prems" l s g by simp
  next
    case False
    then have res: "gi' = gi" "right' = right"
      using "1.prems"(1) by (auto simp: sort_shift.simps [of gi])
    have at: "GROUP_AT (GROUP_SET gi right tmp) k = (if right = k then tmp else GROUP_AT gi k)"
      if "k \<le> hi" for k
      using that "1.prems" by (simp add: GROUP_AT_SET)
    have below: "GROUP_AT gi i \<le> tmp" if "i < right" for i
    proof (cases "i = nat left")
      case True
      with False that show ?thesis using "1.prems" by auto
    next
      case False': False
      with that "1.prems" have "GROUP_AT gi i \<le> GROUP_AT gi (nat left)" by auto
      also have "\<dots> \<le> tmp" using False that "1.prems" by auto
      finally show ?thesis .
    qed
    show ?thesis
      using "1.prems"(3,6,7) below by (auto simp: res at less_imp_le)
  qed
qed

lemma sort_insert_sorted:
  assumes "groups_wf gi" "Suc base < ngroups gi"
    and "\<forall>i j. i < j \<longrightarrow> j \<le> base \<longrightarrow> GROUP_AT gi i \<le> GROUP_AT gi j"
  shows "\<forall>i j. i < j \<longrightarrow> j \<le> Suc base \<longrightarrow>
    GROUP_AT (sort_insert 1 base gi) i \<le> GROUP_AT (sort_insert 1 base gi) j"
proof -
  let ?tmp = "GROUP_AT gi (base + 1)"
  obtain gi' right' where run: "sort_shift gi 1 ?tmp (int base) (base + 1) = (gi', right')"
    by fastforce
  have "\<forall>i j. i < j \<longrightarrow> j \<le> Suc base \<longrightarrow> i \<noteq> Suc base \<longrightarrow> j \<noteq> Suc base \<longrightarrow>
      GROUP_AT gi i \<le> GROUP_AT gi j"
    using assms(3) by auto
  with sort_shift_sorted [OF run, where hi = "Suc base"] assms run show ?thesis
    by (simp add: sort_insert_def)
qed

lemma sort_pass_prefix_perm:
  assumes "groups_wf gi" "k \<le> ngroups gi - stride"
  shows "groups_wf (fold (sort_insert stride) [0..<k] gi) \<and>
    ngroups (fold (sort_insert stride) [0..<k] gi) = ngroups gi \<and>
    mset (gview (fold (sort_insert stride) [0..<k] gi)) = mset (gview gi)"
  using assms
proof (induction k)
  case (Suc k)
  then show ?case
    using sort_insert_perm [of "fold (sort_insert stride) [0..<k] gi" k stride] by simp
qed simp

lemma sort_pass_perm:
  assumes "groups_wf gi"
  shows "groups_wf (sort_pass stride gi)" "ngroups (sort_pass stride gi) = ngroups gi"
    "mset (gview (sort_pass stride gi)) = mset (gview gi)"
  using sort_pass_prefix_perm [OF assms, of "ngroups gi - stride" stride]
  by (simp_all add: sort_pass_def)

lemma sort_pass_prefix_sorted:
  assumes "groups_wf gi" "k < ngroups gi"
  shows "\<forall>i j. i < j \<longrightarrow> j \<le> k \<longrightarrow> GROUP_AT (fold (sort_insert 1) [0..<k] gi) i
    \<le> GROUP_AT (fold (sort_insert 1) [0..<k] gi) j"
  using assms(2)
proof (induction k)
  case (Suc k)
  let ?g = "fold (sort_insert 1) [0..<k] gi"
  have "groups_wf ?g" "ngroups ?g = ngroups gi"
    using sort_pass_prefix_perm [OF assms(1), of k 1] Suc.prems by auto
  moreover have "\<forall>i j. i < j \<longrightarrow> j \<le> k \<longrightarrow> GROUP_AT ?g i \<le> GROUP_AT ?g j"
    using Suc.IH Suc.prems by simp
  ultimately show ?case
    using sort_insert_sorted [of ?g k] Suc.prems by simp
qed simp

lemma sort_pass_one_sorted:
  assumes "groups_wf gi"
  shows "sorted (gview (sort_pass 1 gi))"
proof (cases "ngroups gi")
  case 0
  then show ?thesis by (simp add: sort_pass_def gview_def)
next
  case (Suc n)
  have "ngroups (sort_pass 1 gi) = Suc n"
    using sort_pass_perm [OF assms] Suc by simp
  moreover have "\<forall>i j. i < j \<longrightarrow> j \<le> n \<longrightarrow> GROUP_AT (sort_pass 1 gi) i \<le> GROUP_AT (sort_pass 1 gi) j"
    using sort_pass_prefix_sorted [OF assms, of n] Suc by (simp add: sort_pass_def)
  ultimately show ?thesis
    by (auto simp: sorted_iff_nth_mono_less)
qed

text \<open>The strides are 1, 4, 13, \<open>\<dots>\<close>, so dividing by three walks down to 1.\<close>

primrec shell_stride :: "nat \<Rightarrow> nat" where
  "shell_stride 0 = 0"
| "shell_stride (Suc k) = 3 * shell_stride k + 1"

lemma shell_stride_div: "shell_stride (Suc k) div 3 = shell_stride k"
  unfolding shell_stride.simps by presburger

lemma first_stride_shell:
  "\<exists>j. first_stride n (shell_stride (Suc k)) = shell_stride (Suc j) \<and> n \<le> shell_stride (Suc j)"
proof (induction n "shell_stride (Suc k)" arbitrary: k rule: first_stride.induct)
  case (1 n)
  show ?case
  proof (cases "shell_stride (Suc k) < n")
    case True
    with "1" [OF True, of "Suc k"] show ?thesis
      by (subst first_stride.simps) (simp only: shell_stride.simps if_True)
  next
    case False
    then show ?thesis by (subst first_stride.simps) (auto simp: not_less)
  qed
qed

lemma sort_strides_perm:
  "groups_wf gi \<Longrightarrow> groups_wf (sort_strides stride gi) \<and> ngroups (sort_strides stride gi) = ngroups gi \<and>
    mset (gview (sort_strides stride gi)) = mset (gview gi)"
proof (induction stride gi rule: sort_strides.induct)
  case (1 stride gi)
  show ?case
    by (subst (1 2 3) sort_strides.simps) (use "1" in \<open>simp add: sort_pass_perm\<close>)
qed

lemma sort_strides_sorted:
  "groups_wf gi \<Longrightarrow> sorted (gview (sort_strides (shell_stride (Suc k)) gi))"
proof (induction k arbitrary: gi)
  case 0
  then show ?case
    using sort_pass_one_sorted [OF 0]
    by (simp add: sort_strides.simps [of "Suc 0"] sort_strides.simps [of 0])
next
  case (Suc k)
  show ?case
    by (subst sort_strides.simps)
      (use Suc.IH [OF sort_pass_perm(1) [OF Suc.prems]] shell_stride_div [of "Suc k"] in simp)
qed

lemma groups_sort_perm:
  assumes "groups_wf gi"
  shows "groups_wf (groups_sort gi)" "ngroups (groups_sort gi) = ngroups gi"
    "mset (gview (groups_sort gi)) = mset (gview gi)"
  using sort_strides_perm [OF assms] by (simp_all add: groups_sort_def)

lemma groups_sort_sorted:
  assumes "groups_wf gi"
  shows "sorted (gview (groups_sort gi))"
proof -
  obtain j where j: "first_stride (ngroups gi) 1 = shell_stride (Suc j)"
    "ngroups gi \<le> shell_stride (Suc j)"
    using first_stride_shell [of "ngroups gi" 0] by auto
  have st: "groups_sort gi = sort_strides (shell_stride j) gi"
    unfolding groups_sort_def j(1) shell_stride_div ..
  show ?thesis
  proof (cases j)
    case 0
    with j(2) have "length (gview gi) \<le> 1" by simp
    then have "sorted (gview gi)" by (simp add: sorted_iff_nth_mono_less)
    then show ?thesis using 0 st by (simp add: sort_strides.simps [of 0])
  next
    case (Suc k)
    then show ?thesis using st sort_strides_sorted [OF assms] by simp
  qed
qed

section \<open>The search\<close>

text \<open>
  The signed difference of two ids orders them as the ids are ordered when they are less than
  \<open>2 ^ 31\<close> apart.
\<close>

lemma sint_diff_near:
  assumes "\<bar>uint a - uint (b :: u32)\<bar> < 2 ^ 31"
  shows "sint (a - b) = uint a - uint b"
proof -
  have "signed_take_bit 31 (uint a - uint b) = uint a - uint b"
    by (intro signed_take_bit_int_eq_self) (use assms in linarith)+
  moreover have "uint (a - b) = take_bit 32 (uint a - uint b)"
    by (simp add: uint_word_ariths take_bit_eq_mod)
  ultimately show ?thesis
    by (simp add: sint_uint signed_take_bit_take_bit)
qed

lemma groups_search_loop_correct:
  assumes "sorted (gview gi)" "right \<le> ngroups gi" "\<forall>g \<in> set (gview gi). \<bar>uint grp - uint g\<bar> < 2 ^ 31"
    and "\<forall>i < ngroups gi. GROUP_AT gi i = grp \<longrightarrow> left \<le> i \<and> i < right"
  shows "groups_search_loop gi grp left right \<longleftrightarrow> (\<exists>i < ngroups gi. GROUP_AT gi i = grp)"
  using assms
proof (induction gi grp left right rule: groups_search_loop.induct)
  case (1 gi grp left right)
  show ?case
  proof (cases "left < right")
    case True
    let ?mid = "(left + right) div 2"
    have mid: "left \<le> ?mid" "?mid < right" "?mid < ngroups gi"
      using True "1.prems"(2) by auto
    then have "GROUP_AT gi ?mid \<in> set (gview gi)"
      by (auto simp: gview_def)
    then have cmp: "sint (grp - GROUP_AT gi ?mid) = uint grp - uint (GROUP_AT gi ?mid)"
      using "1.prems"(3) by (simp add: sint_diff_near)
    have mono: "GROUP_AT gi i \<le> GROUP_AT gi j" if "i \<le> j" "j < ngroups gi" for i j
      using "1.prems"(1) that by (auto simp: sorted_iff_nth_mono)
    consider "grp > GROUP_AT gi ?mid" | "grp < GROUP_AT gi ?mid" | "grp = GROUP_AT gi ?mid"
      by (rule linorder_cases)
    then show ?thesis
    proof cases
      case 1
      then have pos: "sint (grp - GROUP_AT gi ?mid) > 0"
        by (simp add: cmp word_less_alt)
      have "\<forall>i < ngroups gi. GROUP_AT gi i = grp \<longrightarrow> ?mid + 1 \<le> i \<and> i < right"
        using "1.prems"(4) 1 mono [of _ ?mid] mid(3) by (metis not_less Suc_eq_plus1 not_less_eq_eq)
      with "1.IH"(1) [OF True refl refl pos] "1.prems" True pos show ?thesis
        by (simp add: groups_search_loop.simps [of gi grp left right] Let_def)
    next
      case 2
      then have neg: "sint (grp - GROUP_AT gi ?mid) < 0"
        by (simp add: cmp word_less_alt)
      have "\<forall>i < ngroups gi. GROUP_AT gi i = grp \<longrightarrow> left \<le> i \<and> i < ?mid"
        using "1.prems"(4) 2 mono [of ?mid] by (metis not_less)
      moreover have "\<not> sint (grp - GROUP_AT gi ?mid) > 0" using neg by simp
      ultimately show ?thesis
        using "1.IH"(2) [OF True refl refl _ neg] "1.prems" True neg mid
        by (simp add: groups_search_loop.simps [of gi grp left right] Let_def)
    next
      case 3
      then show ?thesis
        using True mid by (subst groups_search_loop.simps) (auto simp: Let_def)
    qed
  next
    case False
    then show ?thesis
      using "1.prems"(4) by (auto simp: groups_search_loop.simps [of gi grp left right])
  qed
qed

lemma groups_search_loop_member:
  assumes "sorted (gview gi)" "\<forall>g \<in> set (gview gi). \<bar>uint grp - uint g\<bar> < 2 ^ 31"
  shows "groups_search_loop gi grp 0 (ngroups gi) \<longleftrightarrow> grp \<in> set (gview gi)"
  using groups_search_loop_correct [OF assms(1) order_refl assms(2)] by (auto simp: gview_def)

section \<open>Copies from and to user space\<close>

lemma from_user_blocks_ok:
  "block_shape n bs \<Longrightarrow> n \<le> length xs \<Longrightarrow>
    \<exists>bs'. from_user_blocks bs n xs = Inr bs' \<and> block_shape n bs' \<and>
      (\<forall>i < n. bs' ! (i div NGROUPS_PER_BLOCK) ! (i mod NGROUPS_PER_BLOCK) = xs ! i)"
proof (induction bs arbitrary: n xs)
  case (Cons b bs)
  let ?N = NGROUPS_PER_BLOCK
  have N: "?N > 0" by (simp add: NGROUPS_PER_BLOCK_def)
  have "block_shape (n - ?N) bs" "n - ?N \<le> length (drop ?N xs)"
    using Cons.prems by auto
  from Cons.IH [OF this] obtain bs' where bs':
    "from_user_blocks bs (n - ?N) (drop ?N xs) = Inr bs'" "block_shape (n - ?N) bs'"
    "\<And>i. i < n - ?N \<Longrightarrow> bs' ! (i div ?N) ! (i mod ?N) = drop ?N xs ! i"
    by auto
  let ?b = "take (min ?N n) xs @ drop (min ?N n) b"
  have "(?b # bs') ! (i div ?N) ! (i mod ?N) = xs ! i" if "i < n" for i
  proof (cases "i < ?N")
    case True
    with that Cons.prems show ?thesis by (simp add: nth_append)
  next
    case False
    then show ?thesis
      using that bs'(3) [of "i - ?N"] N Cons.prems by (simp add: le_div_geq le_mod_geq not_less)
  qed
  moreover have "n - min ?N n = n - ?N" by auto
  ultimately show ?case
    using Cons.prems bs' by (auto simp: Let_def)
qed simp

lemma to_user_blocks_view:
  "block_shape n bs \<Longrightarrow> n \<le> room \<Longrightarrow>
    \<exists>ys. to_user_blocks bs n room = Inr ys \<and> length ys = n \<and>
      (\<forall>i < n. ys ! i = bs ! (i div NGROUPS_PER_BLOCK) ! (i mod NGROUPS_PER_BLOCK))"
proof (induction bs arbitrary: n room)
  case (Cons b bs)
  let ?N = NGROUPS_PER_BLOCK
  have N: "?N > 0" by (simp add: NGROUPS_PER_BLOCK_def)
  have "block_shape (n - ?N) bs" "n - ?N \<le> room - ?N"
    using Cons.prems by auto
  from Cons.IH [OF this] obtain ys where ys:
    "to_user_blocks bs (n - ?N) (room - ?N) = Inr ys" "length ys = n - ?N"
    "\<And>i. i < n - ?N \<Longrightarrow> ys ! i = bs ! (i div ?N) ! (i mod ?N)"
    by auto
  let ?ys = "take (min ?N n) b @ ys"
  have len: "length (take (min ?N n) b) = min ?N n" using Cons.prems by simp
  have "?ys ! i = (b # bs) ! (i div ?N) ! (i mod ?N)" if "i < n" for i
  proof (cases "i < ?N")
    case True
    with that len show ?thesis by (simp add: nth_append)
  next
    case False
    then show ?thesis
      using that ys(3) [of "i - ?N"] N len by (simp add: nth_append le_div_geq le_mod_geq not_less)
  qed
  moreover have "n - min ?N n = n - ?N" "length ?ys = n" using len ys(2) by auto
  ultimately show ?case
    using Cons.prems ys by (auto simp: Let_def)
qed simp

lemma groups_to_user_view:
  assumes "groups_wf gi" "ngroups gi \<le> room"
  shows "groups_to_user room gi = Inr (gview gi)"
proof -
  obtain ys where ys: "to_user_blocks (blocks gi) (ngroups gi) room = Inr ys"
    "length ys = ngroups gi" "\<forall>i < ngroups gi. ys ! i = GROUP_AT gi i"
    using to_user_blocks_view [of "ngroups gi" "blocks gi" room] assms
    by (auto simp: groups_wf_def GROUP_AT_def)
  then have "ys = gview gi" by (intro nth_equalityI) auto
  with ys show ?thesis by (simp add: groups_to_user_def)
qed

lemma groups_from_user_view:
  assumes "groups_wf gi" "ngroups gi \<le> length xs"
  shows "\<exists>gi'. groups_from_user gi xs = Inr gi' \<and> groups_wf gi' \<and> ngroups gi' = ngroups gi \<and>
    gview gi' = take (ngroups gi) xs"
proof -
  obtain bs where bs: "from_user_blocks (blocks gi) (ngroups gi) xs = Inr bs"
    "block_shape (ngroups gi) bs"
    "\<forall>i < ngroups gi. bs ! (i div NGROUPS_PER_BLOCK) ! (i mod NGROUPS_PER_BLOCK) = xs ! i"
    using from_user_blocks_ok [of "ngroups gi" "blocks gi" xs] assms by (auto simp: groups_wf_def)
  then have "gview (gi\<lparr>blocks := bs\<rparr>) = take (ngroups gi) xs"
    using assms by (intro nth_equalityI) (auto simp: GROUP_AT_def)
  with bs show ?thesis by (simp add: groups_from_user_def groups_wf_def)
qed

lemma from_user_blocks_fault:
  "block_shape n bs \<Longrightarrow> length xs < n \<Longrightarrow> from_user_blocks bs n xs = Inl EFAULT"
proof (induction bs arbitrary: n xs)
  case (Cons b bs)
  have "n - min NGROUPS_PER_BLOCK n = n - NGROUPS_PER_BLOCK" by auto
  then show ?case
    using Cons.prems Cons.IH [of "n - NGROUPS_PER_BLOCK" "drop NGROUPS_PER_BLOCK xs"]
    by (auto simp: Let_def)
qed simp

lemma block_shape_pages:
  "n \<le> NGROUPS_PER_BLOCK * k \<Longrightarrow> block_shape n (replicate k (replicate NGROUPS_PER_BLOCK junk))"
  by (induction k arbitrary: n) auto

lemma groups_alloc_wf:
  assumes "groups_alloc kmalloc_ok page_ok junk n = Some gi"
  shows "groups_wf gi" "ngroups gi = n"
proof -
  have "n \<le> NGROUPS_PER_BLOCK * ((n + NGROUPS_PER_BLOCK - 1) div NGROUPS_PER_BLOCK)"
    unfolding NGROUPS_PER_BLOCK_def by simp
  then have "block_shape n (replicate ((n + NGROUPS_PER_BLOCK - 1) div NGROUPS_PER_BLOCK)
      (replicate NGROUPS_PER_BLOCK junk))"
    by (rule block_shape_pages)
  then show "groups_wf gi" "ngroups gi = n"
    using assms
    by (auto simp: groups_alloc_def groups_wf_def Let_def NGROUPS_PER_BLOCK_def NGROUPS_SMALL_def
        split: if_splits)
qed

section \<open>Properties\<close>

definition three_groups :: "gid_t \<Rightarrow> gid_t \<Rightarrow> gid_t \<Rightarrow> group_info" where
  "three_groups a b c = \<lparr>ngroups = 3, blocks = [[a, b, c]]\<rparr>"

lemma three_groups_wf: "groups_wf (three_groups a b c)"
  by (simp add: three_groups_def groups_wf_def NGROUPS_PER_BLOCK_def)

lemma three_groups_view: "gview (three_groups a b c) = [a, b, c]"
  by (simp add: gview_def three_groups_def GROUP_AT_def NGROUPS_PER_BLOCK_def upt_rec)

text \<open>
  C9: the Shell sort of \<^verbatim>\<open>groups_sort\<close>, which works in place on the two-level block
  array, leaves the array that sorting its ids gives, with the same number of ids and a
  well-formed block structure.
\<close>

theorem groups_sort_is_sort:
  assumes "groups_wf gi"
  shows "gview (groups_sort gi) = sort (gview gi) \<and> ngroups (groups_sort gi) = ngroups gi \<and>
    groups_wf (groups_sort gi)"
  using groups_sort_perm [OF assms] groups_sort_sorted [OF assms]
  by (metis properties_for_sort)

theorem groups_sort_is_sort_witness:
  "groups_wf (three_groups 5 1 3) \<and> gview (groups_sort (three_groups 5 1 3)) = [1, 3, 5]"
  using groups_sort_is_sort [OF three_groups_wf, of 5 1 3] three_groups_wf
  by (simp add: three_groups_view word_le_nat_alt)

text \<open>
  On a sorted array whose ids are all less than \<open>2 ^ 31\<close> away from the one searched
  for, the binary search of \<^verbatim>\<open>groups_search\<close> answers whether the id is in the array;
  without an array it answers no.
\<close>

theorem groups_search_member:
  assumes "sorted (gview gi)" "\<forall>g \<in> set (gview gi). \<bar>uint grp - uint g\<bar> < 2 ^ 31"
  shows "(groups_search (Some gi) grp \<longleftrightarrow> grp \<in> set (gview gi)) \<and> \<not> groups_search None grp"
  using groups_search_loop_member [OF assms] by (simp add: groups_search_def)

theorem groups_search_member_witness:
  "groups_search (Some (three_groups 1 3 5)) 3 \<and> \<not> groups_search (Some (three_groups 1 3 5)) 4"
  using groups_search_member [of "three_groups 1 3 5" 3] groups_search_member [of "three_groups 1 3 5" 4]
  by (simp add: three_groups_view)

text \<open>
  For ids further apart it is not: the comparison \<^verbatim>\<open>int cmp = grp - GROUP_AT(...)\<close>
  overflows, and in the sorted array \<^verbatim>\<open>0, 1, 0x90000000\<close> the id \<^verbatim>\<open>0x90000000\<close>
  is not found.
\<close>

theorem groups_search_misses:
  "groups_wf (three_groups 0 1 0x90000000) \<and> sorted (gview (three_groups 0 1 0x90000000)) \<and>
    0x90000000 \<in> set (gview (three_groups 0 1 0x90000000)) \<and>
    \<not> groups_search (Some (three_groups 0 1 0x90000000)) 0x90000000"
proof -
  have at: "GROUP_AT (three_groups 0 1 0x90000000) 0 = 0" "GROUP_AT (three_groups 0 1 0x90000000) (Suc 0) = 1"
    by (simp_all add: three_groups_def GROUP_AT_def NGROUPS_PER_BLOCK_def)
  have "groups_search_loop (three_groups 0 1 0x90000000) 0x90000000 0 3 = False"
    by (subst groups_search_loop.simps, simp add: at Let_def, subst groups_search_loop.simps,
        simp add: at Let_def, subst groups_search_loop.simps, simp)
  then show ?thesis
    by (simp add: groups_search_def three_groups_wf three_groups_view)
      (simp add: three_groups_def)
qed

end
