(* ===== verification/Cred.thy ===== *)
theory Cred
  imports Capability Group_Info
begin

text \<open>
  Credentials: \<^verbatim>\<open>struct cred\<close> of \<^verbatim>\<open>include/linux/cred.h\<close>, the part of
  \<^verbatim>\<open>struct task_struct\<close> that carries them, and the copy-modify-commit protocol of
  \<^verbatim>\<open>kernel/cred.c\<close>.  A credential record has an identity \<open>cred_id\<close> that stands for
  its address, so that the two pointers \<^verbatim>\<open>task->cred\<close> and \<^verbatim>\<open>task->real_cred\<close>
  can be compared as the code does.  A \<^verbatim>\<open>user_struct\<close> is named by its uid (there is one
  user namespace) and its process count is kept in \<open>processes\<close>.

  \<^verbatim>\<open>BUG()\<close> and \<^verbatim>\<open>BUG_ON\<close> stop the kernel; the model records them in the flag
  \<open>bug\<close>, and the theories that follow show that it is never raised.  Reference counts, RCU
  and keyrings (\<^verbatim>\<open>CONFIG_KEYS\<close> is off) are not modelled.  Whether an allocation succeeds
  is an argument.
\<close>

section \<open>The data\<close>

definition SECURE_NOROOT :: nat where "SECURE_NOROOT = 0"
definition SECURE_NOROOT_LOCKED :: nat where "SECURE_NOROOT_LOCKED = 1"
definition SECURE_NO_SETUID_FIXUP :: nat where "SECURE_NO_SETUID_FIXUP = 2"
definition SECURE_NO_SETUID_FIXUP_LOCKED :: nat where "SECURE_NO_SETUID_FIXUP_LOCKED = 3"
definition SECURE_KEEP_CAPS :: nat where "SECURE_KEEP_CAPS = 4"
definition SECURE_KEEP_CAPS_LOCKED :: nat where "SECURE_KEEP_CAPS_LOCKED = 5"

lemmas secure_numbers =
  SECURE_NOROOT_def SECURE_NOROOT_LOCKED_def SECURE_NO_SETUID_FIXUP_def
  SECURE_NO_SETUID_FIXUP_LOCKED_def SECURE_KEEP_CAPS_def SECURE_KEEP_CAPS_LOCKED_def

definition issecure_mask :: "nat \<Rightarrow> u32" where
  "issecure_mask x = push_bit x 1"

definition SECURE_ALL_BITS :: u32 where
  "SECURE_ALL_BITS = issecure_mask SECURE_NOROOT OR issecure_mask SECURE_NO_SETUID_FIXUP
     OR issecure_mask SECURE_KEEP_CAPS"

definition SECURE_ALL_LOCKS :: u32 where
  "SECURE_ALL_LOCKS = push_bit 1 SECURE_ALL_BITS"

record cred =
  cred_id :: nat
  uid :: uid_t
  gid :: gid_t
  suid :: uid_t
  sgid :: gid_t
  euid :: uid_t
  egid :: gid_t
  fsuid :: uid_t
  fsgid :: gid_t
  securebits :: u32
  cap_inheritable :: kernel_cap_t
  cap_permitted :: kernel_cap_t
  cap_effective :: kernel_cap_t
  cap_bset :: kernel_cap_t
  user :: uid_t
  group_info :: group_info

text \<open>
  \<open>superpriv\<close> is the flag \<^verbatim>\<open>PF_SUPERPRIV\<close>; \<open>mm_flags\<close> is \<^verbatim>\<open>mm->flags\<close> of the
  task's address space, when it has one.
\<close>

record task_struct =
  cred :: cred
  real_cred :: cred
  pid :: int
  superpriv :: bool
  pdeath_signal :: nat
  has_mm :: bool
  mm_flags :: u32
  rlim_nproc :: u32
  comm :: string
  timer_slack_ns :: u32
  default_timer_slack_ns :: u32

datatype proc_event = PROC_EVENT_UID | PROC_EVENT_GID

text \<open>
  \<^verbatim>\<open>struct fs_struct\<close>, named by \<open>fs_id\<close>: how many tasks share it and whether one of them is in
  \<^verbatim>\<open>execve\<close>.
\<close>

record fs_struct =
  fs_id :: nat
  fs_users :: nat
  fs_in_exec :: bool

record kernel =
  current :: task_struct
  current_fs :: fs_struct
  processes :: "uid_t \<Rightarrow> int"
  suid_dumpable :: nat
  next_cred :: nat
  id_events :: "proc_event list"
  bug :: bool

text \<open>
  The outcome of the allocations a system call makes: of a credential record, of a user record,
  and the ones of \<^verbatim>\<open>groups_alloc\<close>.
\<close>

record alloc_env =
  cred_alloc :: bool
  uid_alloc :: bool
  kmalloc_ok :: bool
  page_ok :: "nat \<Rightarrow> bool"
  junk :: gid_t

abbreviation current_cred :: "kernel \<Rightarrow> cred" where
  "current_cred s \<equiv> cred (current s)"

definition issecure :: "cred \<Rightarrow> nat \<Rightarrow> bool" where
  "issecure c x \<longleftrightarrow> issecure_mask x AND securebits c \<noteq> 0"

definition is_global_init :: "task_struct \<Rightarrow> bool" where
  "is_global_init t \<longleftrightarrow> pid t = 1"

section \<open>kernel/cred.c\<close>

definition prepare_creds :: "alloc_env \<Rightarrow> kernel \<Rightarrow> (cred \<times> kernel) option" where
  "prepare_creds env s =
     (if \<not> cred_alloc env then None
      else Some ((cred (current s))\<lparr>cred_id := next_cred s\<rparr>, s\<lparr>next_cred := next_cred s + 1\<rparr>))"

text \<open>Discarding the copy leaves the task alone.\<close>

definition abort_creds :: "cred \<Rightarrow> kernel \<Rightarrow> kernel" where
  "abort_creds new s = s"

text \<open>
  \<^verbatim>\<open>set_dumpable\<close> of \<^verbatim>\<open>fs/exec.c\<close> makes two atomic stores to \<^verbatim>\<open>mm->flags\<close>;
  they are listed in order, so that what another CPU reads between them can be stated.
\<close>

definition MMF_DUMPABLE :: nat where "MMF_DUMPABLE = 0"
definition MMF_DUMP_SECURELY :: nat where "MMF_DUMP_SECURELY = 1"

definition set_dumpable_stores :: "nat \<Rightarrow> (u32 \<Rightarrow> u32) list" where
  "set_dumpable_stores v =
     (if v = 0 then [unset_bit MMF_DUMPABLE, unset_bit MMF_DUMP_SECURELY]
      else if v = 1 then [set_bit MMF_DUMPABLE, unset_bit MMF_DUMP_SECURELY]
      else if v = 2 then [set_bit MMF_DUMP_SECURELY, set_bit MMF_DUMPABLE]
      else [])"

definition set_dumpable :: "task_struct \<Rightarrow> nat \<Rightarrow> task_struct" where
  "set_dumpable t v = t\<lparr>mm_flags := fold (\<lambda>store. store) (set_dumpable_stores v) (mm_flags t)\<rparr>"

definition get_dumpable :: "u32 \<Rightarrow> nat" where
  "get_dumpable flags = (let ret = unat (flags AND 3) in if ret \<ge> 2 then 2 else ret)"

text \<open>
  \<^verbatim>\<open>commit_creds\<close>: the dumpability change, the process counts of the two users and the
  notifications are separate steps of the one function.
\<close>

definition commit_dumpable :: "nat \<Rightarrow> cred \<Rightarrow> cred \<Rightarrow> task_struct \<Rightarrow> task_struct" where
  "commit_dumpable sysctl new old task =
     (if euid old \<noteq> euid new \<or> egid old \<noteq> egid new \<or> fsuid old \<noteq> fsuid new \<or>
         fsgid old \<noteq> fsgid new \<or> \<not> cap_issubset (cap_permitted new) (cap_permitted old)
      then (if has_mm task then set_dumpable task sysctl else task)\<lparr>pdeath_signal := 0\<rparr>
      else task)"

definition commit_processes :: "cred \<Rightarrow> cred \<Rightarrow> (uid_t \<Rightarrow> int) \<Rightarrow> (uid_t \<Rightarrow> int)" where
  "commit_processes new old p =
     (let p1 = (if user new \<noteq> user old then p(user new := p (user new) + 1) else p)
      in if user new \<noteq> user old then p1(user old := p1 (user old) - 1) else p1)"

definition commit_notify :: "cred \<Rightarrow> cred \<Rightarrow> proc_event list" where
  "commit_notify new old =
     (if uid new \<noteq> uid old \<or> euid new \<noteq> euid old \<or> suid new \<noteq> suid old \<or> fsuid new \<noteq> fsuid old
      then [PROC_EVENT_UID] else []) @
     (if gid new \<noteq> gid old \<or> egid new \<noteq> egid old \<or> sgid new \<noteq> sgid old \<or> fsgid new \<noteq> fsgid old
      then [PROC_EVENT_GID] else [])"

definition commit_creds :: "cred \<Rightarrow> kernel \<Rightarrow> kernel" where
  "commit_creds new s =
     (let task = current s
      in if cred_id (cred task) \<noteq> cred_id (real_cred task) then s\<lparr>bug := True\<rparr>
      else
        let old = real_cred task;
            task1 = commit_dumpable (suid_dumpable s) new old task
        in s\<lparr>processes := commit_processes new old (processes s),
             current := task1\<lparr>real_cred := new, cred := new\<rparr>,
             id_events := id_events s @ commit_notify new old\<rparr>)"

definition override_creds :: "cred \<Rightarrow> kernel \<Rightarrow> cred \<times> kernel" where
  "override_creds new s =
     (let old = cred (current s) in (old, s\<lparr>current := (current s)\<lparr>cred := new\<rparr>\<rparr>))"

definition revert_creds :: "cred \<Rightarrow> kernel \<Rightarrow> kernel" where
  "revert_creds old s = s\<lparr>current := (current s)\<lparr>cred := old\<rparr>\<rparr>"

section \<open>The hooks of a security module\<close>

text \<open>
  \<^verbatim>\<open>include/linux/security.h\<close>: the hooks that the identity and capability system calls
  go through.  A hook that edits the new credentials returns them.
\<close>

record security_operations =
  so_capable :: "cred \<Rightarrow> nat \<Rightarrow> unit result"
  so_task_setuid :: "uid_t \<Rightarrow> uid_t \<Rightarrow> uid_t \<Rightarrow> nat \<Rightarrow> unit result"
  so_task_fix_setuid :: "cred \<Rightarrow> cred \<Rightarrow> cred \<Rightarrow> nat \<Rightarrow> cred result"
  so_task_setgid :: "gid_t \<Rightarrow> gid_t \<Rightarrow> gid_t \<Rightarrow> nat \<Rightarrow> unit result"
  so_task_setgroups :: "group_info \<Rightarrow> unit result"
  so_capset :: "cred \<Rightarrow> cred \<Rightarrow> cred \<Rightarrow> kernel_cap_t \<Rightarrow> kernel_cap_t \<Rightarrow> kernel_cap_t
    \<Rightarrow> cred result"

definition LSM_SETID_ID :: nat where "LSM_SETID_ID = 1"
definition LSM_SETID_RE :: nat where "LSM_SETID_RE = 2"
definition LSM_SETID_RES :: nat where "LSM_SETID_RES = 4"
definition LSM_SETID_FS :: nat where "LSM_SETID_FS = 8"

lemmas lsm_flags = LSM_SETID_ID_def LSM_SETID_RE_def LSM_SETID_RES_def LSM_SETID_FS_def

text \<open>\<^verbatim>\<open>capable()\<close> of \<^verbatim>\<open>kernel/capability.c\<close>; using a capability marks the task.\<close>

definition capable :: "security_operations \<Rightarrow> kernel \<Rightarrow> nat \<Rightarrow> bool \<times> kernel" where
  "capable ops s n =
     (if \<not> cap_valid n then (False, s\<lparr>bug := True\<rparr>)
      else if so_capable ops (current_cred s) n = Inr ()
      then (True, s\<lparr>current := (current s)\<lparr>superpriv := True\<rparr>\<rparr>)
      else (False, s))"

definition has_capability :: "security_operations \<Rightarrow> task_struct \<Rightarrow> nat \<Rightarrow> bool" where
  "has_capability ops t n \<longleftrightarrow> so_capable ops (real_cred t) n = Inr ()"

section \<open>Facts about the protocol\<close>

lemma capable_frame [frame]:
  "capable ops s n = (b, s') \<Longrightarrow> cred (current s') = cred (current s)"
  "capable ops s n = (b, s') \<Longrightarrow> real_cred (current s') = real_cred (current s)"
  "capable ops s n = (b, s') \<Longrightarrow> pid (current s') = pid (current s)"
  "capable ops s n = (b, s') \<Longrightarrow> rlim_nproc (current s') = rlim_nproc (current s)"
  "capable ops s n = (b, s') \<Longrightarrow> processes s' = processes s"
  "capable ops s n = (b, s') \<Longrightarrow> next_cred s' = next_cred s"
  by (auto simp: capable_def split: if_splits)

lemma capable_bug: "cap_valid n \<Longrightarrow> capable ops s n = (b, s') \<Longrightarrow> bug s' = bug s"
  by (auto simp: capable_def split: if_splits)

lemma capable_iff:
  "cap_valid n \<Longrightarrow> fst (capable ops s n) \<longleftrightarrow> so_capable ops (current_cred s) n = Inr ()"
  by (auto simp: capable_def)

lemma set_dumpable_frame [frame]:
  "cred (set_dumpable t v) = cred t" "real_cred (set_dumpable t v) = real_cred t"
  "pid (set_dumpable t v) = pid t" "rlim_nproc (set_dumpable t v) = rlim_nproc t"
  by (auto simp: set_dumpable_def)

lemma commit_dumpable_frame [frame]:
  "pid (commit_dumpable v new old t) = pid t" "rlim_nproc (commit_dumpable v new old t) = rlim_nproc t"
  by (simp_all add: commit_dumpable_def frame)

lemma commit_creds_current:
  assumes "cred_id (cred (current s)) = cred_id (real_cred (current s))"
  shows "cred (current (commit_creds new s)) = new"
    "real_cred (current (commit_creds new s)) = new"
    "pid (current (commit_creds new s)) = pid (current s)"
    "rlim_nproc (current (commit_creds new s)) = rlim_nproc (current s)"
    "bug (commit_creds new s) = bug s"
    "next_cred (commit_creds new s) = next_cred s"
  using assms by (simp_all add: commit_creds_def Let_def frame)

text \<open>
  Committing moves the task from one user's process count to the other's: the new user's count
  goes up, the old one's down, the others and the total stay.
\<close>

lemma commit_creds_processes:
  assumes "cred_id (cred (current s)) = cred_id (real_cred (current s))"
  shows "processes (commit_creds new s) u =
    processes s u + (if u = user new then 1 else 0) - (if u = user (real_cred (current s)) then 1 else 0)"
  using assms by (simp add: commit_creds_def commit_processes_def Let_def)

text \<open>Reading the dumpability back.\<close>

lemma and_three: "(w :: 'a::len word) AND 3 = (if bit w 0 then 1 else 0) + (if bit w 1 then 2 else 0)"
proof -
  have "take_bit 2 w = (if bit w 0 then 1 else 0) + (if bit w 1 then 2 else 0)"
    by (simp add: numeral_2_eq_2 take_bit_Suc mod2_eq_if even_drop_bit_iff_not_bit bit_0 bit_Suc)
  then show ?thesis by (simp add: take_bit_eq_mask mask_eq_exp_minus_1)
qed

lemma get_dumpable_bits:
  "get_dumpable f = (if bit f 1 then 2 else if bit f 0 then 1 else 0)"
  by (simp add: get_dumpable_def and_three)

lemma get_set_dumpable:
  "v \<le> 2 \<Longrightarrow> get_dumpable (mm_flags (set_dumpable t v)) = v"
  by (auto simp: set_dumpable_def set_dumpable_stores_def get_dumpable_bits bit_set_bit_iff
      bit_unset_bit_iff MMF_DUMPABLE_def MMF_DUMP_SECURELY_def)

lemma override_revert:
  "override_creds new s = (old, s') \<Longrightarrow> revert_creds old s' = s"
  by (auto simp: override_creds_def revert_creds_def Let_def)

section \<open>Concrete states\<close>

text \<open>
  A task with one uid and gid and one set of capabilities, permitted and effective, and an
  environment in which every allocation succeeds: the inputs of the examples in this and the
  following theories.
\<close>

definition example_cred :: "u32 \<Rightarrow> kernel_cap_t \<Rightarrow> cred" where
  "example_cred u k = \<lparr>cred_id = 0, uid = u, gid = u, suid = u, sgid = u, euid = u, egid = u,
     fsuid = u, fsgid = u, securebits = 0, cap_inheritable = CAP_EMPTY_SET, cap_permitted = k,
     cap_effective = k, cap_bset = CAP_FULL_SET, user = u,
     group_info = \<lparr>ngroups = 0, blocks = [[]]\<rparr>\<rparr>"

definition example_kernel :: "u32 \<Rightarrow> kernel_cap_t \<Rightarrow> kernel" where
  "example_kernel u k = \<lparr>
     current = \<lparr>cred = example_cred u k, real_cred = example_cred u k, pid = 42, superpriv = False,
       pdeath_signal = 9, has_mm = True, mm_flags = 1, rlim_nproc = 100, comm = ''init'',
       timer_slack_ns = 50000, default_timer_slack_ns = 50000\<rparr>,
     current_fs = \<lparr>fs_id = 0, fs_users = 1, fs_in_exec = False\<rparr>,
     processes = (\<lambda>_. 1), suid_dumpable = 0, next_cred = 1, id_events = [], bug = False\<rparr>"

definition ample_env :: alloc_env where
  "ample_env = \<lparr>cred_alloc = True, uid_alloc = True, kmalloc_ok = True, page_ok = (\<lambda>_. True), junk = 0\<rparr>"

lemmas example_defs = example_cred_def example_kernel_def ample_env_def

section \<open>Properties\<close>

text \<open>
  While \<^verbatim>\<open>set_dumpable\<close> is between its two stores, \<^verbatim>\<open>get_dumpable\<close> on
  another CPU returns the old or the new value and never a third one; when it is done it returns
  the new value.
\<close>

theorem dumpable_no_intermediate:
  assumes "v \<le> 2" "k \<le> length (set_dumpable_stores v)"
  shows "get_dumpable (fold (\<lambda>store. store) (take k (set_dumpable_stores v)) f) \<in> {get_dumpable f, v} \<and>
    get_dumpable (fold (\<lambda>store. store) (set_dumpable_stores v) f) = v"
proof -
  have v: "v = 0 \<or> v = 1 \<or> v = 2" using assms(1) by linarith
  moreover have "k = 0 \<or> k = 1 \<or> k = 2"
    using assms(2) v by (auto simp: set_dumpable_stores_def)
  ultimately show ?thesis
    by (elim disjE)
      (auto simp: set_dumpable_stores_def get_dumpable_bits bit_set_bit_iff bit_unset_bit_iff
        MMF_DUMPABLE_def MMF_DUMP_SECURELY_def numeral_2_eq_2)
qed

theorem dumpable_no_intermediate_witness:
  "get_dumpable (fold (\<lambda>store. store) (take 1 (set_dumpable_stores 2)) 0) \<in> {get_dumpable 0, 2}"
  using dumpable_no_intermediate [of 2 1 0] by (simp add: set_dumpable_stores_def)

text \<open>
  Committing credentials that change an effective or file system id, or that hold a
  permitted capability the old ones did not, makes the task's core dumps follow the system-wide
  \<^verbatim>\<open>suid_dumpable\<close> setting and clears its parent-death signal.
\<close>

theorem commit_creds_undumpable:
  assumes "cred (current s) = real_cred (current s)" "has_mm (current s)" "suid_dumpable s \<le> 2"
    and "euid new \<noteq> euid (current_cred s) \<or> egid new \<noteq> egid (current_cred s) \<or>
      fsuid new \<noteq> fsuid (current_cred s) \<or> fsgid new \<noteq> fsgid (current_cred s) \<or>
      \<not> cap_set (cap_permitted new) \<subseteq> cap_set (cap_permitted (current_cred s))"
  shows "get_dumpable (mm_flags (current (commit_creds new s))) = suid_dumpable s \<and>
    pdeath_signal (current (commit_creds new s)) = 0"
  using assms get_set_dumpable [OF assms(3), of "current s"]
  by (auto simp: commit_creds_def commit_dumpable_def Let_def cap_abs)

theorem commit_creds_undumpable_witness:
  "get_dumpable (mm_flags (current (commit_creds (example_cred 7 CAP_EMPTY_SET)
     (example_kernel 5 CAP_EMPTY_SET)))) = 0"
  using commit_creds_undumpable [of "example_kernel 5 CAP_EMPTY_SET" "example_cred 7 CAP_EMPTY_SET"]
  by (simp add: example_defs)

end
