(* ===== verification/Commoncap.thy ===== *)
theory Commoncap
  imports Cred
begin

text \<open>
  The default security module: \<^verbatim>\<open>security/commoncap.c\<close>.  Every function of the file that
  decides on or changes credentials is here, for both values of the build option
  \<^verbatim>\<open>CONFIG_SECURITY_FILE_CAPABILITIES\<close> (a field of the configuration record).
  A file's security attribute is the list of its bytes; what the file system's
  \<^verbatim>\<open>getxattr\<close> and \<^verbatim>\<open>removexattr\<close> answer is part of the inode.  Auditing is
  compiled out in the board's configuration (\<^verbatim>\<open>CONFIG_AUDIT\<close> is off), so the audit hook
  of \<^verbatim>\<open>cap_bprm_set_creds\<close> always succeeds.
\<close>

record kconfig =
  CONFIG_SECURITY_FILE_CAPABILITIES :: bool
  file_caps_enabled :: bool

record sk_buff =
  eff_cap :: kernel_cap_t

record cpu_vfs_cap_data =
  magic_etc :: u32
  vc_permitted :: kernel_cap_t
  vc_inheritable :: kernel_cap_t

text \<open>
  The inode operations: \<^verbatim>\<open>None\<close> stands for a null function pointer.  \<open>getxattr\<close>
  answers with the value's bytes.
\<close>

record xattr_inode =
  i_getxattr :: "(string \<Rightarrow> u8 list result) option"
  i_removexattr :: "(string \<Rightarrow> unit result) option"

record exec_file =
  mnt_nosuid :: bool
  f_inode :: "xattr_inode option"

record linux_binprm =
  b_cred :: cred
  b_cap_effective :: bool
  b_unsafe :: u32
  b_file :: exec_file

definition XATTR_SECURITY_PREFIX :: string where
  "XATTR_SECURITY_PREFIX = ''security.''"

definition XATTR_NAME_CAPS :: string where
  "XATTR_NAME_CAPS = ''security.capability''"

definition VFS_CAP_REVISION_MASK :: u32 where "VFS_CAP_REVISION_MASK = 0xFF000000"
definition VFS_CAP_FLAGS_EFFECTIVE :: u32 where "VFS_CAP_FLAGS_EFFECTIVE = 0x000001"
definition VFS_CAP_REVISION_1 :: u32 where "VFS_CAP_REVISION_1 = 0x01000000"
definition VFS_CAP_REVISION_2 :: u32 where "VFS_CAP_REVISION_2 = 0x02000000"
definition XATTR_CAPS_SZ_1 :: nat where "XATTR_CAPS_SZ_1 = 4 * (1 + 2 * 1)"
definition XATTR_CAPS_SZ_2 :: nat where "XATTR_CAPS_SZ_2 = 4 * (1 + 2 * 2)"

definition LSM_UNSAFE_PTRACE_CAP :: u32 where "LSM_UNSAFE_PTRACE_CAP = 4"

lemmas vfs_cap_numbers =
  VFS_CAP_REVISION_MASK_def VFS_CAP_FLAGS_EFFECTIVE_def VFS_CAP_REVISION_1_def
  VFS_CAP_REVISION_2_def XATTR_CAPS_SZ_1_def XATTR_CAPS_SZ_2_def

section \<open>Queries\<close>

definition cap_netlink_send :: "kernel \<Rightarrow> sk_buff \<Rightarrow> sk_buff" where
  "cap_netlink_send s skb = skb\<lparr>eff_cap := cap_effective (current_cred s)\<rparr>"

definition cap_netlink_recv :: "sk_buff \<Rightarrow> nat \<Rightarrow> unit result" where
  "cap_netlink_recv skb n = (if \<not> cap_raised (eff_cap skb) n then Inl EPERM else Inr ())"

definition cap_capable :: "cred \<Rightarrow> nat \<Rightarrow> unit result" where
  "cap_capable c n = (if cap_raised (cap_effective c) n then Inr () else Inl EPERM)"

definition cap_settime :: "security_operations \<Rightarrow> kernel \<Rightarrow> unit result \<times> kernel" where
  "cap_settime ops s =
     (case capable ops s CAP_SYS_TIME of (ok, s') \<Rightarrow> (if \<not> ok then Inl EPERM else Inr (), s'))"

definition cap_ptrace_may_access ::
  "security_operations \<Rightarrow> kernel \<Rightarrow> task_struct \<Rightarrow> unit result \<times> kernel" where
  "cap_ptrace_may_access ops s child =
     (if \<not> cap_issubset (cap_permitted (real_cred child)) (cap_permitted (current_cred s))
      then (case capable ops s CAP_SYS_PTRACE of
              (ok, s') \<Rightarrow> (if \<not> ok then Inl EPERM else Inr (), s'))
      else (Inr (), s))"

definition cap_ptrace_traceme ::
  "security_operations \<Rightarrow> kernel \<Rightarrow> task_struct \<Rightarrow> unit result" where
  "cap_ptrace_traceme ops s parent =
     (if \<not> cap_issubset (cap_permitted (current_cred s)) (cap_permitted (real_cred parent)) \<and>
         \<not> has_capability ops parent CAP_SYS_PTRACE
      then Inl EPERM else Inr ())"

text \<open>The three output arguments, in the order effective, inheritable, permitted.\<close>

definition cap_capget :: "task_struct \<Rightarrow> kernel_cap_t \<times> kernel_cap_t \<times> kernel_cap_t" where
  "cap_capget target =
     (let c = real_cred target in (cap_effective c, cap_inheritable c, cap_permitted c))"

definition cap_inh_is_capped :: "kconfig \<Rightarrow> cred \<Rightarrow> bool" where
  "cap_inh_is_capped cfg cur =
     (if CONFIG_SECURITY_FILE_CAPABILITIES cfg \<and> cap_capable cur CAP_SETPCAP = Inr ()
      then False else True)"

definition cap_syslog :: "security_operations \<Rightarrow> kernel \<Rightarrow> int \<Rightarrow> unit result \<times> kernel" where
  "cap_syslog ops s type =
     (if type \<noteq> 3 \<and> type \<noteq> 10
      then (case capable ops s CAP_SYS_ADMIN of
              (ok, s') \<Rightarrow> (if \<not> ok then Inl EPERM else Inr (), s'))
      else (Inr (), s))"

definition cap_inode_setxattr ::
  "security_operations \<Rightarrow> kernel \<Rightarrow> string \<Rightarrow> unit result \<times> kernel" where
  "cap_inode_setxattr ops s name =
     (if name = XATTR_NAME_CAPS
      then (case capable ops s CAP_SETFCAP of
              (ok, s') \<Rightarrow> (if \<not> ok then Inl EPERM else Inr (), s'))
      else if take (length XATTR_SECURITY_PREFIX) name = XATTR_SECURITY_PREFIX
      then (case capable ops s CAP_SYS_ADMIN of
              (ok, s') \<Rightarrow> (if \<not> ok then Inl EPERM else Inr (), s'))
      else (Inr (), s))"

definition cap_inode_removexattr ::
  "security_operations \<Rightarrow> kernel \<Rightarrow> string \<Rightarrow> unit result \<times> kernel" where
  "cap_inode_removexattr ops s name =
     (if name = XATTR_NAME_CAPS
      then (case capable ops s CAP_SETFCAP of
              (ok, s') \<Rightarrow> (if \<not> ok then Inl EPERM else Inr (), s'))
      else if take (length XATTR_SECURITY_PREFIX) name = XATTR_SECURITY_PREFIX
      then (case capable ops s CAP_SYS_ADMIN of
              (ok, s') \<Rightarrow> (if \<not> ok then Inl EPERM else Inr (), s'))
      else (Inr (), s))"

definition cap_safe_nice ::
  "kconfig \<Rightarrow> security_operations \<Rightarrow> kernel \<Rightarrow> task_struct \<Rightarrow> unit result \<times> kernel" where
  "cap_safe_nice cfg ops s p =
     (let is_subset = cap_issubset (cap_permitted (real_cred p)) (cap_permitted (current_cred s))
      in if \<not> is_subset
         then (case capable ops s CAP_SYS_NICE of
                 (ok, s') \<Rightarrow> (if \<not> ok then Inl EPERM else Inr (), s'))
         else (Inr (), s))"

definition cap_task_setscheduler ::
  "kconfig \<Rightarrow> security_operations \<Rightarrow> kernel \<Rightarrow> task_struct \<Rightarrow> unit result \<times> kernel" where
  "cap_task_setscheduler cfg ops s p =
     (if CONFIG_SECURITY_FILE_CAPABILITIES cfg then cap_safe_nice cfg ops s p else (Inr (), s))"

definition cap_task_setioprio ::
  "kconfig \<Rightarrow> security_operations \<Rightarrow> kernel \<Rightarrow> task_struct \<Rightarrow> unit result \<times> kernel" where
  "cap_task_setioprio cfg ops s p =
     (if CONFIG_SECURITY_FILE_CAPABILITIES cfg then cap_safe_nice cfg ops s p else (Inr (), s))"

definition cap_task_setnice ::
  "kconfig \<Rightarrow> security_operations \<Rightarrow> kernel \<Rightarrow> task_struct \<Rightarrow> unit result \<times> kernel" where
  "cap_task_setnice cfg ops s p =
     (if CONFIG_SECURITY_FILE_CAPABILITIES cfg then cap_safe_nice cfg ops s p else (Inr (), s))"

section \<open>capset\<close>

definition cap_capset ::
  "kconfig \<Rightarrow> cred \<Rightarrow> cred \<Rightarrow> cred \<Rightarrow> kernel_cap_t \<Rightarrow> kernel_cap_t \<Rightarrow> kernel_cap_t \<Rightarrow> cred result"
where
  "cap_capset cfg cur new old effective inheritable permitted =
     (if cap_inh_is_capped cfg cur \<and>
         \<not> cap_issubset inheritable (cap_combine (cap_inheritable old) (cap_permitted old))
      then Inl EPERM
      else if \<not> cap_issubset inheritable (cap_combine (cap_inheritable old) (cap_bset old))
      then Inl EPERM
      else if \<not> cap_issubset permitted (cap_permitted old)
      then Inl EPERM
      else if \<not> cap_issubset effective permitted
      then Inl EPERM
      else Inr (new\<lparr>cap_effective := effective, cap_inheritable := inheritable,
                    cap_permitted := permitted\<rparr>))"

section \<open>File capabilities and execve\<close>

definition bprm_clear_caps :: "linux_binprm \<Rightarrow> linux_binprm" where
  "bprm_clear_caps bprm =
     bprm\<lparr>b_cred := (b_cred bprm)\<lparr>cap_permitted := CAP_EMPTY_SET\<rparr>, b_cap_effective := False\<rparr>"

text \<open>The result is 0, 1 or an error of the change; the code never denies it here.\<close>

definition cap_inode_need_killpriv :: "kconfig \<Rightarrow> xattr_inode \<Rightarrow> int" where
  "cap_inode_need_killpriv cfg inode =
     (if \<not> CONFIG_SECURITY_FILE_CAPABILITIES cfg then 0
      else case i_getxattr inode of
        None \<Rightarrow> 0
      | Some get \<Rightarrow>
          (case get XATTR_NAME_CAPS of
             Inl e \<Rightarrow> 0
           | Inr bytes \<Rightarrow> if length bytes = 0 then 0 else 1))"

definition cap_inode_killpriv :: "kconfig \<Rightarrow> xattr_inode \<Rightarrow> unit result" where
  "cap_inode_killpriv cfg inode =
     (if \<not> CONFIG_SECURITY_FILE_CAPABILITIES cfg then Inr ()
      else case i_removexattr inode of None \<Rightarrow> Inr () | Some remove \<Rightarrow> remove XATTR_NAME_CAPS)"

text \<open>One round of the loop of \<^verbatim>\<open>bprm_caps_from_vfs_caps\<close> on word \<open>i\<close>.\<close>

definition vfs_caps_round ::
  "cpu_vfs_cap_data \<Rightarrow> nat \<Rightarrow> cred \<times> unit result \<Rightarrow> cred \<times> unit result" where
  "vfs_caps_round caps i = (\<lambda>(new, ret).
     let permitted = cap_word (vc_permitted caps) i;
         inheritable = cap_word (vc_inheritable caps) i;
         w = (cap_word (cap_bset new) i AND permitted) OR
             (cap_word (cap_inheritable new) i AND inheritable);
         new' = new\<lparr>cap_permitted := set_cap_word (cap_permitted new) i w\<rparr>
     in (new', if permitted AND NOT (cap_word (cap_permitted new') i) \<noteq> 0 then Inl EPERM else ret))"

definition bprm_caps_from_vfs_caps ::
  "cpu_vfs_cap_data \<Rightarrow> linux_binprm \<Rightarrow> bool \<Rightarrow> unit result \<times> linux_binprm \<times> bool" where
  "bprm_caps_from_vfs_caps caps bprm effective =
     (let effective' =
            (if magic_etc caps AND VFS_CAP_FLAGS_EFFECTIVE \<noteq> 0 then True else effective);
          (new, ret) = fold (vfs_caps_round caps) [0, 1] (b_cred bprm, Inr ())
      in (if effective' then ret else Inr (), bprm\<lparr>b_cred := new\<rparr>, effective'))"

definition le32_at :: "u8 list \<Rightarrow> nat \<Rightarrow> u32" where
  "le32_at bs off = ucast (bs ! off) OR push_bit 8 (ucast (bs ! (off + 1)))
     OR push_bit 16 (ucast (bs ! (off + 2))) OR push_bit 24 (ucast (bs ! (off + 3)))"

text \<open>
  The attribute is a little-endian word \<^verbatim>\<open>magic_etc\<close> followed by one pair (permitted,
  inheritable) of words in revision 1 and two pairs in revision 2.  The buffer has
  \<^verbatim>\<open>XATTR_CAPS_SZ\<close> bytes: \<^verbatim>\<open>getxattr\<close> answers \<^verbatim>\<open>ERANGE\<close> for a
  longer value.
\<close>

definition get_vfs_caps_from_disk :: "kconfig \<Rightarrow> xattr_inode option \<Rightarrow> cpu_vfs_cap_data result"
where
  "get_vfs_caps_from_disk cfg inode =
     (if \<not> CONFIG_SECURITY_FILE_CAPABILITIES cfg then Inl ENODATA
      else case inode of None \<Rightarrow> Inl ENODATA | Some ino \<Rightarrow>
      (case i_getxattr ino of None \<Rightarrow> Inl ENODATA | Some get \<Rightarrow>
      (case get XATTR_NAME_CAPS of
         Inl e \<Rightarrow> if e = ENODATA \<or> e = EOPNOTSUPP then Inl ENODATA else Inl e
       | Inr bytes \<Rightarrow>
           let size = length bytes
           in if size > XATTR_CAPS_SZ_2 then Inl ERANGE
           else if size < 4 then Inl EINVAL
           else
             let magic = le32_at bytes 0;
                 rev = magic AND VFS_CAP_REVISION_MASK
             in if rev = VFS_CAP_REVISION_1 then
                  (if size \<noteq> XATTR_CAPS_SZ_1 then Inl EINVAL
                   else Inr \<lparr>magic_etc = magic,
                             vc_permitted = \<lparr>cap0 = le32_at bytes 4, cap1 = 0\<rparr>,
                             vc_inheritable = \<lparr>cap0 = le32_at bytes 8, cap1 = 0\<rparr>\<rparr>)
                else if rev = VFS_CAP_REVISION_2 then
                  (if size \<noteq> XATTR_CAPS_SZ_2 then Inl EINVAL
                   else Inr \<lparr>magic_etc = magic,
                             vc_permitted = \<lparr>cap0 = le32_at bytes 4, cap1 = le32_at bytes 12\<rparr>,
                             vc_inheritable = \<lparr>cap0 = le32_at bytes 8, cap1 = le32_at bytes 16\<rparr>\<rparr>)
                else Inl EINVAL)))"

definition get_file_caps ::
  "kconfig \<Rightarrow> linux_binprm \<Rightarrow> bool \<Rightarrow> unit result \<times> linux_binprm \<times> bool" where
  "get_file_caps cfg bprm effective =
     (let bprm1 = bprm_clear_caps bprm
      in if \<not> CONFIG_SECURITY_FILE_CAPABILITIES cfg then (Inr (), bprm1, effective)
      else if \<not> file_caps_enabled cfg then (Inr (), bprm1, effective)
      else if mnt_nosuid (b_file bprm) then (Inr (), bprm1, effective)
      else case get_vfs_caps_from_disk cfg (f_inode (b_file bprm)) of
        Inl e \<Rightarrow>
          if e = ENODATA then (Inr (), bprm1, effective)
          else (Inl e, bprm_clear_caps bprm1, effective)
      | Inr vcaps \<Rightarrow>
          (case bprm_caps_from_vfs_caps vcaps bprm1 effective of
             (Inl e, bprm2, effective') \<Rightarrow> (Inl e, bprm_clear_caps bprm2, effective')
           | (Inr u, bprm2, effective') \<Rightarrow> (Inr u, bprm2, effective')))"

definition cap_limit_ptraced_target ::
  "kconfig \<Rightarrow> security_operations \<Rightarrow> kernel \<Rightarrow> bool \<times> kernel" where
  "cap_limit_ptraced_target cfg ops s =
     (if \<not> CONFIG_SECURITY_FILE_CAPABILITIES cfg
      then (case capable ops s CAP_SETPCAP of (ok, s') \<Rightarrow> (\<not> ok, s'))
      else (True, s))"

text \<open>The compatibility rule for uid 0.\<close>

definition bprm_root_override :: "cred \<Rightarrow> cred \<Rightarrow> bool \<Rightarrow> cred \<times> bool" where
  "bprm_root_override old new effective =
     (if \<not> issecure old SECURE_NOROOT
      then (if euid new = 0 \<or> uid new = 0
            then new\<lparr>cap_permitted := cap_combine (cap_bset old) (cap_inheritable old)\<rparr>
            else new,
            if euid new = 0 then True else effective)
      else (new, effective))"

text \<open>The downgrade of a traced or shared task that would gain privilege.\<close>

definition bprm_downgrade ::
  "kconfig \<Rightarrow> security_operations \<Rightarrow> kernel \<Rightarrow> u32 \<Rightarrow> cred \<Rightarrow> cred \<Rightarrow> cred \<times> kernel" where
  "bprm_downgrade cfg ops s unsafe old new =
     (if (euid new \<noteq> uid old \<or> egid new \<noteq> gid old \<or>
          \<not> cap_issubset (cap_permitted new) (cap_permitted old)) \<and>
         unsafe AND NOT LSM_UNSAFE_PTRACE_CAP \<noteq> 0
      then
        (case capable ops s CAP_SETUID of (ok, s1) \<Rightarrow>
         let new1 = (if \<not> ok then new\<lparr>euid := uid new, egid := gid new\<rparr> else new)
         in case cap_limit_ptraced_target cfg ops s1 of (limit, s2) \<Rightarrow>
              (if limit
               then new1\<lparr>cap_permitted := cap_intersect (cap_permitted new1) (cap_permitted old)\<rparr>
               else new1, s2))
      else (new, s))"

definition cap_bprm_set_creds ::
  "kconfig \<Rightarrow> security_operations \<Rightarrow> kernel \<Rightarrow> linux_binprm \<Rightarrow> unit result \<times> linux_binprm \<times> kernel"
where
  "cap_bprm_set_creds cfg ops s bprm =
     (let old = current_cred s
      in case get_file_caps cfg bprm False of
        (Inl e, bprm1, effective) \<Rightarrow> (Inl e, bprm1, s)
      | (Inr _, bprm1, effective) \<Rightarrow>
          (case bprm_root_override old (b_cred bprm1) effective of (new1, effective1) \<Rightarrow>
          (case bprm_downgrade cfg ops s (b_unsafe bprm1) old new1 of (new2, s2) \<Rightarrow>
           let new3 = new2\<lparr>suid := euid new2, fsuid := euid new2,
                           sgid := egid new2, fsgid := egid new2\<rparr>;
               new4 = (if \<not> is_global_init (current s2)
                       then (if effective1 then new3\<lparr>cap_effective := cap_permitted new3\<rparr>
                             else new3\<lparr>cap_effective := CAP_EMPTY_SET\<rparr>)
                       else new3);
               new5 = new4\<lparr>securebits :=
                 securebits new4 AND NOT (issecure_mask SECURE_KEEP_CAPS)\<rparr>
           in (Inr (), bprm1\<lparr>b_cred := new5, b_cap_effective := effective1\<rparr>, s2))))"

definition cap_bprm_secureexec :: "kernel \<Rightarrow> linux_binprm \<Rightarrow> bool" where
  "cap_bprm_secureexec s bprm =
     (let c = current_cred s
      in if uid c \<noteq> 0 \<and> b_cap_effective bprm then True
         else if uid c \<noteq> 0 \<and> \<not> cap_isclear (cap_permitted c) then True
         else euid c \<noteq> uid c \<or> egid c \<noteq> gid c)"

section \<open>Fixing the capabilities after a change of user id\<close>

definition cap_emulate_setxuid :: "cred \<Rightarrow> cred \<Rightarrow> cred \<Rightarrow> cred" where
  "cap_emulate_setxuid cur new old =
     (let new1 = (if (uid old = 0 \<or> euid old = 0 \<or> suid old = 0) \<and>
                     (uid new \<noteq> 0 \<and> euid new \<noteq> 0 \<and> suid new \<noteq> 0) \<and>
                     \<not> issecure cur SECURE_KEEP_CAPS
                  then new\<lparr>cap_permitted := CAP_EMPTY_SET, cap_effective := CAP_EMPTY_SET\<rparr>
                  else new);
          new2 = (if euid old = 0 \<and> euid new1 \<noteq> 0
                  then new1\<lparr>cap_effective := CAP_EMPTY_SET\<rparr> else new1)
      in if euid old \<noteq> 0 \<and> euid new2 = 0
         then new2\<lparr>cap_effective := cap_permitted new2\<rparr> else new2)"

definition cap_task_fix_setuid :: "cred \<Rightarrow> cred \<Rightarrow> cred \<Rightarrow> nat \<Rightarrow> cred result" where
  "cap_task_fix_setuid cur new old flags =
     (if flags = LSM_SETID_RE \<or> flags = LSM_SETID_ID \<or> flags = LSM_SETID_RES then
        Inr (if \<not> issecure cur SECURE_NO_SETUID_FIXUP then cap_emulate_setxuid cur new old else new)
      else if flags = LSM_SETID_FS then
        Inr (if \<not> issecure cur SECURE_NO_SETUID_FIXUP then
               let new1 = (if fsuid old = 0 \<and> fsuid new \<noteq> 0
                           then new\<lparr>cap_effective := cap_drop_fs_set (cap_effective new)\<rparr>
                           else new)
               in if fsuid old \<noteq> 0 \<and> fsuid new1 = 0
                  then new1\<lparr>cap_effective :=
                         cap_raise_fs_set (cap_effective new1) (cap_permitted new1)\<rparr>
                  else new1
             else new)
      else Inl EINVAL)"

section \<open>prctl\<close>

definition PR_GET_KEEPCAPS :: int where "PR_GET_KEEPCAPS = 7"
definition PR_SET_KEEPCAPS :: int where "PR_SET_KEEPCAPS = 8"
definition PR_CAPBSET_READ :: int where "PR_CAPBSET_READ = 23"
definition PR_CAPBSET_DROP :: int where "PR_CAPBSET_DROP = 24"
definition PR_GET_SECUREBITS :: int where "PR_GET_SECUREBITS = 27"
definition PR_SET_SECUREBITS :: int where "PR_SET_SECUREBITS = 28"

lemmas prctl_numbers =
  PR_GET_KEEPCAPS_def PR_SET_KEEPCAPS_def PR_CAPBSET_READ_def PR_CAPBSET_DROP_def
  PR_GET_SECUREBITS_def PR_SET_SECUREBITS_def

definition cap_prctl_drop ::
  "security_operations \<Rightarrow> kernel \<Rightarrow> cred \<Rightarrow> u32 \<Rightarrow> cred result \<times> kernel" where
  "cap_prctl_drop ops s new n =
     (case capable ops s CAP_SETPCAP of (ok, s') \<Rightarrow>
       if \<not> ok then (Inl EPERM, s')
       else if \<not> cap_valid (unat n) then (Inl EINVAL, s')
       else (Inr (new\<lparr>cap_bset := cap_lower (cap_bset new) (unat n)\<rparr>), s'))"

text \<open>
  The switch of \<^verbatim>\<open>cap_task_prctl\<close>: \<open>Changed\<close> is the label \<^verbatim>\<open>changed\<close>,
  \<open>NoChange\<close> and \<open>Failed\<close> the two labels that abort the copy.
\<close>

datatype prctl_exit = Changed cred | NoChange int | Failed errno

definition securebits_refused :: "cred \<Rightarrow> cred \<Rightarrow> u32 \<Rightarrow> bool" where
  "securebits_refused cur new arg2 \<longleftrightarrow>
     drop_bit 1 (securebits new AND SECURE_ALL_LOCKS) AND (securebits new XOR arg2) \<noteq> 0 \<or>
     securebits new AND SECURE_ALL_LOCKS AND NOT arg2 \<noteq> 0 \<or>
     arg2 AND NOT (SECURE_ALL_LOCKS OR SECURE_ALL_BITS) \<noteq> 0 \<or>
     cap_capable cur CAP_SETPCAP \<noteq> Inr ()"

definition cap_prctl_switch ::
  "kconfig \<Rightarrow> security_operations \<Rightarrow> kernel \<Rightarrow> cred \<Rightarrow> int \<Rightarrow> u32 \<Rightarrow> prctl_exit \<times> kernel" where
  "cap_prctl_switch cfg ops s new option arg2 =
     (if option = PR_CAPBSET_READ then
        (if \<not> cap_valid (unat arg2) then Failed EINVAL
         else NoChange (if cap_raised (cap_bset new) (unat arg2) then 1 else 0), s)
      else if CONFIG_SECURITY_FILE_CAPABILITIES cfg \<and> option = PR_CAPBSET_DROP then
        (case cap_prctl_drop ops s new arg2 of
           (Inl e, s') \<Rightarrow> (Failed e, s')
         | (Inr new', s') \<Rightarrow> (Changed new', s'))
      else if CONFIG_SECURITY_FILE_CAPABILITIES cfg \<and> option = PR_SET_SECUREBITS then
        (if securebits_refused (current_cred s) new arg2 then Failed EPERM
         else Changed (new\<lparr>securebits := arg2\<rparr>), s)
      else if CONFIG_SECURITY_FILE_CAPABILITIES cfg \<and> option = PR_GET_SECUREBITS then
        (NoChange (sint (securebits new)), s)
      else if option = PR_GET_KEEPCAPS then
        (NoChange (if issecure (current_cred s) SECURE_KEEP_CAPS then 1 else 0), s)
      else if option = PR_SET_KEEPCAPS then
        (if arg2 > 1 then Failed EINVAL
         else if issecure (current_cred s) SECURE_KEEP_CAPS_LOCKED then Failed EPERM
         else if arg2 \<noteq> 0
         then Changed (new\<lparr>securebits := securebits new OR issecure_mask SECURE_KEEP_CAPS\<rparr>)
         else Changed (new\<lparr>securebits := securebits new AND NOT (issecure_mask SECURE_KEEP_CAPS)\<rparr>),
         s)
      else (Failed ENOSYS, s))"

definition cap_task_prctl ::
  "kconfig \<Rightarrow> security_operations \<Rightarrow> alloc_env \<Rightarrow> kernel \<Rightarrow> int \<Rightarrow> u32 \<Rightarrow> int result \<times> kernel" where
  "cap_task_prctl cfg ops env s option arg2 =
     (case prepare_creds env s of
        None \<Rightarrow> (Inl ENOMEM, s)
      | Some (new, s1) \<Rightarrow>
          (case cap_prctl_switch cfg ops s1 new option arg2 of
             (Changed new', s2) \<Rightarrow> (Inr 0, commit_creds new' s2)
           | (NoChange v, s2) \<Rightarrow> (Inr v, abort_creds new s2)
           | (Failed e, s2) \<Rightarrow> (Inl e, abort_creds new s2)))"

text \<open>The hooks of the default module, as \<^verbatim>\<open>include/linux/security.h\<close> wires them.\<close>

definition capability_ops :: "kconfig \<Rightarrow> security_operations" where
  "capability_ops cfg =
     \<lparr>so_capable = cap_capable,
      so_task_setuid = (\<lambda>_ _ _ _. Inr ()),
      so_task_fix_setuid = cap_task_fix_setuid,
      so_task_setgid = (\<lambda>_ _ _ _. Inr ()),
      so_task_setgroups = (\<lambda>_. Inr ()),
      so_capset = cap_capset cfg\<rparr>"

end
