(* ===== verification/Setid.thy ===== *)
theory Setid
  imports Commoncap
begin

text \<open>
  The system calls that change a task's user and group ids: \<^verbatim>\<open>set*uid\<close>,
  \<^verbatim>\<open>set*gid\<close> and \<^verbatim>\<open>setgroups\<close> of \<^verbatim>\<open>kernel/sys.c\<close>.  Each one is a function
  of the security module's hooks, the outcome of its allocations and the state, and returns its
  result and the new state.  \<^verbatim>\<open>(uid_t) -1\<close>, which leaves an id alone, is \<open>- 1\<close>.
\<close>

section \<open>User and group ids\<close>

text \<open>\<^verbatim>\<open>b || capable(n)\<close>: the capability is only asked for when \<open>b\<close> is false.\<close>

definition or_capable :: "security_operations \<Rightarrow> kernel \<Rightarrow> bool \<Rightarrow> nat \<Rightarrow> bool \<times> kernel" where
  "or_capable ops s b n = (if b then (True, s) else capable ops s n)"

text \<open>
  One id of \<^verbatim>\<open>setregid\<close> or \<^verbatim>\<open>setreuid\<close>: when \<open>x\<close> is not \<open>- 1\<close>, it is
  assigned if \<open>allowed\<close> or the capability is there; \<open>None\<close> is \<^verbatim>\<open>goto error\<close>.
\<close>

definition assign_id ::
  "security_operations \<Rightarrow> kernel \<Rightarrow> u32 \<Rightarrow> bool \<Rightarrow> nat \<Rightarrow> (cred \<Rightarrow> cred) \<Rightarrow> cred \<Rightarrow> cred option \<times> kernel"
where
  "assign_id ops s x allowed n upd new =
     (if x \<noteq> - 1 then
        (case or_capable ops s allowed n of (ok, s') \<Rightarrow> (if ok then Some (upd new) else None, s'))
      else (Some new, s))"

definition sys_setregid ::
  "security_operations \<Rightarrow> alloc_env \<Rightarrow> kernel \<Rightarrow> gid_t \<Rightarrow> gid_t \<Rightarrow> unit result \<times> kernel" where
  "sys_setregid ops env s r e =
     (case prepare_creds env s of
        None \<Rightarrow> (Inl ENOMEM, s)
      | Some (new, s1) \<Rightarrow>
        let old = current_cred s1
        in case so_task_setgid ops r e (- 1) LSM_SETID_RE of
          Inl err \<Rightarrow> (Inl err, abort_creds new s1)
        | Inr _ \<Rightarrow>
          (case assign_id ops s1 r (gid old = r \<or> egid old = r) CAP_SETGID
                  (\<lambda>c. c\<lparr>gid := r\<rparr>) new of
             (None, s2) \<Rightarrow> (Inl EPERM, abort_creds new s2)
           | (Some new1, s2) \<Rightarrow>
          (case assign_id ops s2 e (gid old = e \<or> egid old = e \<or> sgid old = e) CAP_SETGID
                  (\<lambda>c. c\<lparr>egid := e\<rparr>) new1 of
             (None, s3) \<Rightarrow> (Inl EPERM, abort_creds new1 s3)
           | (Some new2, s3) \<Rightarrow>
             let new3 = (if r \<noteq> - 1 \<or> (e \<noteq> - 1 \<and> e \<noteq> gid old)
                         then new2\<lparr>sgid := egid new2\<rparr> else new2);
                 new4 = new3\<lparr>fsgid := egid new3\<rparr>
             in (Inr (), commit_creds new4 s3))))"

definition sys_setgid ::
  "security_operations \<Rightarrow> alloc_env \<Rightarrow> kernel \<Rightarrow> gid_t \<Rightarrow> unit result \<times> kernel" where
  "sys_setgid ops env s g =
     (case prepare_creds env s of
        None \<Rightarrow> (Inl ENOMEM, s)
      | Some (new, s1) \<Rightarrow>
        let old = current_cred s1
        in case so_task_setgid ops g (- 1) (- 1) LSM_SETID_ID of
          Inl err \<Rightarrow> (Inl err, abort_creds new s1)
        | Inr _ \<Rightarrow>
          (case capable ops s1 CAP_SETGID of (ok, s2) \<Rightarrow>
            if ok then (Inr (), commit_creds (new\<lparr>gid := g, egid := g, sgid := g, fsgid := g\<rparr>) s2)
            else if g = gid old \<or> g = sgid old
            then (Inr (), commit_creds (new\<lparr>egid := g, fsgid := g\<rparr>) s2)
            else (Inl EPERM, abort_creds new s2)))"

text \<open>
  \<^verbatim>\<open>set_user\<close>: the user record of the new uid; \<^verbatim>\<open>task_can_switch_user\<close> is always
  true without \<^verbatim>\<open>CONFIG_USER_SCHED\<close>, and \<^verbatim>\<open>INIT_USER\<close> is the record of uid 0.
\<close>

definition set_user :: "alloc_env \<Rightarrow> kernel \<Rightarrow> cred \<Rightarrow> cred result" where
  "set_user env s new =
     (if \<not> uid_alloc env then Inl EAGAIN
      else if word_of_int (processes s (uid new)) \<ge> rlim_nproc (current s) \<and> uid new \<noteq> 0
      then Inl EAGAIN
      else Inr (new\<lparr>user := uid new\<rparr>))"

definition sys_setreuid ::
  "security_operations \<Rightarrow> alloc_env \<Rightarrow> kernel \<Rightarrow> uid_t \<Rightarrow> uid_t \<Rightarrow> unit result \<times> kernel" where
  "sys_setreuid ops env s r e =
     (case prepare_creds env s of
        None \<Rightarrow> (Inl ENOMEM, s)
      | Some (new, s1) \<Rightarrow>
        let old = current_cred s1
        in case so_task_setuid ops r e (- 1) LSM_SETID_RE of
          Inl err \<Rightarrow> (Inl err, abort_creds new s1)
        | Inr _ \<Rightarrow>
          (case assign_id ops s1 r (uid old = r \<or> euid old = r) CAP_SETUID
                  (\<lambda>c. c\<lparr>uid := r\<rparr>) new of
             (None, s2) \<Rightarrow> (Inl EPERM, abort_creds new s2)
           | (Some new1, s2) \<Rightarrow>
          (case assign_id ops s2 e (uid old = e \<or> euid old = e \<or> suid old = e) CAP_SETUID
                  (\<lambda>c. c\<lparr>euid := e\<rparr>) new1 of
             (None, s3) \<Rightarrow> (Inl EPERM, abort_creds new1 s3)
           | (Some new2, s3) \<Rightarrow>
          (case (if uid new2 \<noteq> uid old then set_user env s3 new2 else Inr new2) of
             Inl err \<Rightarrow> (Inl err, abort_creds new2 s3)
           | Inr new3 \<Rightarrow>
             let new4 = (if r \<noteq> - 1 \<or> (e \<noteq> - 1 \<and> e \<noteq> uid old)
                         then new3\<lparr>suid := euid new3\<rparr> else new3);
                 new5 = new4\<lparr>fsuid := euid new4\<rparr>
             in case so_task_fix_setuid ops (current_cred s3) new5 old LSM_SETID_RE of
                  Inl err \<Rightarrow> (Inl err, abort_creds new5 s3)
                | Inr new6 \<Rightarrow> (Inr (), commit_creds new6 s3)))))"

definition sys_setuid ::
  "security_operations \<Rightarrow> alloc_env \<Rightarrow> kernel \<Rightarrow> uid_t \<Rightarrow> unit result \<times> kernel" where
  "sys_setuid ops env s u =
     (case prepare_creds env s of
        None \<Rightarrow> (Inl ENOMEM, s)
      | Some (new, s1) \<Rightarrow>
        let old = current_cred s1
        in case so_task_setuid ops u (- 1) (- 1) LSM_SETID_ID of
          Inl err \<Rightarrow> (Inl err, abort_creds new s1)
        | Inr _ \<Rightarrow>
          (case capable ops s1 CAP_SETUID of (ok, s2) \<Rightarrow>
          (case (if ok then
                   let new1 = new\<lparr>suid := u, uid := u\<rparr>
                   in if u \<noteq> uid old then set_user env s2 new1 else Inr new1
                 else if u \<noteq> uid old \<and> u \<noteq> suid new then Inl EPERM
                 else Inr new) of
             Inl err \<Rightarrow> (Inl err, abort_creds new s2)
           | Inr new2 \<Rightarrow>
             let new3 = new2\<lparr>fsuid := u, euid := u\<rparr>
             in case so_task_fix_setuid ops (current_cred s2) new3 old LSM_SETID_ID of
                  Inl err \<Rightarrow> (Inl err, abort_creds new3 s2)
                | Inr new4 \<Rightarrow> (Inr (), commit_creds new4 s2))))"

text \<open>An id that an unprivileged \<^verbatim>\<open>setresuid\<close> (\<^verbatim>\<open>setresgid\<close>) may name.\<close>

definition res_allowed :: "u32 \<Rightarrow> u32 \<Rightarrow> u32 \<Rightarrow> u32 \<Rightarrow> bool" where
  "res_allowed x a b c \<longleftrightarrow> \<not> (x \<noteq> - 1 \<and> x \<noteq> a \<and> x \<noteq> b \<and> x \<noteq> c)"

definition sys_setresuid ::
  "security_operations \<Rightarrow> alloc_env \<Rightarrow> kernel \<Rightarrow> uid_t \<Rightarrow> uid_t \<Rightarrow> uid_t \<Rightarrow> unit result \<times> kernel" where
  "sys_setresuid ops env s r e sv =
     (case prepare_creds env s of
        None \<Rightarrow> (Inl ENOMEM, s)
      | Some (new, s1) \<Rightarrow>
        (case so_task_setuid ops r e sv LSM_SETID_RES of
          Inl err \<Rightarrow> (Inl err, abort_creds new s1)
        | Inr _ \<Rightarrow>
          let old = current_cred s1
          in case capable ops s1 CAP_SETUID of (ok, s2) \<Rightarrow>
            if \<not> ok \<and> \<not> res_allowed r (uid old) (euid old) (suid old) then (Inl EPERM, abort_creds new s2)
            else if \<not> ok \<and> \<not> res_allowed e (uid old) (euid old) (suid old) then (Inl EPERM, abort_creds new s2)
            else if \<not> ok \<and> \<not> res_allowed sv (uid old) (euid old) (suid old) then (Inl EPERM, abort_creds new s2)
            else
              (case (if r \<noteq> - 1 then
                       let new1 = new\<lparr>uid := r\<rparr>
                       in if r \<noteq> uid old then set_user env s2 new1 else Inr new1
                     else Inr new) of
                 Inl err \<Rightarrow> (Inl err, abort_creds new s2)
               | Inr new1 \<Rightarrow>
                 let new2 = (if e \<noteq> - 1 then new1\<lparr>euid := e\<rparr> else new1);
                     new3 = (if sv \<noteq> - 1 then new2\<lparr>suid := sv\<rparr> else new2);
                     new4 = new3\<lparr>fsuid := euid new3\<rparr>
                 in case so_task_fix_setuid ops (current_cred s2) new4 old LSM_SETID_RES of
                      Inl err \<Rightarrow> (Inl err, abort_creds new4 s2)
                    | Inr new5 \<Rightarrow> (Inr (), commit_creds new5 s2))))"

definition sys_getresuid :: "kernel \<Rightarrow> uid_t \<times> uid_t \<times> uid_t" where
  "sys_getresuid s = (let c = current_cred s in (uid c, euid c, suid c))"

definition sys_setresgid ::
  "security_operations \<Rightarrow> alloc_env \<Rightarrow> kernel \<Rightarrow> gid_t \<Rightarrow> gid_t \<Rightarrow> gid_t \<Rightarrow> unit result \<times> kernel" where
  "sys_setresgid ops env s r e sv =
     (case prepare_creds env s of
        None \<Rightarrow> (Inl ENOMEM, s)
      | Some (new, s1) \<Rightarrow>
        let old = current_cred s1
        in case so_task_setgid ops r e sv LSM_SETID_RES of
          Inl err \<Rightarrow> (Inl err, abort_creds new s1)
        | Inr _ \<Rightarrow>
          (case capable ops s1 CAP_SETGID of (ok, s2) \<Rightarrow>
            if \<not> ok \<and> \<not> res_allowed r (gid old) (egid old) (sgid old) then (Inl EPERM, abort_creds new s2)
            else if \<not> ok \<and> \<not> res_allowed e (gid old) (egid old) (sgid old) then (Inl EPERM, abort_creds new s2)
            else if \<not> ok \<and> \<not> res_allowed sv (gid old) (egid old) (sgid old) then (Inl EPERM, abort_creds new s2)
            else
              let new1 = (if r \<noteq> - 1 then new\<lparr>gid := r\<rparr> else new);
                  new2 = (if e \<noteq> - 1 then new1\<lparr>egid := e\<rparr> else new1);
                  new3 = (if sv \<noteq> - 1 then new2\<lparr>sgid := sv\<rparr> else new2);
                  new4 = new3\<lparr>fsgid := egid new3\<rparr>
              in (Inr (), commit_creds new4 s2)))"

definition sys_getresgid :: "kernel \<Rightarrow> gid_t \<times> gid_t \<times> gid_t" where
  "sys_getresgid s = (let c = current_cred s in (gid c, egid c, sgid c))"

text \<open>\<^verbatim>\<open>setfsuid\<close> and \<^verbatim>\<open>setfsgid\<close> return the old id whether they changed it or not.\<close>

definition sys_setfsuid ::
  "security_operations \<Rightarrow> alloc_env \<Rightarrow> kernel \<Rightarrow> uid_t \<Rightarrow> uid_t \<times> kernel" where
  "sys_setfsuid ops env s u =
     (case prepare_creds env s of
        None \<Rightarrow> (fsuid (current_cred s), s)
      | Some (new, s1) \<Rightarrow>
        let old = current_cred s1; old_fsuid = fsuid old
        in case so_task_setuid ops u (- 1) (- 1) LSM_SETID_FS of
          Inl err \<Rightarrow> (old_fsuid, abort_creds new s1)
        | Inr _ \<Rightarrow>
          (case or_capable ops s1 (u = uid old \<or> u = euid old \<or> u = suid old \<or> u = fsuid old)
                  CAP_SETUID of (ok, s2) \<Rightarrow>
            if ok \<and> u \<noteq> old_fsuid then
              (case so_task_fix_setuid ops (current_cred s2) (new\<lparr>fsuid := u\<rparr>) old LSM_SETID_FS of
                 Inl err \<Rightarrow> (old_fsuid, abort_creds new s2)
               | Inr new1 \<Rightarrow> (old_fsuid, commit_creds new1 s2))
            else (old_fsuid, abort_creds new s2)))"

definition sys_setfsgid ::
  "security_operations \<Rightarrow> alloc_env \<Rightarrow> kernel \<Rightarrow> gid_t \<Rightarrow> gid_t \<times> kernel" where
  "sys_setfsgid ops env s g =
     (case prepare_creds env s of
        None \<Rightarrow> (fsgid (current_cred s), s)
      | Some (new, s1) \<Rightarrow>
        let old = current_cred s1; old_fsgid = fsgid old
        in case so_task_setgid ops g (- 1) (- 1) LSM_SETID_FS of
          Inl err \<Rightarrow> (old_fsgid, abort_creds new s1)
        | Inr _ \<Rightarrow>
          (case or_capable ops s1 (g = gid old \<or> g = egid old \<or> g = sgid old \<or> g = fsgid old)
                  CAP_SETGID of (ok, s2) \<Rightarrow>
            if ok \<and> g \<noteq> old_fsgid
            then (old_fsgid, commit_creds (new\<lparr>fsgid := g\<rparr>) s2)
            else (old_fsgid, abort_creds new s2)))"

section \<open>Supplementary groups\<close>

definition set_groups ::
  "security_operations \<Rightarrow> cred \<Rightarrow> group_info \<Rightarrow> cred result" where
  "set_groups ops new gi =
     (case so_task_setgroups ops gi of
        Inl e \<Rightarrow> Inl e
      | Inr _ \<Rightarrow> Inr (new\<lparr>group_info := groups_sort gi\<rparr>))"

definition set_current_groups ::
  "security_operations \<Rightarrow> alloc_env \<Rightarrow> kernel \<Rightarrow> group_info \<Rightarrow> unit result \<times> kernel" where
  "set_current_groups ops env s gi =
     (case prepare_creds env s of
        None \<Rightarrow> (Inl ENOMEM, s)
      | Some (new, s1) \<Rightarrow>
        (case set_groups ops new gi of
           Inl e \<Rightarrow> (Inl e, abort_creds new s1)
         | Inr new1 \<Rightarrow> (Inr (), commit_creds new1 s1)))"

text \<open>The result is the number of groups and what was written to the user's buffer, if anything.\<close>

definition sys_getgroups :: "kernel \<Rightarrow> int \<Rightarrow> nat \<Rightarrow> (nat \<times> gid_t list) result" where
  "sys_getgroups s gidsetsize room =
     (let gi = group_info (current_cred s); i = ngroups gi
      in if gidsetsize < 0 then Inl EINVAL
         else if gidsetsize \<noteq> 0 then
           (if int i > gidsetsize then Inl EINVAL
            else case groups_to_user room gi of
              Inl e \<Rightarrow> Inl EFAULT
            | Inr out \<Rightarrow> Inr (i, out))
         else Inr (i, []))"

text \<open>\<^verbatim>\<open>(unsigned)gidsetsize > NGROUPS_MAX\<close> also refuses negative sizes.\<close>

definition sys_setgroups ::
  "security_operations \<Rightarrow> alloc_env \<Rightarrow> kernel \<Rightarrow> u32 \<Rightarrow> gid_t list \<Rightarrow> unit result \<times> kernel" where
  "sys_setgroups ops env s gidsetsize grouplist =
     (case capable ops s CAP_SETGID of (ok, s1) \<Rightarrow>
       if \<not> ok then (Inl EPERM, s1)
       else if unat gidsetsize > NGROUPS_MAX then (Inl EINVAL, s1)
       else case groups_alloc (kmalloc_ok env) (page_ok env) (junk env) (unat gidsetsize) of
         None \<Rightarrow> (Inl ENOMEM, s1)
       | Some gi \<Rightarrow>
         (case groups_from_user gi grouplist of
            Inl e \<Rightarrow> (Inl e, s1)
          | Inr gi1 \<Rightarrow> set_current_groups ops env s1 gi1))"

definition in_group_p :: "kernel \<Rightarrow> gid_t \<Rightarrow> bool" where
  "in_group_p s grp =
     (let c = current_cred s
      in if grp \<noteq> fsgid c then groups_search (Some (group_info c)) grp else True)"

definition in_egroup_p :: "kernel \<Rightarrow> gid_t \<Rightarrow> bool" where
  "in_egroup_p s grp =
     (let c = current_cred s
      in if grp \<noteq> egid c then groups_search (Some (group_info c)) grp else True)"

end
