(* ===== verification/Syscap.thy ===== *)
theory Syscap
  imports Setid
begin

text \<open>
  The system calls on capabilities and process options: \<^verbatim>\<open>capget\<close> and \<^verbatim>\<open>capset\<close>
  of \<^verbatim>\<open>kernel/capability.c\<close> and \<^verbatim>\<open>prctl\<close> of \<^verbatim>\<open>kernel/sys.c\<close>.
\<close>

section \<open>capget and capset\<close>

definition LINUX_CAPABILITY_VERSION_1 :: u32 where "LINUX_CAPABILITY_VERSION_1 = 0x19980330"
definition LINUX_CAPABILITY_VERSION_2 :: u32 where "LINUX_CAPABILITY_VERSION_2 = 0x20071026"
definition LINUX_CAPABILITY_VERSION_3 :: u32 where "LINUX_CAPABILITY_VERSION_3 = 0x20080522"

lemmas cap_versions =
  LINUX_CAPABILITY_VERSION_1_def LINUX_CAPABILITY_VERSION_2_def LINUX_CAPABILITY_VERSION_3_def

text \<open>
  The header in user memory, with what the two accessors \<^verbatim>\<open>get_user\<close> and
  \<^verbatim>\<open>put_user\<close> answer for it.
\<close>

record cap_user_header =
  h_version :: u32
  h_pid :: int
  h_readable :: bool
  h_pid_readable :: bool
  h_writable :: bool

record cap_user_data =
  ud_effective :: u32
  ud_permitted :: u32
  ud_inheritable :: u32

definition cap_validate_magic :: "cap_user_header \<Rightarrow> nat result \<times> cap_user_header" where
  "cap_validate_magic h =
     (if \<not> h_readable h then (Inl EFAULT, h)
      else if h_version h = LINUX_CAPABILITY_VERSION_1 then (Inr 1, h)
      else if h_version h = LINUX_CAPABILITY_VERSION_2 \<or> h_version h = LINUX_CAPABILITY_VERSION_3
      then (Inr 2, h)
      else if \<not> h_writable h then (Inl EFAULT, h)
      else (Inl EINVAL, h\<lparr>h_version := LINUX_CAPABILITY_VERSION_3\<rparr>))"

text \<open>\<open>tasks\<close> is \<^verbatim>\<open>find_task_by_vpid\<close>.\<close>

definition cap_get_target_pid ::
  "kernel \<Rightarrow> (int \<Rightarrow> task_struct option) \<Rightarrow> int \<Rightarrow> (kernel_cap_t \<times> kernel_cap_t \<times> kernel_cap_t) result"
where
  "cap_get_target_pid s tasks p =
     (if p \<noteq> 0 \<and> p \<noteq> pid (current s) then
        (case tasks p of None \<Rightarrow> Inl ESRCH | Some target \<Rightarrow> Inr (cap_capget target))
      else Inr (cap_capget (current s)))"

text \<open>\<open>room\<close> is the number of records the user's buffer can take.\<close>

definition sys_capget ::
  "kernel \<Rightarrow> (int \<Rightarrow> task_struct option) \<Rightarrow> cap_user_header \<Rightarrow> nat
    \<Rightarrow> cap_user_data list result \<times> cap_user_header" where
  "sys_capget s tasks header room =
     (case cap_validate_magic header of
        (Inl e, h) \<Rightarrow> (Inl e, h)
      | (Inr tocopy, h) \<Rightarrow>
        if \<not> h_pid_readable h then (Inl EFAULT, h)
        else if h_pid h < 0 then (Inl EINVAL, h)
        else case cap_get_target_pid s tasks (h_pid h) of
          Inl e \<Rightarrow> (Inl e, h)
        | Inr (pE, pI, pP) \<Rightarrow>
          let kdata = map (\<lambda>i. \<lparr>ud_effective = cap_word pE i, ud_permitted = cap_word pP i,
                                ud_inheritable = cap_word pI i\<rparr>) [0..<tocopy]
          in if room < tocopy then (Inl EFAULT, h) else (Inr kdata, h))"

text \<open>The three sets that \<^verbatim>\<open>capset\<close> builds from the words it copied in.\<close>

definition caps_of_words :: "u32 list \<Rightarrow> kernel_cap_t" where
  "caps_of_words ws =
     \<lparr>cap0 = (if 0 < length ws then ws ! 0 else 0), cap1 = (if 1 < length ws then ws ! 1 else 0)\<rparr>"

definition sys_capset ::
  "security_operations \<Rightarrow> alloc_env \<Rightarrow> kernel \<Rightarrow> cap_user_header \<Rightarrow> cap_user_data list
    \<Rightarrow> unit result \<times> cap_user_header \<times> kernel" where
  "sys_capset ops env s header data =
     (case cap_validate_magic header of
        (Inl e, h) \<Rightarrow> (Inl e, h, s)
      | (Inr tocopy, h) \<Rightarrow>
        if \<not> h_pid_readable h then (Inl EFAULT, h, s)
        else if h_pid h \<noteq> 0 \<and> h_pid h \<noteq> pid (current s) then (Inl EPERM, h, s)
        else if length data < tocopy then (Inl EFAULT, h, s)
        else
          let kdata = take tocopy data;
              effective = caps_of_words (map ud_effective kdata);
              permitted = caps_of_words (map ud_permitted kdata);
              inheritable = caps_of_words (map ud_inheritable kdata)
          in case prepare_creds env s of
            None \<Rightarrow> (Inl ENOMEM, h, s)
          | Some (new, s1) \<Rightarrow>
            (case so_capset ops (current_cred s1) new (current_cred s1) effective inheritable permitted of
               Inl e \<Rightarrow> (Inl e, h, abort_creds new s1)
             | Inr new1 \<Rightarrow> (Inr (), h, commit_creds new1 s1)))"

section \<open>prctl\<close>

text \<open>
  \<^verbatim>\<open>prctl\<close> of \<^verbatim>\<open>kernel/sys.c\<close>: the hook first, then the options of the generic
  code.  The ARM kernel has none of the \<^verbatim>\<open>UNALIGN\<close>, \<^verbatim>\<open>FPEMU\<close>, \<^verbatim>\<open>FPEXC\<close>,
  \<^verbatim>\<open>ENDIAN\<close> and \<^verbatim>\<open>TSC\<close> controls, and \<^verbatim>\<open>CONFIG_SECCOMP\<close> is off, so those
  options answer \<^verbatim>\<open>EINVAL\<close> as unknown ones do.  \<open>user_string\<close> is the string at the user's pointer
  (\<open>None\<close> when reading it faults), \<open>writable\<close> whether the pointer can be written.
\<close>

definition PR_SET_PDEATHSIG :: int where "PR_SET_PDEATHSIG = 1"
definition PR_GET_PDEATHSIG :: int where "PR_GET_PDEATHSIG = 2"
definition PR_GET_DUMPABLE :: int where "PR_GET_DUMPABLE = 3"
definition PR_SET_DUMPABLE :: int where "PR_SET_DUMPABLE = 4"
definition PR_GET_TIMING :: int where "PR_GET_TIMING = 13"
definition PR_SET_TIMING :: int where "PR_SET_TIMING = 14"
definition PR_SET_NAME :: int where "PR_SET_NAME = 15"
definition PR_GET_NAME :: int where "PR_GET_NAME = 16"
definition PR_SET_TIMERSLACK :: int where "PR_SET_TIMERSLACK = 29"
definition PR_GET_TIMERSLACK :: int where "PR_GET_TIMERSLACK = 30"

lemmas prctl_options =
  PR_SET_PDEATHSIG_def PR_GET_PDEATHSIG_def PR_GET_DUMPABLE_def PR_SET_DUMPABLE_def
  PR_GET_TIMING_def PR_SET_TIMING_def PR_SET_NAME_def PR_GET_NAME_def PR_SET_TIMERSLACK_def
  PR_GET_TIMERSLACK_def

definition NSIG :: nat where "NSIG = 64"

definition valid_signal :: "u32 \<Rightarrow> bool" where
  "valid_signal sig \<longleftrightarrow> unat sig \<le> NSIG"

definition TASK_COMM_LEN :: nat where "TASK_COMM_LEN = 16"

text \<open>What a successful call has written to the user's pointer.\<close>

datatype user_write = NoWrite | WriteInt nat | WriteComm string

definition prctl_generic ::
  "kernel \<Rightarrow> int \<Rightarrow> u32 \<Rightarrow> string option \<Rightarrow> bool \<Rightarrow> (int \<times> user_write) result \<times> kernel" where
  "prctl_generic s option arg2 user_string writable =
     (let me = current s
      in if option = PR_SET_PDEATHSIG then
           (if \<not> valid_signal arg2 then (Inl EINVAL, s)
            else (Inr (0, NoWrite), s\<lparr>current := me\<lparr>pdeath_signal := unat arg2\<rparr>\<rparr>))
         else if option = PR_GET_PDEATHSIG then
           (if writable then Inr (0, WriteInt (pdeath_signal me)) else Inl EFAULT, s)
         else if option = PR_GET_DUMPABLE then
           (Inr (int (get_dumpable (mm_flags me)), NoWrite), s)
         else if option = PR_SET_DUMPABLE then
           (if arg2 > 1 then (Inl EINVAL, s)
            else (Inr (0, NoWrite), s\<lparr>current := set_dumpable me (unat arg2)\<rparr>))
         else if option = PR_GET_TIMING then (Inr (0, NoWrite), s)
         else if option = PR_SET_TIMING then
           (if arg2 \<noteq> 0 then Inl EINVAL else Inr (0, NoWrite), s)
         else if option = PR_SET_NAME then
           (case user_string of
              None \<Rightarrow> (Inl EFAULT, s)
            | Some str \<Rightarrow>
                (Inr (0, NoWrite), s\<lparr>current := me\<lparr>comm := take (TASK_COMM_LEN - 1) str\<rparr>\<rparr>))
         else if option = PR_GET_NAME then
           (if writable then Inr (0, WriteComm (comm me)) else Inl EFAULT, s)
         else if option = PR_GET_TIMERSLACK then (Inr (sint (timer_slack_ns me), NoWrite), s)
         else if option = PR_SET_TIMERSLACK then
           (Inr (0, NoWrite),
            s\<lparr>current := me\<lparr>timer_slack_ns :=
                (if arg2 = 0 then default_timer_slack_ns me else arg2)\<rparr>\<rparr>)
         else (Inl EINVAL, s))"

definition sys_prctl ::
  "kconfig \<Rightarrow> security_operations \<Rightarrow> alloc_env \<Rightarrow> kernel \<Rightarrow> int \<Rightarrow> u32 \<Rightarrow> string option \<Rightarrow> bool
    \<Rightarrow> (int \<times> user_write) result \<times> kernel" where
  "sys_prctl cfg ops env s option arg2 user_string writable =
     (case cap_task_prctl cfg ops env s option arg2 of
        (Inr v, s1) \<Rightarrow> (Inr (v, NoWrite), s1)
      | (Inl e, s1) \<Rightarrow>
          if e \<noteq> ENOSYS then (Inl e, s1)
          else prctl_generic s1 option arg2 user_string writable)"

end
