(* ===== verification/Stat.thy ===== *)
theory Stat
  imports Kernel_Prelude
begin

text \<open>
  The bits of a file's mode: \<^verbatim>\<open>include/linux/stat.h\<close>.  \<^verbatim>\<open>mode_t\<close> and
  \<^verbatim>\<open>umode_t\<close> are unsigned shorts on ARM.
\<close>

type_synonym mode_t = u16

definition S_IRWXU :: mode_t where "S_IRWXU = 0x1C0"
definition S_IRWXG :: mode_t where "S_IRWXG = 0x38"
definition S_IRWXO :: mode_t where "S_IRWXO = 0x7"
definition S_IRWXUGO :: mode_t where "S_IRWXUGO = S_IRWXU OR S_IRWXG OR S_IRWXO"

definition S_IFMT :: mode_t where "S_IFMT = 0xF000"
definition S_IFSOCK :: mode_t where "S_IFSOCK = 0xC000"
definition S_IFLNK :: mode_t where "S_IFLNK = 0xA000"
definition S_IFREG :: mode_t where "S_IFREG = 0x8000"
definition S_IFBLK :: mode_t where "S_IFBLK = 0x6000"
definition S_IFDIR :: mode_t where "S_IFDIR = 0x4000"
definition S_IFCHR :: mode_t where "S_IFCHR = 0x2000"
definition S_IFIFO :: mode_t where "S_IFIFO = 0x1000"
definition S_ISUID :: mode_t where "S_ISUID = 0x800"
definition S_ISGID :: mode_t where "S_ISGID = 0x400"
definition S_ISVTX :: mode_t where "S_ISVTX = 0x200"
definition S_IXUSR :: mode_t where "S_IXUSR = 0x40"
definition S_IXGRP :: mode_t where "S_IXGRP = 0x8"
definition S_IXOTH :: mode_t where "S_IXOTH = 0x1"
definition S_IXUGO :: mode_t where "S_IXUGO = S_IXUSR OR S_IXGRP OR S_IXOTH"
definition S_IALLUGO :: mode_t where "S_IALLUGO = S_ISUID OR S_ISGID OR S_ISVTX OR S_IRWXUGO"

definition S_ISLNK :: "mode_t \<Rightarrow> bool" where "S_ISLNK m \<longleftrightarrow> m AND S_IFMT = S_IFLNK"
definition S_ISREG :: "mode_t \<Rightarrow> bool" where "S_ISREG m \<longleftrightarrow> m AND S_IFMT = S_IFREG"
definition S_ISDIR :: "mode_t \<Rightarrow> bool" where "S_ISDIR m \<longleftrightarrow> m AND S_IFMT = S_IFDIR"
definition S_ISCHR :: "mode_t \<Rightarrow> bool" where "S_ISCHR m \<longleftrightarrow> m AND S_IFMT = S_IFCHR"
definition S_ISBLK :: "mode_t \<Rightarrow> bool" where "S_ISBLK m \<longleftrightarrow> m AND S_IFMT = S_IFBLK"
definition S_ISFIFO :: "mode_t \<Rightarrow> bool" where "S_ISFIFO m \<longleftrightarrow> m AND S_IFMT = S_IFIFO"
definition S_ISSOCK :: "mode_t \<Rightarrow> bool" where "S_ISSOCK m \<longleftrightarrow> m AND S_IFMT = S_IFSOCK"

end
