(* ===== verification/Exec.thy ===== *)
theory Exec
  imports Syscap Stat
begin

text \<open>
  The credential path of \<^verbatim>\<open>execve\<close>: \<^verbatim>\<open>fs/exec.c\<close>, with the interpreter chain that
  \<^verbatim>\<open>fs/binfmt_script.c\<close> adds to it.
\<close>

section \<open>execve\<close>

text \<open>The mode and owner of the file that is executed.\<close>

record exec_mode =
  x_mode :: mode_t
  x_uid :: uid_t
  x_gid :: gid_t

text \<open>An opened executable; \<open>im_fop\<close> says whether the file has operations.\<close>

record exec_image =
  im_fop :: bool
  im_inode :: exec_mode
  im_file :: exec_file

text \<open>
  What \<^verbatim>\<open>execve\<close> depends on besides the credentials: the file's name, whether the task is traced
  (and by a tracer with \<^verbatim>\<open>CAP_SYS_PTRACE\<close>), the \<^verbatim>\<open>fs_struct\<close> of each of its other
  threads, the outcome of opening the file and of the work of the binary handlers, and the two
  conditions that make the new image undumpable.
\<close>

record exec_env =
  xe_filename :: string
  xe_ptraced :: bool
  xe_ptrace_cap :: bool
  xe_threads :: "nat list"
  xe_open :: "unit result"
  xe_handler :: "unit result"
  xe_unreadable :: bool
  xe_nondump :: bool

definition LSM_UNSAFE_SHARE :: u32 where "LSM_UNSAFE_SHARE = 1"
definition LSM_UNSAFE_PTRACE :: u32 where "LSM_UNSAFE_PTRACE = 2"

definition tracehook_unsafe_exec :: "exec_env \<Rightarrow> u32" where
  "tracehook_unsafe_exec xe =
     (if xe_ptraced xe
      then (if xe_ptrace_cap xe then LSM_UNSAFE_PTRACE_CAP else LSM_UNSAFE_PTRACE)
      else 0)"

text \<open>The result is the flag \<^verbatim>\<open>clear_in_exec\<close> and the bits of \<^verbatim>\<open>bprm->unsafe\<close>.\<close>

definition check_unsafe_exec :: "exec_env \<Rightarrow> fs_struct \<Rightarrow> (bool \<times> u32) result \<times> fs_struct" where
  "check_unsafe_exec xe fs =
     (let unsafe = tracehook_unsafe_exec xe;
          n_fs = 1 + length (filter (\<lambda>t. t = fs_id fs) (xe_threads xe))
      in if fs_users fs > n_fs then (Inr (False, unsafe OR LSM_UNSAFE_SHARE), fs)
         else if \<not> fs_in_exec fs then (Inr (True, unsafe), fs\<lparr>fs_in_exec := True\<rparr>)
         else (Inl EAGAIN, fs))"

text \<open>The ids of the new credentials, from the set-user-id and set-group-id bits of the file.\<close>

definition binprm_ids :: "kernel \<Rightarrow> exec_mode \<Rightarrow> linux_binprm \<Rightarrow> cred" where
  "binprm_ids s inode bprm =
     (let mode = x_mode inode;
          c0 = (b_cred bprm)\<lparr>euid := euid (current_cred s), egid := egid (current_cred s)\<rparr>
      in if \<not> mnt_nosuid (b_file bprm) then
           let c1 = (if mode AND S_ISUID \<noteq> 0 then c0\<lparr>euid := x_uid inode\<rparr> else c0)
           in if mode AND (S_ISGID OR S_IXGRP) = S_ISGID OR S_IXGRP
              then c1\<lparr>egid := x_gid inode\<rparr> else c1
         else c0)"

text \<open>
  \<^verbatim>\<open>prepare_binprm\<close> up to the read of the file's first page: the ids, then the hook
  \<^verbatim>\<open>security_bprm_set_creds\<close>.
\<close>

definition prepare_binprm ::
  "kconfig \<Rightarrow> security_operations \<Rightarrow> kernel \<Rightarrow> exec_image \<Rightarrow> linux_binprm
    \<Rightarrow> unit result \<times> linux_binprm \<times> kernel" where
  "prepare_binprm cfg ops s im bprm =
     (let bprm1 = bprm\<lparr>b_file := im_file im\<rparr>
      in if \<not> im_fop im then (Inl EACCES, bprm1, s)
         else cap_bprm_set_creds cfg ops s
                (bprm1\<lparr>b_cred := binprm_ids s (im_inode im) bprm1\<rparr>))"

text \<open>
  \<^verbatim>\<open>prepare_binprm\<close> runs for the file itself and, when that is a script, again on the same
  \<^verbatim>\<open>bprm\<close> for its interpreter, and so on (\<^verbatim>\<open>load_script\<close> of
  \<^verbatim>\<open>fs/binfmt_script.c\<close>).
\<close>

fun prepare_chain ::
  "kconfig \<Rightarrow> security_operations \<Rightarrow> kernel \<Rightarrow> exec_image list \<Rightarrow> linux_binprm
    \<Rightarrow> unit result \<times> linux_binprm \<times> kernel" where
  "prepare_chain cfg ops s [] bprm = (Inr (), bprm, s)"
| "prepare_chain cfg ops s (im # interpreters) bprm =
     (case prepare_binprm cfg ops s im bprm of
        (Inl e, bprm1, s1) \<Rightarrow> (Inl e, bprm1, s1)
      | (Inr _, bprm1, s1) \<Rightarrow> prepare_chain cfg ops s1 interpreters bprm1)"

text \<open>The name of the binary after the last slash, cut to what \<^verbatim>\<open>comm\<close> can hold.\<close>

fun exec_comm :: "string \<Rightarrow> string \<Rightarrow> string" where
  "exec_comm [] tcomm = tcomm"
| "exec_comm (ch # name) tcomm =
     exec_comm name
       (if ch = CHR ''/'' then []
        else if length tcomm < TASK_COMM_LEN - 1 then tcomm @ [ch] else tcomm)"

text \<open>The part of \<^verbatim>\<open>flush_old_exec\<close> that concerns the task's dumpability, death signal and name.\<close>

definition flush_old_exec :: "exec_env \<Rightarrow> linux_binprm \<Rightarrow> kernel \<Rightarrow> kernel" where
  "flush_old_exec xe bprm s =
     (let c = current_cred s;
          t1 = set_dumpable (current s)
                 (if euid c = uid c \<and> egid c = gid c then 1 else suid_dumpable s);
          t2 = t1\<lparr>comm := exec_comm (xe_filename xe) []\<rparr>;
          t3 = (if uid (b_cred bprm) \<noteq> euid c \<or> gid (b_cred bprm) \<noteq> egid c
                then t2\<lparr>pdeath_signal := 0\<rparr>
                else if xe_unreadable xe \<or> xe_nondump xe then set_dumpable t2 (suid_dumpable s)
                else t2)
      in s\<lparr>current := t3\<rparr>)"

definition install_exec_creds :: "linux_binprm \<Rightarrow> kernel \<Rightarrow> kernel" where
  "install_exec_creds bprm s = commit_creds (b_cred bprm) s"

text \<open>
  \<^verbatim>\<open>do_execve\<close> as far as it concerns the task's credentials: \<^verbatim>\<open>prepare_exec_creds\<close>
  (a plain copy without \<^verbatim>\<open>CONFIG_KEYS\<close>), \<^verbatim>\<open>check_unsafe_exec\<close>, the binary and its
  interpreters, and \<^verbatim>\<open>flush_old_exec\<close> and \<^verbatim>\<open>install_exec_creds\<close> in the handler that
  accepts it.  \<open>unmark_exec\<close> is the label \<^verbatim>\<open>out_unmark\<close>.
\<close>

definition unmark_exec :: "bool \<Rightarrow> kernel \<Rightarrow> kernel" where
  "unmark_exec clear_in_exec s =
     (if clear_in_exec then s\<lparr>current_fs := (current_fs s)\<lparr>fs_in_exec := False\<rparr>\<rparr> else s)"

definition do_execve ::
  "kconfig \<Rightarrow> security_operations \<Rightarrow> alloc_env \<Rightarrow> exec_env \<Rightarrow> kernel \<Rightarrow> exec_image list
    \<Rightarrow> unit result \<times> kernel" where
  "do_execve cfg ops env xe s images =
     (case prepare_creds env s of
        None \<Rightarrow> (Inl ENOMEM, s)
      | Some (new, s1) \<Rightarrow>
        (case check_unsafe_exec xe (current_fs s1) of
           (Inl e, fs) \<Rightarrow> (Inl e, abort_creds new s1)
         | (Inr (clear_in_exec, unsafe), fs) \<Rightarrow>
           let s2 = s1\<lparr>current_fs := fs\<rparr>
           in case xe_open xe of
                Inl e \<Rightarrow> (Inl e, abort_creds new (unmark_exec clear_in_exec s2))
              | Inr _ \<Rightarrow>
           (case prepare_chain cfg ops s2 images
                   \<lparr>b_cred = new, b_cap_effective = False, b_unsafe = unsafe,
                    b_file = im_file (hd images)\<rparr> of
              (Inl e, bprm, s3) \<Rightarrow> (Inl e, abort_creds (b_cred bprm) (unmark_exec clear_in_exec s3))
            | (Inr _, bprm, s3) \<Rightarrow>
              (case xe_handler xe of
                 Inl e \<Rightarrow> (Inl e, abort_creds (b_cred bprm) (unmark_exec clear_in_exec s3))
               | Inr _ \<Rightarrow>
                 (Inr (), unmark_exec True
                            (install_exec_creds bprm (flush_old_exec xe bprm s3)))))))"

end
