(* ===== verification/Privilege.thy ===== *)
theory Privilege
  imports Exec
begin

text \<open>
  What one identity system call may do to the credentials of the task that makes it.  The locale
  \<open>lsm\<close> is the contract between the system calls of \<^verbatim>\<open>kernel/sys.c\<close> and the
  security module they call through \<^verbatim>\<open>include/linux/security.h\<close>; inside it every system
  call is shown to keep \<open>step_ok\<close>, whatever the module decides, and the default module of
  \<^verbatim>\<open>security/commoncap.c\<close> is shown to fulfil the contract.
\<close>

section \<open>The contract of a security module\<close>

definition caps_ok :: "cred \<Rightarrow> bool" where
  "caps_ok c \<longleftrightarrow> cap_issubset (cap_effective c) (cap_permitted c)"

text \<open>
  An LSM may refuse, but it neither grants a capability that is not in the effective set nor
  edits anything of the new credentials but their permitted and effective sets, which it may
  not enlarge beyond the permitted set it was given.
\<close>

locale lsm =
  fixes ops :: security_operations
  assumes capable_restricts:
      "so_capable ops c n = Inr () \<Longrightarrow> cap_valid n \<Longrightarrow> n \<in> cap_set (cap_effective c)"
    and fix_setuid_edits:
      "so_task_fix_setuid ops cur new old flags = Inr new' \<Longrightarrow>
        new' = new\<lparr>cap_permitted := cap_permitted new', cap_effective := cap_effective new'\<rparr>"
    and fix_setuid_permitted:
      "so_task_fix_setuid ops cur new old flags = Inr new' \<Longrightarrow>
        cap_issubset (cap_permitted new') (cap_permitted new)"
    and fix_setuid_caps_ok:
      "so_task_fix_setuid ops cur new old flags = Inr new' \<Longrightarrow> caps_ok new \<Longrightarrow> caps_ok new'"
    and capset_edits:
      "so_capset ops cur new old e i p = Inr new' \<Longrightarrow>
        new' = new\<lparr>cap_effective := e, cap_inheritable := i, cap_permitted := p\<rparr> \<and>
        cap_issubset p (cap_permitted old) \<and> cap_issubset e p \<and>
        cap_issubset i (cap_combine (cap_inheritable old) (cap_bset old))"

lemma cap_valid_64: "cap_valid n \<Longrightarrow> n < 64"
  by (simp add: cap_valid_def cap_numbers)

lemma cap_task_fix_setuid_edits:
  "cap_task_fix_setuid cur new old flags = Inr new' \<Longrightarrow>
    new' = new\<lparr>cap_permitted := cap_permitted new', cap_effective := cap_effective new'\<rparr>"
  by (auto simp: cap_task_fix_setuid_def cap_emulate_setxuid_def Let_def split: if_splits)

lemma cap_task_fix_setuid_permitted:
  "cap_task_fix_setuid cur new old flags = Inr new' \<Longrightarrow>
    cap_issubset (cap_permitted new') (cap_permitted new)"
  by (auto simp: cap_task_fix_setuid_def cap_emulate_setxuid_def Let_def kcap.issubset_refl
      kcap.none_least split: if_splits)

lemma cap_task_fix_setuid_caps_ok:
  "cap_task_fix_setuid cur new old flags = Inr new' \<Longrightarrow> caps_ok new \<Longrightarrow> caps_ok new'"
  by (auto simp: cap_task_fix_setuid_def cap_emulate_setxuid_def Let_def caps_ok_def cap_abs
      split: if_splits)

interpretation capability_lsm: lsm "capability_ops cfg" for cfg
proof unfold_locales
  fix c n assume "so_capable (capability_ops cfg) c n = Inr ()" "cap_valid n"
  then show "n \<in> cap_set (cap_effective c)"
    by (auto simp: capability_ops_def cap_capable_def cap_raised_set cap_valid_64 split: if_splits)
qed (auto simp: capability_ops_def cap_task_fix_setuid_edits cap_task_fix_setuid_permitted
  cap_capset_def split: if_splits intro: cap_task_fix_setuid_caps_ok dest: cap_task_fix_setuid_edits)

section \<open>What one system call may do to the credentials\<close>

definition uids :: "cred \<Rightarrow> uid_t set" where
  "uids c = {uid c, euid c, suid c, fsuid c}"

definition gids :: "cred \<Rightarrow> gid_t set" where
  "gids c = {gid c, egid c, sgid c, fsgid c}"

text \<open>A secure bit whose lock (the bit above it) is set keeps its value and its lock.\<close>

definition locks_kept :: "cred \<Rightarrow> cred \<Rightarrow> nat \<Rightarrow> bool" where
  "locks_kept c c' k \<longleftrightarrow> (bit (securebits c) (Suc k) \<longrightarrow>
     bit (securebits c') (Suc k) \<and> bit (securebits c') k = bit (securebits c) k)"

definition no_gain :: "cred \<Rightarrow> cred \<Rightarrow> bool" where
  "no_gain c c' \<longleftrightarrow>
     cap_issubset (cap_permitted c') (cap_permitted c) \<and>
     (caps_ok c \<longrightarrow> caps_ok c') \<and>
     cap_issubset (cap_bset c') (cap_bset c) \<and>
     cap_issubset (cap_inheritable c') (cap_combine (cap_inheritable c) (cap_bset c)) \<and>
     (CAP_SETUID \<notin> cap_set (cap_effective c) \<longrightarrow> uids c' \<subseteq> uids c) \<and>
     (CAP_SETGID \<notin> cap_set (cap_effective c) \<longrightarrow> gids c' \<subseteq> gids c \<and> group_info c' = group_info c) \<and>
     (user c = uid c \<longrightarrow> user c' = uid c') \<and>
     locks_kept c c' SECURE_NOROOT \<and> locks_kept c c' SECURE_NO_SETUID_FIXUP \<and>
     locks_kept c c' SECURE_KEEP_CAPS"

text \<open>
  The states in which system calls run: the subjective credentials are not overridden and no
  \<^verbatim>\<open>BUG()\<close> has fired.
\<close>

definition sane :: "kernel \<Rightarrow> bool" where
  "sane s \<longleftrightarrow> cred (current s) = real_cred (current s) \<and> \<not> bug s"

text \<open>
  The process counts with the current task taken out: what the counts of the users' other
  processes are.
\<close>

definition other_processes :: "kernel \<Rightarrow> uid_t \<Rightarrow> int" where
  "other_processes s u = processes s u - (if u = user (current_cred s) then 1 else 0)"

definition same_task :: "kernel \<Rightarrow> kernel \<Rightarrow> bool" where
  "same_task s s' \<longleftrightarrow> cred (current s') = cred (current s) \<and>
     real_cred (current s') = real_cred (current s) \<and> pid (current s') = pid (current s) \<and>
     processes s' = processes s \<and> bug s' = bug s"

definition step_ok :: "kernel \<Rightarrow> kernel \<Rightarrow> bool" where
  "step_ok s s' \<longleftrightarrow> (sane s \<longrightarrow> sane s' \<and> no_gain (current_cred s) (current_cred s') \<and>
     pid (current s') = pid (current s) \<and> other_processes s' = other_processes s)"

lemma no_gain_refl: "no_gain c c"
  by (auto simp: no_gain_def locks_kept_def cap_abs)

lemma same_task_refl: "same_task s s"
  by (simp add: same_task_def)

lemma same_task_trans: "same_task s t \<Longrightarrow> same_task t u \<Longrightarrow> same_task s u"
  by (simp add: same_task_def)

lemma same_task_step_ok: "same_task s s' \<Longrightarrow> step_ok s s'"
  by (simp add: same_task_def step_ok_def sane_def no_gain_refl other_processes_def fun_eq_iff)

lemma commit_other_processes:
  assumes "cred (current s) = real_cred (current s)"
  shows "other_processes (commit_creds new s) = other_processes s"
  using assms
  by (simp add: other_processes_def commit_creds_current commit_creds_processes fun_eq_iff)

lemma step_ok_commit:
  assumes "same_task s s1" "no_gain (current_cred s) new"
  shows "step_ok s (commit_creds new s1)"
proof -
  have "other_processes s1 = other_processes s"
    using assms(1) by (simp add: same_task_def other_processes_def fun_eq_iff)
  with assms show ?thesis
    by (auto simp: same_task_def step_ok_def sane_def commit_creds_current commit_other_processes)
qed

lemma prepare_creds_SomeD:
  "prepare_creds env s = Some (new, s1) \<Longrightarrow>
    same_task s s1 \<and> current s1 = current s \<and> new = (current_cred s)\<lparr>cred_id := next_cred s\<rparr>"
  by (auto simp: prepare_creds_def same_task_def split: if_splits)

lemma capable_same_task: "capable ops s n = (b, s') \<Longrightarrow> cap_valid n \<Longrightarrow> same_task s s'"
  by (auto simp: same_task_def capable_bug frame)

lemma or_capable_same_task: "or_capable ops s a n = (b, s') \<Longrightarrow> cap_valid n \<Longrightarrow> same_task s s'"
  by (auto simp: or_capable_def same_task_refl capable_same_task split: if_splits)

lemma assign_id_same_task:
  "assign_id ops s x a n upd new = (r, s') \<Longrightarrow> cap_valid n \<Longrightarrow> same_task s s'"
  by (auto simp: assign_id_def same_task_refl split: if_splits prod.splits
      intro: or_capable_same_task)

lemma set_user_edits: "set_user env s new = Inr new' \<Longrightarrow> new' = new\<lparr>user := uid new\<rparr>"
  by (auto simp: set_user_def split: if_splits)

lemma cap_valid_ids: "cap_valid CAP_SETUID" "cap_valid CAP_SETGID" "cap_valid CAP_SETPCAP"
  by (simp_all add: cap_valid_def cap_numbers)

text \<open>
  Changing ids only: no capability set and no secure bit moves, and the new ids are old ones
  unless the capability is effective.
\<close>

lemma no_gain_ids:
  assumes "cap_permitted c' = cap_permitted c" "cap_effective c' = cap_effective c"
    "cap_bset c' = cap_bset c" "cap_inheritable c' = cap_inheritable c"
    "securebits c' = securebits c"
    "CAP_SETUID \<notin> cap_set (cap_effective c) \<Longrightarrow> uids c' \<subseteq> uids c"
    "CAP_SETGID \<notin> cap_set (cap_effective c) \<Longrightarrow> gids c' \<subseteq> gids c \<and> group_info c' = group_info c"
    "user c = uid c \<Longrightarrow> user c' = uid c'"
  shows "no_gain c c'"
  using assms by (auto simp: no_gain_def locks_kept_def caps_ok_def cap_abs)

context lsm
begin

lemma capable_effective:
  "capable ops s n = (True, s') \<Longrightarrow> cap_valid n \<Longrightarrow> n \<in> cap_set (cap_effective (current_cred s))"
  by (auto simp: capable_def capable_restricts split: if_splits)

lemma or_capable_effective:
  "or_capable ops s a n = (True, s') \<Longrightarrow> cap_valid n \<Longrightarrow>
    a \<or> n \<in> cap_set (cap_effective (current_cred s))"
  by (auto simp: or_capable_def capable_effective split: if_splits)

lemma assign_id_edits:
  "assign_id ops s x a n upd new = (Some new', s') \<Longrightarrow> cap_valid n \<Longrightarrow>
    new' = new \<and> x = - 1 \<or>
    new' = upd new \<and> x \<noteq> - 1 \<and> (a \<or> n \<in> cap_set (cap_effective (current_cred s)))"
  by (auto simp: assign_id_def or_capable_effective split: if_splits prod.splits)

lemma no_gain_fix_setuid:
  assumes "so_task_fix_setuid ops cur new old flags = Inr new'" "no_gain c new"
  shows "no_gain c new'"
proof -
  have e: "new' = new\<lparr>cap_permitted := cap_permitted new', cap_effective := cap_effective new'\<rparr>"
    by (rule fix_setuid_edits [OF assms(1)])
  have "cap_bset new' = cap_bset new" "cap_inheritable new' = cap_inheritable new"
    "uids new' = uids new" "gids new' = gids new" "group_info new' = group_info new"
    "securebits new' = securebits new" "user new' = user new" "uid new' = uid new"
    by (subst e, simp add: uids_def gids_def)+
  with fix_setuid_permitted [OF assms(1)] fix_setuid_caps_ok [OF assms(1)] assms(2) show ?thesis
    by (auto simp: no_gain_def locks_kept_def intro: kcap.issubset_trans)
qed

text \<open>
  Symbolic execution of a system call: one rule per construct of the code, each carrying the
  fact that the current task still has the credentials it started with.
\<close>

lemma step_pair: "step_ok s s' \<Longrightarrow> step_ok s (snd (r, s'))"
  by simp

lemma step_if:
  "(b \<Longrightarrow> step_ok s (snd x)) \<Longrightarrow> (\<not> b \<Longrightarrow> step_ok s (snd y)) \<Longrightarrow> step_ok s (snd (if b then x else y))"
  by simp

lemma step_hook:
  fixes r :: "unit result"
  shows "(\<And>e. step_ok s (snd (f e))) \<Longrightarrow> (\<And>v. step_ok s (snd (g v))) \<Longrightarrow>
    step_ok s (snd (case_sum f g r))"
  by (cases r) auto

lemma step_sum_if:
  "(b \<Longrightarrow> step_ok s (snd (case_sum f g x))) \<Longrightarrow> (\<not> b \<Longrightarrow> step_ok s (snd (case_sum f g y))) \<Longrightarrow>
    step_ok s (snd (case_sum f g (if b then x else y)))"
  by simp

lemma step_sum_Inl: "step_ok s (snd (f e)) \<Longrightarrow> step_ok s (snd (case_sum f g (Inl e)))"
  by simp

lemma step_sum_Inr: "step_ok s (snd (g v)) \<Longrightarrow> step_ok s (snd (case_sum f g (Inr v)))"
  by simp

lemma step_set_user:
  assumes "\<And>e. step_ok s (snd (f e))" "step_ok s (snd (g (new\<lparr>user := uid new\<rparr>)))"
  shows "step_ok s (snd (case_sum f g (set_user env s1 new)))"
  using assms by (cases "set_user env s1 new") (auto dest: set_user_edits)

lemma step_abort: "same_task s s1 \<Longrightarrow> step_ok s (abort_creds new s1)"
  by (simp add: abort_creds_def same_task_step_ok)

lemma step_prepare:
  assumes "same_task s s0"
    and "\<And>s1. same_task s s1 \<Longrightarrow> current_cred s1 = current_cred s \<Longrightarrow>
      step_ok s (snd (f ((current_cred s)\<lparr>cred_id := next_cred s0\<rparr>) s1))"
  shows "step_ok s (snd (case_option (r, s0) (case_prod f) (prepare_creds env s0)))"
proof (cases "prepare_creds env s0")
  case None
  with assms(1) show ?thesis by (simp add: same_task_step_ok)
next
  case (Some p)
  then have p: "same_task s0 (snd p)" "fst p = (current_cred s0)\<lparr>cred_id := next_cred s0\<rparr>"
    using prepare_creds_SomeD [of env s0 "fst p" "snd p"] by simp_all
  moreover have "current_cred s0 = current_cred s"
    using assms(1) by (simp add: same_task_def)
  moreover have "same_task s (snd p)" using assms(1) p(1) by (rule same_task_trans)
  ultimately show ?thesis
    using Some assms(2) [of "snd p"] by (cases p) (simp add: same_task_def)
qed

lemma step_capable:
  assumes "same_task s s1" "cap_valid n"
    and "\<And>b s2. same_task s s2 \<Longrightarrow> (b \<longrightarrow> n \<in> cap_set (cap_effective (current_cred s))) \<Longrightarrow>
      step_ok s (snd (g b s2))"
  shows "step_ok s (snd (case_prod g (capable ops s1 n)))"
proof (cases "capable ops s1 n")
  case (Pair b s2)
  then have "same_task s s2"
    using capable_same_task assms(1,2) same_task_trans by blast
  moreover have "b \<longrightarrow> n \<in> cap_set (cap_effective (current_cred s))"
    using Pair capable_effective [of s1 n s2] assms(1,2) by (simp add: same_task_def)
  ultimately show ?thesis using Pair assms(3) by simp
qed

lemma step_or_capable:
  assumes "same_task s s1" "cap_valid n"
    and "\<And>b s2. same_task s s2 \<Longrightarrow> (b \<longrightarrow> a \<or> n \<in> cap_set (cap_effective (current_cred s))) \<Longrightarrow>
      step_ok s (snd (g b s2))"
  shows "step_ok s (snd (case_prod g (or_capable ops s1 a n)))"
  unfolding or_capable_def
  using assms step_capable [OF assms(1,2), of g] by simp

lemma step_assign:
  assumes "same_task s s1" "cap_valid n"
    and "\<And>s2. same_task s s2 \<Longrightarrow> step_ok s (snd (f s2))"
    and "\<And>s2. same_task s s2 \<Longrightarrow> x = - 1 \<Longrightarrow> step_ok s (snd (g new s2))"
    and "\<And>s2. same_task s s2 \<Longrightarrow> x \<noteq> - 1 \<Longrightarrow> a \<or> n \<in> cap_set (cap_effective (current_cred s)) \<Longrightarrow>
      step_ok s (snd (g (upd new) s2))"
  shows "step_ok s (snd (case_prod (\<lambda>o' s2. case_option (f s2) (\<lambda>new'. g new' s2) o')
    (assign_id ops s1 x a n upd new)))"
proof (cases "assign_id ops s1 x a n upd new")
  case (Pair o' s2)
  then have "same_task s s2"
    using assign_id_same_task assms(1,2) same_task_trans by blast
  moreover have "new' = new \<and> x = - 1 \<or>
      new' = upd new \<and> x \<noteq> - 1 \<and> (a \<or> n \<in> cap_set (cap_effective (current_cred s)))"
    if "o' = Some new'" for new'
    using Pair that assign_id_edits [of s1 x a n upd new new' s2] assms(1,2)
    by (simp add: same_task_def)
  ultimately show ?thesis
    using Pair assms(3-5) by (cases o') auto
qed

lemma step_fix_setuid:
  assumes "same_task s s1" "no_gain (current_cred s) new"
  shows "step_ok s (snd (case_sum (\<lambda>e. (f e, abort_creds new1 s1)) (\<lambda>new'. (r, commit_creds new' s1))
    (so_task_fix_setuid ops cur new old flags)))"
  using assms no_gain_fix_setuid step_ok_commit step_abort
  by (cases "so_task_fix_setuid ops cur new old flags") auto

lemmas step_rules =
  step_prepare step_capable step_or_capable step_assign step_hook step_sum_if step_sum_Inl
  step_sum_Inr step_set_user step_fix_setuid step_if step_abort step_pair step_ok_commit no_gain_ids

lemmas step_simps = same_task_refl cap_valid_ids uids_def gids_def res_allowed_def

lemma setregid_step: "step_ok s (snd (sys_setregid ops env s r e))"
  unfolding sys_setregid_def Let_def
  by (intro step_rules) (auto simp: step_simps split: if_splits)

lemma setgid_step: "step_ok s (snd (sys_setgid ops env s g))"
  unfolding sys_setgid_def Let_def
  by (intro step_rules) (auto simp: step_simps)

lemma setreuid_step: "step_ok s (snd (sys_setreuid ops env s r e))"
  unfolding sys_setreuid_def Let_def
  by (intro step_rules) (auto simp: step_simps split: if_splits)

lemma setuid_step: "step_ok s (snd (sys_setuid ops env s u))"
  unfolding sys_setuid_def Let_def
  by (intro step_rules) (auto simp: step_simps split: if_splits)

lemma setresuid_step: "step_ok s (snd (sys_setresuid ops env s r e sv))"
  unfolding sys_setresuid_def Let_def
  by (intro step_rules) (auto simp: step_simps split: if_splits)

lemma setresgid_step: "step_ok s (snd (sys_setresgid ops env s r e sv))"
  unfolding sys_setresgid_def Let_def
  by (intro step_rules) (auto simp: step_simps split: if_splits)

lemma setfsuid_step: "step_ok s (snd (sys_setfsuid ops env s u))"
  unfolding sys_setfsuid_def Let_def
  by (intro step_rules) (auto simp: step_simps split: if_splits)

lemma setfsgid_step: "step_ok s (snd (sys_setfsgid ops env s g))"
  unfolding sys_setfsgid_def Let_def
  by (intro step_rules) (auto simp: step_simps split: if_splits)

lemma step_set_groups:
  assumes "\<And>e. step_ok s (snd (f e))" "step_ok s (snd (g (new\<lparr>group_info := groups_sort gi\<rparr>)))"
  shows "step_ok s (snd (case_sum f g (set_groups ops new gi)))"
  using assms by (cases "so_task_setgroups ops gi") (auto simp: set_groups_def)

lemma set_current_groups_step:
  assumes "same_task s s0" "CAP_SETGID \<in> cap_set (cap_effective (current_cred s))"
  shows "step_ok s (snd (set_current_groups ops env s0 gi))"
  unfolding set_current_groups_def
  by (intro step_rules step_set_groups) (use assms in \<open>auto simp: step_simps\<close>)

lemma setgroups_step: "step_ok s (snd (sys_setgroups ops env s n gl))"
  unfolding sys_setgroups_def
proof (rule step_capable [OF same_task_refl])
  fix b s2
  assume s2: "same_task s s2" "b \<longrightarrow> CAP_SETGID \<in> cap_set (cap_effective (current_cred s))"
  then show "step_ok s (snd (if \<not> b then (Inl EPERM, s2)
      else if unat n > NGROUPS_MAX then (Inl EINVAL, s2)
      else case groups_alloc (kmalloc_ok env) (page_ok env) (junk env) (unat n) of
        None \<Rightarrow> (Inl ENOMEM, s2)
      | Some gi \<Rightarrow> (case groups_from_user gi gl of
          Inl e \<Rightarrow> (Inl e, s2) | Inr gi1 \<Rightarrow> set_current_groups ops env s2 gi1)))"
    by (auto intro: same_task_step_ok set_current_groups_step split: option.split sum.split)
qed (simp add: cap_valid_ids)

lemma no_gain_capset:
  assumes "so_capset ops cur (c\<lparr>cred_id := i\<rparr>) c e inh p = Inr new'"
  shows "no_gain c new'"
  using capset_edits [OF assms]
  by (auto simp: no_gain_def locks_kept_def caps_ok_def uids_def gids_def cap_abs)

lemma capset_commit_step:
  assumes "prepare_creds env s = Some (new, s1)"
  shows "step_ok s (snd (snd (case so_capset ops (current_cred s1) new (current_cred s1) e i p of
        Inl er \<Rightarrow> (Inl er, h, abort_creds new s1)
      | Inr new1 \<Rightarrow> (Inr (), h, commit_creds new1 s1))))"
proof -
  note P = prepare_creds_SomeD [OF assms]
  show ?thesis
  proof (cases "so_capset ops (current_cred s1) new (current_cred s1) e i p")
    case (Inl er)
    with P show ?thesis by (simp add: step_abort)
  next
    case (Inr new1)
    with P have "no_gain (current_cred s) new1" by (auto intro: no_gain_capset)
    with P Inr show ?thesis by (simp add: step_ok_commit)
  qed
qed

lemma capset_step: "step_ok s (snd (snd (sys_capset ops env s h d)))"
  by (simp add: sys_capset_def same_task_step_ok same_task_refl Let_def capset_commit_step
      split: sum.split prod.split option.split)

end

subsection \<open>Secure bits\<close>

lemma issecure_mask_bit [word_bits]: "bit (issecure_mask k) n \<longleftrightarrow> n = k \<and> k < 32"
  by (simp add: issecure_mask_def word_bits)

lemma issecure_bit: "k < 32 \<Longrightarrow> issecure c k \<longleftrightarrow> bit (securebits c) k"
  by (auto simp: issecure_def word_zero_iff_bits word_bits)

lemma SECURE_ALL_BITS_bit [word_bits]: "bit SECURE_ALL_BITS n \<longleftrightarrow> n \<in> {0, 2, 4}"
  by (auto simp: SECURE_ALL_BITS_def word_bits secure_numbers)

lemma SECURE_ALL_LOCKS_bit [word_bits]: "bit SECURE_ALL_LOCKS n \<longleftrightarrow> n \<in> {1, 3, 5}"
  unfolding SECURE_ALL_LOCKS_def bit_push_bit_iff SECURE_ALL_BITS_bit by auto

lemma securebits_accepted_locks:
  assumes "\<not> securebits_refused cur new arg2" "securebits new = securebits c" "k \<in> {0, 2, 4}"
  shows "locks_kept c (new\<lparr>securebits := arg2\<rparr>) k"
proof -
  have z: "drop_bit 1 (securebits c AND SECURE_ALL_LOCKS) AND (securebits c XOR arg2) = 0"
    "securebits c AND SECURE_ALL_LOCKS AND NOT arg2 = 0"
    using assms by (simp_all add: securebits_refused_def)
  show ?thesis
    unfolding locks_kept_def
  proof
    assume lock: "bit (securebits c) (Suc k)"
    have "\<not> bit (drop_bit 1 (securebits c AND SECURE_ALL_LOCKS) AND (securebits c XOR arg2)) k"
      "\<not> bit (securebits c AND SECURE_ALL_LOCKS AND NOT arg2) (Suc k)"
      unfolding z by simp_all
    with lock have "bit arg2 k = bit (securebits c) k" "bit arg2 (Suc k)"
      using assms(3) by (auto simp: bit_drop_bit_eq word_bits)
    then show "bit (securebits (new\<lparr>securebits := arg2\<rparr>)) (Suc k) \<and>
        bit (securebits (new\<lparr>securebits := arg2\<rparr>)) k = bit (securebits c) k"
      by simp
  qed
qed

lemma no_gain_securebits:
  assumes "\<And>k. k \<in> {0, 2, 4} \<Longrightarrow> locks_kept c (c\<lparr>cred_id := i, securebits := b\<rparr>) k"
  shows "no_gain c (c\<lparr>cred_id := i, securebits := b\<rparr>)"
  using assms
  by (auto simp: no_gain_def caps_ok_def uids_def gids_def cap_abs secure_numbers)

lemma no_gain_bset:
  "f < 64 \<Longrightarrow> no_gain c (c\<lparr>cred_id := i, cap_bset := cap_lower (cap_bset c) f\<rparr>)"
  by (auto simp: no_gain_def caps_ok_def uids_def gids_def cap_abs locks_kept_def)

lemma keep_caps_locks:
  assumes "\<not> issecure c SECURE_KEEP_CAPS_LOCKED" "k \<in> {0, 2, 4}"
    and "b = securebits c OR issecure_mask SECURE_KEEP_CAPS \<or>
      b = securebits c AND NOT (issecure_mask SECURE_KEEP_CAPS)"
  shows "locks_kept c (c\<lparr>cred_id := i, securebits := b\<rparr>) k"
  using assms by (auto simp: locks_kept_def issecure_bit secure_numbers word_bits)

context lsm
begin

lemma prctl_drop_ok:
  assumes "same_task s s0" "cap_prctl_drop ops s0 ((current_cred s)\<lparr>cred_id := i\<rparr>) n = (r, s2)"
  shows "same_task s s2" "r = Inr new' \<Longrightarrow> no_gain (current_cred s) new'"
  using assms capable_same_task [of ops s0 CAP_SETPCAP] same_task_trans [of s s0 s2]
  by (auto simp: cap_prctl_drop_def cap_valid_ids no_gain_bset cap_valid_64 split: prod.splits if_splits)

lemma prctl_switch_ok:
  assumes "same_task s s0"
    and "cap_prctl_switch cfg ops s0 ((current_cred s)\<lparr>cred_id := i\<rparr>) opt arg2 = (ex, s2)"
  shows "same_task s s2 \<and> (\<forall>new'. ex = Changed new' \<longrightarrow> no_gain (current_cred s) new')"
proof -
  have c: "current_cred s0 = current_cred s" using assms(1) by (simp add: same_task_def)
  have sb: "no_gain (current_cred s) (current_cred s\<lparr>cred_id := i, securebits := arg2\<rparr>)"
    if "\<not> securebits_refused (current_cred s) (current_cred s\<lparr>cred_id := i\<rparr>) arg2"
    using that securebits_accepted_locks [of "current_cred s" "current_cred s\<lparr>cred_id := i\<rparr>" arg2]
    by (intro no_gain_securebits) simp
  have kc: "no_gain (current_cred s) (current_cred s\<lparr>cred_id := i, securebits := b\<rparr>)"
    if "\<not> issecure (current_cred s) SECURE_KEEP_CAPS_LOCKED"
      "b = securebits (current_cred s) OR issecure_mask SECURE_KEEP_CAPS \<or>
       b = securebits (current_cred s) AND NOT (issecure_mask SECURE_KEEP_CAPS)" for b
    using keep_caps_locks [OF that(1) _ that(2)] by (intro no_gain_securebits)
  show ?thesis
    using assms(2) prctl_drop_ok [OF assms(1)] sb kc assms(1)
    unfolding cap_prctl_switch_def c
    by (auto split: if_splits sum.splits prod.splits)
qed

lemma cap_prctl_step: "step_ok s (snd (cap_task_prctl cfg ops env s opt arg2))"
proof (cases "prepare_creds env s")
  case None
  then show ?thesis by (simp add: cap_task_prctl_def same_task_step_ok same_task_refl)
next
  case (Some p)
  then have p: "same_task s (snd p)" "fst p = (current_cred s)\<lparr>cred_id := next_cred s\<rparr>"
    using prepare_creds_SomeD [of env s "fst p" "snd p"] by simp_all
  obtain ex s2 where sw: "cap_prctl_switch cfg ops (snd p) (fst p) opt arg2 = (ex, s2)" by fastforce
  with prctl_switch_ok [OF p(1)] p(2) have
    "same_task s s2 \<and> (\<forall>new'. ex = Changed new' \<longrightarrow> no_gain (current_cred s) new')" by simp
  then show ?thesis
    using Some sw
    by (cases p; cases ex) (simp_all add: cap_task_prctl_def step_ok_commit step_abort)
qed

lemma cap_prctl_ENOSYS:
  assumes "cap_task_prctl cfg ops env s opt arg2 = (Inl e, s1)"
  shows "same_task s s1"
proof (cases "prepare_creds env s")
  case None
  with assms show ?thesis by (simp add: cap_task_prctl_def same_task_refl)
next
  case (Some p)
  then have p: "same_task s (snd p)" "fst p = (current_cred s)\<lparr>cred_id := next_cred s\<rparr>"
    using prepare_creds_SomeD [of env s "fst p" "snd p"] by simp_all
  obtain ex s2 where sw: "cap_prctl_switch cfg ops (snd p) (fst p) opt arg2 = (ex, s2)" by fastforce
  with prctl_switch_ok [OF p(1)] p(2) have "same_task s s2" by simp
  with assms Some sw show ?thesis
    by (cases p; cases ex) (simp_all add: cap_task_prctl_def abort_creds_def)
qed

lemma same_task_if:
  "same_task s (snd x) \<Longrightarrow> same_task s (snd y) \<Longrightarrow> same_task s (snd (if b then x else y))"
  by simp

lemma same_task_current:
  "cred t = current_cred s \<Longrightarrow> real_cred t = real_cred (current s) \<Longrightarrow> pid t = pid (current s) \<Longrightarrow>
    same_task s (s\<lparr>current := t\<rparr>)"
  by (simp add: same_task_def)

lemma prctl_generic_same_task: "same_task s (snd (prctl_generic s opt arg2 str w))"
  unfolding prctl_generic_def Let_def
  by (intro same_task_if) (auto simp: same_task_refl frame split: option.split intro!: same_task_current)

lemma prctl_step: "step_ok s (snd (sys_prctl cfg ops env s opt arg2 str w))"
proof -
  obtain r s1 where r: "cap_task_prctl cfg ops env s opt arg2 = (r, s1)" by fastforce
  show ?thesis
  proof (cases r)
    case (Inr v)
    with r cap_prctl_step [of s cfg env opt arg2] show ?thesis by (simp add: sys_prctl_def)
  next
    case (Inl e)
    with r have "same_task s s1" using cap_prctl_ENOSYS by blast
    then have "step_ok s s1" "step_ok s (snd (prctl_generic s1 opt arg2 str w))"
      using prctl_generic_same_task same_task_trans same_task_step_ok by blast+
    with r Inl show ?thesis by (simp add: sys_prctl_def)
  qed
qed

end

end
