(* ===== verification/Exec_Privilege.thy ===== *)
theory Exec_Privilege
  imports Privilege
begin

text \<open>
  What \<^verbatim>\<open>execve\<close> may do to the credentials of the task: the stages of
  \<^verbatim>\<open>cap_bprm_set_creds\<close>, one \<^verbatim>\<open>prepare_binprm\<close>, a chain of interpreters, and
  the whole of \<^verbatim>\<open>do_execve\<close>.
\<close>

section \<open>What execve may do to the credentials\<close>

text \<open>
  The credentials after \<^verbatim>\<open>execve\<close>, relative to those before: the bounding and inheritable sets, the
  real ids and the supplementary groups stay, the permitted set is within bounding plus
  inheritable, and the secure bits only lose \<^verbatim>\<open>KEEP_CAPS\<close>.
\<close>

definition exec_frame :: "cred \<Rightarrow> cred \<Rightarrow> bool" where
  "exec_frame c c' \<longleftrightarrow> cap_bset c' = cap_bset c \<and> cap_inheritable c' = cap_inheritable c \<and>
     uid c' = uid c \<and> gid c' = gid c \<and> group_info c' = group_info c \<and> user c' = user c"

lemma vfs_caps_fold:
  "fold (vfs_caps_round caps) [0, 1] (new, Inr ()) =
    (let P = cap_combine (cap_intersect (cap_bset new) (vc_permitted caps))
               (cap_intersect (cap_inheritable new) (vc_inheritable caps))
     in (new\<lparr>cap_permitted := P\<rparr>,
         if cap_issubset (vc_permitted caps) P then Inr () else Inl EPERM))"
  by (cases "cap_permitted new")
    (auto simp: vfs_caps_round_def Let_def cap_word_def set_cap_word_def cap_combine_def
      cap_intersect_def cap_issubset_def cap_isclear_def cap_drop_def)

lemma get_file_caps_frame:
  assumes "get_file_caps cfg bprm eff = (r, bprm', eff')"
  shows "exec_frame (b_cred bprm) (b_cred bprm')"
    "cap_effective (b_cred bprm') = cap_effective (b_cred bprm)"
    "securebits (b_cred bprm') = securebits (b_cred bprm)"
    "euid (b_cred bprm') = euid (b_cred bprm)" "egid (b_cred bprm') = egid (b_cred bprm)"
    "b_unsafe bprm' = b_unsafe bprm"
    "cap_issubset (cap_permitted (b_cred bprm'))
       (cap_combine (cap_bset (b_cred bprm)) (cap_inheritable (b_cred bprm)))"
  using assms unfolding exec_frame_def get_file_caps_def bprm_caps_from_vfs_caps_def vfs_caps_fold
  by (auto simp: Let_def bprm_clear_caps_def kcap.none_least kcap.exec_formula_below
      split: if_splits sum.splits)

lemma root_override_frame:
  assumes "bprm_root_override old new eff = (new', eff')"
  shows "exec_frame new new'" "cap_effective new' = cap_effective new"
    "securebits new' = securebits new" "euid new' = euid new" "egid new' = egid new"
    "cap_permitted new' = cap_permitted new \<or> (euid new = 0 \<or> uid new = 0) \<and>
      cap_permitted new' = cap_combine (cap_bset old) (cap_inheritable old)"
  using assms by (auto simp: bprm_root_override_def exec_frame_def split: if_splits)

context lsm
begin

lemma limit_ptraced_same_task:
  "cap_limit_ptraced_target cfg ops s = (b, s') \<Longrightarrow> same_task s s'"
  by (auto simp: cap_limit_ptraced_target_def same_task_refl cap_valid_ids
      split: if_splits prod.splits intro: capable_same_task)

lemma downgrade_same_task:
  assumes "bprm_downgrade cfg ops s unsafe old new = (new', s')"
  shows "same_task s s'"
proof -
  obtain b1 s1 where c: "capable ops s CAP_SETUID = (b1, s1)" by fastforce
  obtain b2 s2 where l: "cap_limit_ptraced_target cfg ops s1 = (b2, s2)" by fastforce
  have "same_task s s2"
    using capable_same_task [OF c] limit_ptraced_same_task [OF l] same_task_trans cap_valid_ids
    by blast
  with assms c l show ?thesis
    by (auto simp: bprm_downgrade_def Let_def same_task_refl split: if_splits)
qed

end

lemma downgrade_frame:
  assumes "bprm_downgrade cfg ops s unsafe old new = (new', s')"
  shows "exec_frame new new'" "cap_effective new' = cap_effective new"
    "securebits new' = securebits new"
    "euid new' = euid new \<or> euid new' = uid new" "egid new' = egid new \<or> egid new' = gid new"
    "cap_issubset (cap_permitted new') (cap_permitted new)"
proof -
  obtain b1 s1 where c: "capable ops s CAP_SETUID = (b1, s1)" by fastforce
  obtain b2 s2 where l: "cap_limit_ptraced_target cfg ops s1 = (b2, s2)" by fastforce
  have new': "new' = new \<or> new' = new\<lparr>euid := uid new, egid := gid new\<rparr> \<or>
      new' = new\<lparr>cap_permitted := cap_intersect (cap_permitted new) (cap_permitted old)\<rparr> \<or>
      new' = new\<lparr>euid := uid new, egid := gid new,
        cap_permitted := cap_intersect (cap_permitted new) (cap_permitted old)\<rparr>"
    using assms c l by (auto simp: bprm_downgrade_def Let_def split: if_splits)
  show "exec_frame new new'" using new' by (auto simp: exec_frame_def)
  show "cap_effective new' = cap_effective new" using new' by auto
  show "securebits new' = securebits new" using new' by auto
  show "euid new' = euid new \<or> euid new' = uid new" using new' by auto
  show "egid new' = egid new \<or> egid new' = gid new" using new' by auto
  show "cap_issubset (cap_permitted new') (cap_permitted new)" using new' by (auto simp: cap_abs)
qed

text \<open>The last steps of \<^verbatim>\<open>cap_bprm_set_creds\<close>: ids follow euid and egid, then the effective set.\<close>

definition exec_finish :: "bool \<Rightarrow> bool \<Rightarrow> cred \<Rightarrow> cred" where
  "exec_finish init eff c = c\<lparr>suid := euid c, fsuid := euid c, sgid := egid c, fsgid := egid c,
     cap_effective := (if init then cap_effective c else if eff then cap_permitted c else CAP_EMPTY_SET),
     securebits := securebits c AND NOT (issecure_mask SECURE_KEEP_CAPS)\<rparr>"

lemma bprm_set_creds_stages:
  assumes "cap_bprm_set_creds cfg ops s bprm = (Inr u, bprm', s')"
  obtains bprm1 eff1 new1 eff2 new2 where
    "get_file_caps cfg bprm False = (Inr (), bprm1, eff1)"
    "bprm_root_override (current_cred s) (b_cred bprm1) eff1 = (new1, eff2)"
    "bprm_downgrade cfg ops s (b_unsafe bprm1) (current_cred s) new1 = (new2, s')"
    "b_cred bprm' = exec_finish (is_global_init (current s')) eff2 new2"
    "b_cap_effective bprm' = eff2"
proof -
  obtain r bprm1 eff1 where 1: "get_file_caps cfg bprm False = (r, bprm1, eff1)"
    by (metis surj_pair)
  obtain new1 eff2 where 2: "bprm_root_override (current_cred s) (b_cred bprm1) eff1 = (new1, eff2)"
    by (metis surj_pair)
  obtain new2 s2 where 3: "bprm_downgrade cfg ops s (b_unsafe bprm1) (current_cred s) new1 = (new2, s2)"
    by (metis surj_pair)
  from assms 1 have r: "r = Inr ()" by (cases r) (auto simp: cap_bprm_set_creds_def Let_def)
  show thesis
    using that [OF 1 [unfolded r] 2] 3 assms 1 2
    by (auto simp: r cap_bprm_set_creds_def Let_def exec_finish_def)
qed

lemma exec_frame_trans: "exec_frame a b \<Longrightarrow> exec_frame b c \<Longrightarrow> exec_frame a c"
  by (simp add: exec_frame_def)

lemma exec_frame_finish: "exec_frame c (exec_finish init eff c)"
  by (simp add: exec_frame_def exec_finish_def)

lemma exec_finish_effective:
  "cap_effective (exec_finish init eff c) =
    (if init then cap_effective c else if eff then cap_permitted c else CAP_EMPTY_SET)"
  "cap_permitted (exec_finish init eff c) = cap_permitted c"
  by (simp_all add: exec_finish_def)

lemma exec_finish_ids:
  "uids (exec_finish init eff c) = {uid c, euid c}" "gids (exec_finish init eff c) = {gid c, egid c}"
  by (auto simp: exec_finish_def uids_def gids_def)

lemma bprm_set_creds_result:
  assumes run: "cap_bprm_set_creds cfg ops s bprm = (Inr u, bprm', s')"
    and c: "cap_bset (b_cred bprm) = cap_bset (current_cred s)"
      "cap_inheritable (b_cred bprm) = cap_inheritable (current_cred s)"
  shows "exec_frame (b_cred bprm) (b_cred bprm')"
    and "cap_issubset (cap_permitted (b_cred bprm'))
      (cap_combine (cap_bset (current_cred s)) (cap_inheritable (current_cred s)))"
    and "securebits (b_cred bprm') = securebits (b_cred bprm) AND NOT (issecure_mask SECURE_KEEP_CAPS)"
    and "uids (b_cred bprm') \<subseteq> {uid (b_cred bprm), euid (b_cred bprm)}"
    and "gids (b_cred bprm') \<subseteq> {gid (b_cred bprm), egid (b_cred bprm)}"
    and "cap_effective (b_cred bprm') = CAP_EMPTY_SET \<or>
      cap_effective (b_cred bprm') = cap_permitted (b_cred bprm') \<or>
      is_global_init (current s') \<and> cap_effective (b_cred bprm') = cap_effective (b_cred bprm)"
proof -
  from run obtain bprm1 eff1 new1 eff2 new2 where st:
    "get_file_caps cfg bprm False = (Inr (), bprm1, eff1)"
    "bprm_root_override (current_cred s) (b_cred bprm1) eff1 = (new1, eff2)"
    "bprm_downgrade cfg ops s (b_unsafe bprm1) (current_cred s) new1 = (new2, s')"
    "b_cred bprm' = exec_finish (is_global_init (current s')) eff2 new2"
    by (rule bprm_set_creds_stages)
  note f1 = get_file_caps_frame [OF st(1)] and f2 = root_override_frame [OF st(2)]
    and f3 = downgrade_frame [OF st(3)]
  have fr: "exec_frame (b_cred bprm) new2"
    using f1(1) f2(1) f3(1) by (blast intro: exec_frame_trans)
  show "exec_frame (b_cred bprm) (b_cred bprm')"
    unfolding st(4) using fr exec_frame_finish by (rule exec_frame_trans)
  show "securebits (b_cred bprm') = securebits (b_cred bprm) AND NOT (issecure_mask SECURE_KEEP_CAPS)"
    using f1(3) f2(3) f3(3) by (simp add: st(4) exec_finish_def)
  have "cap_issubset (cap_permitted new1)
      (cap_combine (cap_bset (current_cred s)) (cap_inheritable (current_cred s)))"
    using f1(7) f2(6) c kcap.issubset_refl by metis
  then show "cap_issubset (cap_permitted (b_cred bprm'))
      (cap_combine (cap_bset (current_cred s)) (cap_inheritable (current_cred s)))"
    using f3(6) kcap.issubset_trans by (auto simp: st(4) exec_finish_effective)
  have u: "uid new1 = uid (b_cred bprm)" "uid new2 = uid (b_cred bprm)"
    "gid new1 = gid (b_cred bprm)" "gid new2 = gid (b_cred bprm)"
    using f1(1) f2(1) f3(1) by (simp_all add: exec_frame_def)
  show "uids (b_cred bprm') \<subseteq> {uid (b_cred bprm), euid (b_cred bprm)}"
    "gids (b_cred bprm') \<subseteq> {gid (b_cred bprm), egid (b_cred bprm)}"
    using f1(4,5) f2(4,5) f3(4,5) u by (auto simp: st(4) exec_finish_ids)
  show "cap_effective (b_cred bprm') = CAP_EMPTY_SET \<or>
      cap_effective (b_cred bprm') = cap_permitted (b_cred bprm') \<or>
      is_global_init (current s') \<and> cap_effective (b_cred bprm') = cap_effective (b_cred bprm)"
    using f1(2) f2(2) f3(2) by (auto simp: st(4) exec_finish_effective)
qed

text \<open>For the init process the effective set is left alone.\<close>

lemma bprm_set_creds_init:
  assumes "cap_bprm_set_creds cfg ops s bprm = (Inr u, bprm', s')" "is_global_init (current s')"
  shows "cap_effective (b_cred bprm') = cap_effective (b_cred bprm)"
  using assms(1)
proof (rule bprm_set_creds_stages)
  fix bprm1 eff1 new1 eff2 new2
  assume "get_file_caps cfg bprm False = (Inr (), bprm1, eff1)"
    "bprm_root_override (current_cred s) (b_cred bprm1) eff1 = (new1, eff2)"
    "bprm_downgrade cfg ops s (b_unsafe bprm1) (current_cred s) new1 = (new2, s')"
    "b_cred bprm' = exec_finish (is_global_init (current s')) eff2 new2"
  with assms(2) show ?thesis
    using get_file_caps_frame(2) root_override_frame(2) downgrade_frame(2)
    by (metis exec_finish_effective(1))
qed

text \<open>A file without capabilities, run by a task with neither real nor effective uid 0, gets none.\<close>

lemma bprm_set_creds_plain:
  assumes run: "cap_bprm_set_creds cfg ops s bprm = (Inr u, bprm', s')"
    and plain: "mnt_nosuid (b_file bprm) \<or> get_vfs_caps_from_disk cfg (f_inode (b_file bprm)) = Inl ENODATA"
    and "uid (b_cred bprm) \<noteq> 0" "euid (b_cred bprm) \<noteq> 0"
  shows "cap_permitted (b_cred bprm') = CAP_EMPTY_SET"
proof -
  from run obtain bprm1 eff1 new1 eff2 new2 where st:
    "get_file_caps cfg bprm False = (Inr (), bprm1, eff1)"
    "bprm_root_override (current_cred s) (b_cred bprm1) eff1 = (new1, eff2)"
    "bprm_downgrade cfg ops s (b_unsafe bprm1) (current_cred s) new1 = (new2, s')"
    "b_cred bprm' = exec_finish (is_global_init (current s')) eff2 new2"
    by (rule bprm_set_creds_stages)
  have "cap_permitted (b_cred bprm1) = CAP_EMPTY_SET"
    using st(1) plain by (auto simp: get_file_caps_def bprm_clear_caps_def Let_def split: if_splits)
  moreover have "uid (b_cred bprm1) \<noteq> 0" "euid (b_cred bprm1) \<noteq> 0"
    using get_file_caps_frame [OF st(1)] assms(3,4) by (simp_all add: exec_frame_def)
  ultimately have "cap_permitted new1 = CAP_EMPTY_SET"
    using root_override_frame [OF st(2)] by simp
  then show ?thesis
    using downgrade_frame(6) [OF st(3)] kcap.below_none by (simp add: st(4) exec_finish_effective)
qed

subsection \<open>One round of \<^verbatim>\<open>prepare_binprm\<close>\<close>

definition plain_image :: "kconfig \<Rightarrow> exec_image \<Rightarrow> bool" where
  "plain_image cfg im \<longleftrightarrow> mnt_nosuid (im_file im) \<or>
     x_mode (im_inode im) AND S_ISUID = 0 \<and>
     x_mode (im_inode im) AND (S_ISGID OR S_IXGRP) \<noteq> S_ISGID OR S_IXGRP \<and>
     get_vfs_caps_from_disk cfg (f_inode (im_file im)) = Inl ENODATA"

text \<open>What a binary parameter block satisfies before and after each round of the chain.\<close>

definition exec_pre :: "kernel \<Rightarrow> linux_binprm \<Rightarrow> bool" where
  "exec_pre s bprm \<longleftrightarrow> exec_frame (current_cred s) (b_cred bprm) \<and>
     securebits (b_cred bprm) AND NOT (issecure_mask SECURE_KEEP_CAPS) =
       securebits (current_cred s) AND NOT (issecure_mask SECURE_KEEP_CAPS) \<and>
     (is_global_init (current s) \<longrightarrow> cap_effective (b_cred bprm) = cap_effective (current_cred s))"

definition exec_post :: "kconfig \<Rightarrow> kernel \<Rightarrow> exec_image \<Rightarrow> linux_binprm \<Rightarrow> bool" where
  "exec_post cfg s im bprm \<longleftrightarrow>
     cap_issubset (cap_permitted (b_cred bprm))
       (cap_combine (cap_bset (current_cred s)) (cap_inheritable (current_cred s))) \<and>
     securebits (b_cred bprm) =
       securebits (current_cred s) AND NOT (issecure_mask SECURE_KEEP_CAPS) \<and>
     (cap_effective (b_cred bprm) = CAP_EMPTY_SET \<or>
      cap_effective (b_cred bprm) = cap_permitted (b_cred bprm) \<or>
      is_global_init (current s) \<and> cap_effective (b_cred bprm) = cap_effective (current_cred s)) \<and>
     (plain_image cfg im \<longrightarrow>
        uids (b_cred bprm) \<subseteq> uids (current_cred s) \<and> gids (b_cred bprm) \<subseteq> gids (current_cred s) \<and>
        (0 \<notin> uids (current_cred s) \<longrightarrow> cap_permitted (b_cred bprm) = CAP_EMPTY_SET))"

text \<open>What any \<^verbatim>\<open>execve\<close> does to the credentials.\<close>

definition exec_ok :: "kconfig \<Rightarrow> exec_image list \<Rightarrow> kernel \<Rightarrow> kernel \<Rightarrow> bool" where
  "exec_ok cfg ims s s' \<longleftrightarrow>
     sane s' \<and> pid (current s') = pid (current s) \<and> other_processes s' = other_processes s \<and>
     (current_cred s' = current_cred s \<or>
      (\<exists>bprm. b_cred bprm = current_cred s' \<and> exec_pre s bprm \<and> exec_post cfg s (last ims) bprm))"

lemma same_task_exec:
  assumes "same_task s s'"
  shows "exec_pre s' = exec_pre s" "exec_post cfg s' = exec_post cfg s"
  using assms by (simp_all add: same_task_def exec_pre_def exec_post_def is_global_init_def fun_eq_iff)

lemma binprm_ids_frame:
  "exec_frame (b_cred bprm) (binprm_ids s inode bprm)"
  "cap_effective (binprm_ids s inode bprm) = cap_effective (b_cred bprm)"
  "securebits (binprm_ids s inode bprm) = securebits (b_cred bprm)"
  by (auto simp: binprm_ids_def Let_def exec_frame_def)

lemma binprm_ids_plain:
  assumes "plain_image cfg im" "b_file bprm = im_file im"
  shows "euid (binprm_ids s (im_inode im) bprm) = euid (current_cred s)"
    "egid (binprm_ids s (im_inode im) bprm) = egid (current_cred s)"
  using assms by (auto simp: binprm_ids_def Let_def plain_image_def)

context lsm
begin

lemma bprm_set_creds_same_task:
  assumes "cap_bprm_set_creds cfg ops s bprm = (r, bprm', s')"
  shows "same_task s s'"
proof (cases r)
  case (Inr u)
  with assms have "cap_bprm_set_creds cfg ops s bprm = (Inr u, bprm', s')" by simp
  then show ?thesis
    by (rule bprm_set_creds_stages) (blast intro: downgrade_same_task)
next
  case (Inl e)
  with assms show ?thesis
    by (auto simp: cap_bprm_set_creds_def Let_def same_task_refl split: sum.splits prod.splits)
qed

lemma prepare_binprm_same_task:
  "prepare_binprm cfg ops s im bprm = (r, bprm', s') \<Longrightarrow> same_task s s'"
  by (auto simp: prepare_binprm_def Let_def same_task_refl split: if_splits
      intro: bprm_set_creds_same_task)

lemma prepare_binprm_result:
  assumes run: "prepare_binprm cfg ops s im bprm = (Inr u, bprm', s')" and pre: "exec_pre s bprm"
  shows "exec_pre s bprm' \<and> exec_post cfg s im bprm'"
proof -
  define b where "b = bprm\<lparr>b_file := im_file im,
    b_cred := binprm_ids s (im_inode im) (bprm\<lparr>b_file := im_file im\<rparr>)\<rparr>"
  from run have set: "cap_bprm_set_creds cfg ops s b = (Inr u, bprm', s')"
    by (auto simp: prepare_binprm_def Let_def b_def split: if_splits)
  have st: "same_task s s'" using set by (rule bprm_set_creds_same_task)
  have fr: "exec_frame (current_cred s) (b_cred b)"
    using binprm_ids_frame(1) [of "bprm\<lparr>b_file := im_file im\<rparr>" s "im_inode im"] pre
    by (simp add: b_def exec_pre_def exec_frame_def)
  have b: "securebits (b_cred b) = securebits (b_cred bprm)"
    "cap_effective (b_cred b) = cap_effective (b_cred bprm)" "b_file b = im_file im"
    by (simp_all add: b_def binprm_ids_frame)
  have c: "cap_bset (b_cred b) = cap_bset (current_cred s)"
    "cap_inheritable (b_cred b) = cap_inheritable (current_cred s)"
    "uid (b_cred b) = uid (current_cred s)" "gid (b_cred b) = gid (current_cred s)"
    using fr by (simp_all add: exec_frame_def)
  note res = bprm_set_creds_result [OF set c(1,2)]
  have sb: "securebits (b_cred bprm') =
      securebits (current_cred s) AND NOT (issecure_mask SECURE_KEEP_CAPS)"
    using res(3) pre b(1) by (simp add: exec_pre_def)
  have init: "is_global_init (current s') = is_global_init (current s)"
    using st by (simp add: same_task_def is_global_init_def)
  have "is_global_init (current s) \<Longrightarrow> cap_effective (b_cred bprm') = cap_effective (current_cred s)"
    using bprm_set_creds_init [OF set] b(2) pre by (simp add: exec_pre_def init)
  then have "exec_pre s bprm'"
    using res(1) fr sb
    by (auto simp: exec_pre_def exec_frame_def and.assoc)
  moreover have "uids (b_cred bprm') \<subseteq> uids (current_cred s) \<and> gids (b_cred bprm') \<subseteq> gids (current_cred s) \<and>
      (0 \<notin> uids (current_cred s) \<longrightarrow> cap_permitted (b_cred bprm') = CAP_EMPTY_SET)"
    if pl: "plain_image cfg im"
  proof -
    have e: "euid (b_cred b) = euid (current_cred s)" "egid (b_cred b) = egid (current_cred s)"
      using binprm_ids_plain [OF pl, of "bprm\<lparr>b_file := im_file im\<rparr>" s] by (simp_all add: b_def)
    have "0 \<notin> uids (current_cred s) \<Longrightarrow> cap_permitted (b_cred bprm') = CAP_EMPTY_SET"
      using bprm_set_creds_plain [OF set] pl b(3) c(3) e by (auto simp: plain_image_def uids_def)
    then show ?thesis
      using res(4,5) c(3,4) e by (auto simp: uids_def gids_def)
  qed
  ultimately show ?thesis
    using res(2,6) sb init pre b(2) by (auto simp: exec_post_def exec_pre_def)
qed

text \<open>Over a chain of interpreters it is the last image that counts.\<close>

lemma prepare_chain_result:
  assumes "prepare_chain cfg ops s ims bprm = (r, bprm', s')" "exec_pre s bprm"
  shows "same_task s s' \<and>
    (r = Inr () \<longrightarrow> exec_pre s bprm' \<and> (ims \<noteq> [] \<longrightarrow> exec_post cfg s (last ims) bprm'))"
  using assms
proof (induction ims arbitrary: s bprm)
  case Nil
  then show ?case by (auto simp: same_task_refl)
next
  case (Cons im ims)
  obtain r1 bprm1 s1 where 1: "prepare_binprm cfg ops s im bprm = (r1, bprm1, s1)"
    by (metis surj_pair)
  have st: "same_task s s1" using 1 by (rule prepare_binprm_same_task)
  show ?case
  proof (cases r1)
    case (Inl e)
    with Cons.prems 1 st show ?thesis by auto
  next
    case (Inr u)
    with 1 have pp: "exec_pre s bprm1 \<and> exec_post cfg s im bprm1"
      using prepare_binprm_result Cons.prems(2) by blast
    then have "exec_pre s1 bprm1" by (simp add: same_task_exec [OF st])
    moreover have "prepare_chain cfg ops s1 ims bprm1 = (r, bprm', s')"
      using Cons.prems(1) 1 Inr by simp
    ultimately have ih: "same_task s1 s' \<and>
        (r = Inr () \<longrightarrow> exec_pre s1 bprm' \<and> (ims \<noteq> [] \<longrightarrow> exec_post cfg s1 (last ims) bprm'))"
      by (rule Cons.IH [rotated])
    show ?thesis
    proof (cases "ims = []")
      case True
      with Cons.prems(1) 1 Inr pp st show ?thesis by simp
    next
      case False
      with ih st same_task_trans show ?thesis by (auto simp: same_task_exec [OF st])
    qed
  qed
qed

subsection \<open>The whole call\<close>

lemma flush_same_task: "same_task s (flush_old_exec xe bprm s)"
  by (simp add: flush_old_exec_def Let_def same_task_def frame)

lemma unmark_same_task: "same_task s s' \<Longrightarrow> same_task s (unmark_exec b s')"
  by (simp add: unmark_exec_def same_task_def)

lemma commit_unmark:
  "sane s \<Longrightarrow> same_task s s' \<Longrightarrow>
    sane (unmark_exec b (commit_creds new s')) \<and>
    current_cred (unmark_exec b (commit_creds new s')) = new \<and>
    pid (current (unmark_exec b (commit_creds new s'))) = pid (current s) \<and>
    other_processes (unmark_exec b (commit_creds new s')) = other_processes s"
  using commit_other_processes [of s' new]
  by (simp add: unmark_exec_def sane_def same_task_def commit_creds_current other_processes_def
      fun_eq_iff)

lemma do_execve_cases:
  assumes run: "do_execve cfg ops env xe s ims = (r, s')" and ims: "ims \<noteq> []"
  obtains (unchanged) "same_task s s'"
  | (committed) bprm s3 where "r = Inr ()" "same_task s s3"
      "exec_pre s bprm" "exec_post cfg s (last ims) bprm"
      "s' = unmark_exec True (commit_creds (b_cred bprm) s3)"
proof (cases "prepare_creds env s")
  case None
  with run show ?thesis by (auto simp: do_execve_def same_task_refl intro: unchanged)
next
  case (Some p)
  obtain new s1 where p: "p = (new, s1)" by fastforce
  with Some have st1: "same_task s s1" and new: "new = (current_cred s)\<lparr>cred_id := next_cred s\<rparr>"
    using prepare_creds_SomeD [of env s new s1] by simp_all
  obtain cu fs where cu: "check_unsafe_exec xe (current_fs s1) = (cu, fs)" by fastforce
  let ?s2 = "s1\<lparr>current_fs := fs\<rparr>"
  have st2: "same_task s ?s2" using st1 by (simp add: same_task_def)
  show ?thesis
  proof (cases "\<exists>v. cu = Inr v \<and> xe_open xe = Inr ()")
    case False
    then have "same_task s s'"
      using run Some p cu st1 unmark_same_task [OF st2]
      by (cases cu; cases "xe_open xe") (auto simp: do_execve_def abort_creds_def)
    then show ?thesis by (rule unchanged)
  next
    case True
    then obtain cl unsafe where cu': "cu = Inr (cl, unsafe)" "xe_open xe = Inr ()" by fastforce
    define b where "b = \<lparr>b_cred = new, b_cap_effective = False, b_unsafe = unsafe,
      b_file = im_file (hd ims)\<rparr>"
    obtain r3 bprm s3 where ch: "prepare_chain cfg ops ?s2 ims b = (r3, bprm, s3)"
      by (metis surj_pair)
    have "exec_pre ?s2 b"
      unfolding same_task_exec(1) [OF st2] by (simp add: exec_pre_def exec_frame_def b_def new)
    from prepare_chain_result [OF ch this] have
      c: "same_task ?s2 s3" "r3 = Inr () \<Longrightarrow> exec_pre s bprm \<and> exec_post cfg s (last ims) bprm"
      using ims by (simp_all add: same_task_exec [OF st2])
    have st3: "same_task s s3" using st2 c(1) by (rule same_task_trans)
    show ?thesis
    proof (cases "r3 = Inr () \<and> xe_handler xe = Inr ()")
      case True
      have "r = Inr ()" "s' = unmark_exec True (commit_creds (b_cred bprm) (flush_old_exec xe bprm s3))"
        using run Some p cu cu' ch True
        by (auto simp: do_execve_def Let_def b_def install_exec_creds_def)
      with committed c(2) True st3 flush_same_task same_task_trans show ?thesis by blast
    next
      case False
      then have "s' = unmark_exec cl s3"
        using run Some p cu cu' ch
        by (cases r3; cases "xe_handler xe")
          (auto simp: do_execve_def Let_def b_def abort_creds_def)
      with unmark_same_task [OF st3] show ?thesis by (auto intro: unchanged)
    qed
  qed
qed

lemma do_execve_ok:
  assumes "ims \<noteq> []" "sane s"
  shows "exec_ok cfg ims s (snd (do_execve cfg ops env xe s ims))"
proof -
  obtain r s' where "do_execve cfg ops env xe s ims = (r, s')" by fastforce
  moreover from this assms(1) have "exec_ok cfg ims s s'"
  proof (cases rule: do_execve_cases)
    case unchanged
    with assms(2) show ?thesis
      by (simp add: exec_ok_def same_task_def sane_def other_processes_def fun_eq_iff)
  next
    case (committed bprm s3)
    with commit_unmark [OF assms(2) committed(2), of True "b_cred bprm"] show ?thesis
      by (auto simp: exec_ok_def)
  qed
  ultimately show ?thesis by simp
qed

end

end
