(* ===== verification/Identity_Runs.thy ===== *)
theory Identity_Runs
  imports Exec_Privilege
begin

text \<open>
  Sequences of identity system calls made by one task under the default security module: a step
  relation with one rule per system call, its reflexive closure over call lists, and the
  invariants of whole runs.  Every allocation may succeed or fail at every step.
\<close>

datatype id_call =
    Setregid gid_t gid_t
  | Setgid gid_t
  | Setreuid uid_t uid_t
  | Setuid uid_t
  | Setresuid uid_t uid_t uid_t
  | Setresgid gid_t gid_t gid_t
  | Setfsuid uid_t
  | Setfsgid gid_t
  | Setgroups u32 "gid_t list"
  | Capset cap_user_header "cap_user_data list"
  | Prctl int u32 "string option" bool
  | Execve exec_env "exec_image list"

inductive id_step :: "kconfig \<Rightarrow> kernel \<Rightarrow> id_call \<Rightarrow> kernel \<Rightarrow> bool" for cfg where
  setregid: "id_step cfg s (Setregid r e) (snd (sys_setregid (capability_ops cfg) env s r e))"
| setgid: "id_step cfg s (Setgid g) (snd (sys_setgid (capability_ops cfg) env s g))"
| setreuid: "id_step cfg s (Setreuid r e) (snd (sys_setreuid (capability_ops cfg) env s r e))"
| setuid: "id_step cfg s (Setuid u) (snd (sys_setuid (capability_ops cfg) env s u))"
| setresuid: "id_step cfg s (Setresuid r e v) (snd (sys_setresuid (capability_ops cfg) env s r e v))"
| setresgid: "id_step cfg s (Setresgid r e v) (snd (sys_setresgid (capability_ops cfg) env s r e v))"
| setfsuid: "id_step cfg s (Setfsuid u) (snd (sys_setfsuid (capability_ops cfg) env s u))"
| setfsgid: "id_step cfg s (Setfsgid g) (snd (sys_setfsgid (capability_ops cfg) env s g))"
| setgroups: "id_step cfg s (Setgroups n gl) (snd (sys_setgroups (capability_ops cfg) env s n gl))"
| capset: "id_step cfg s (Capset h d) (snd (snd (sys_capset (capability_ops cfg) env s h d)))"
| prctl: "id_step cfg s (Prctl opt arg2 str w)
    (snd (sys_prctl cfg (capability_ops cfg) env s opt arg2 str w))"
| execve: "ims \<noteq> [] \<Longrightarrow>
    id_step cfg s (Execve xe ims) (snd (do_execve cfg (capability_ops cfg) env xe s ims))"

inductive id_run :: "kconfig \<Rightarrow> kernel \<Rightarrow> id_call list \<Rightarrow> kernel \<Rightarrow> bool" for cfg where
  stop: "id_run cfg s [] s"
| call: "id_step cfg s x s1 \<Longrightarrow> id_run cfg s1 xs s' \<Longrightarrow> id_run cfg s (x # xs) s'"

inductive_cases id_step_execveE: "id_step cfg s (Execve xe ims) s'"
inductive_simps id_run_Nil [simp]: "id_run cfg s [] s'"
inductive_simps id_run_Cons: "id_run cfg s (x # xs) s'"

primrec plain_call :: "kconfig \<Rightarrow> id_call \<Rightarrow> bool" where
  "plain_call cfg (Setregid r e) = True"
| "plain_call cfg (Setgid g) = True"
| "plain_call cfg (Setreuid r e) = True"
| "plain_call cfg (Setuid u) = True"
| "plain_call cfg (Setresuid r e v) = True"
| "plain_call cfg (Setresgid r e v) = True"
| "plain_call cfg (Setfsuid u) = True"
| "plain_call cfg (Setfsgid g) = True"
| "plain_call cfg (Setgroups n gl) = True"
| "plain_call cfg (Capset h d) = True"
| "plain_call cfg (Prctl opt arg2 str w) = True"
| "plain_call cfg (Execve xe ims) = plain_image cfg (last ims)"

lemmas identity_steps =
  capability_lsm.setregid_step capability_lsm.setgid_step capability_lsm.setreuid_step
  capability_lsm.setuid_step capability_lsm.setresuid_step capability_lsm.setresgid_step
  capability_lsm.setfsuid_step capability_lsm.setfsgid_step capability_lsm.setgroups_step
  capability_lsm.capset_step capability_lsm.prctl_step

text \<open>One step is \<open>step_ok\<close>, or an \<^verbatim>\<open>execve\<close> that is \<open>exec_ok\<close>.\<close>

lemma id_step_sound:
  assumes "id_step cfg s x s'" "sane s"
  obtains (plain) "step_ok s s'"
  | (exec) xe ims where "x = Execve xe ims" "exec_ok cfg ims s s'"
  using assms
  by cases (auto simp: identity_steps capability_lsm.do_execve_ok)

lemma id_run_invariant:
  assumes "\<And>s x s'. id_step cfg s x s' \<Longrightarrow> Q s \<Longrightarrow> P x \<Longrightarrow> Q s'"
    and "id_run cfg s xs s'" "Q s" "list_all P xs"
  shows "Q s'"
  using assms(2-4) by induction (auto intro: assms(1))

section \<open>The invariants of a step\<close>

definition accounted :: "(uid_t \<Rightarrow> int) \<Rightarrow> kernel \<Rightarrow> bool" where
  "accounted others s \<longleftrightarrow> sane s \<and> user (current_cred s) = uid (current_cred s) \<and>
     other_processes s = others"

lemma accounted_step: "id_step cfg s x s' \<Longrightarrow> accounted others s \<Longrightarrow> accounted others s'"
  by (erule id_step_sound)
    (auto simp: accounted_def step_ok_def no_gain_def exec_ok_def exec_pre_def exec_frame_def)

lemma no_gain_caps:
  assumes "no_gain c c'"
  shows "cap_set (cap_permitted c') \<subseteq> cap_set (cap_permitted c)"
    "cap_set (cap_bset c') \<subseteq> cap_set (cap_bset c)"
    "cap_set (cap_inheritable c') \<subseteq> cap_set (cap_inheritable c) \<union> cap_set (cap_bset c)"
    "caps_ok c \<Longrightarrow> caps_ok c'"
  using assms by (simp_all add: no_gain_def cap_abs)

lemma exec_okE:
  assumes "exec_ok cfg ims s s'"
  obtains "current_cred s' = current_cred s"
  | bprm where "b_cred bprm = current_cred s'" "exec_pre s bprm" "exec_post cfg s (last ims) bprm"
  using assms by (auto simp: exec_ok_def)

lemma exec_caps:
  assumes "exec_pre s bprm" "exec_post cfg s im bprm"
  shows "cap_set (cap_permitted (b_cred bprm)) \<subseteq>
      cap_set (cap_bset (current_cred s)) \<union> cap_set (cap_inheritable (current_cred s))"
    "cap_bset (b_cred bprm) = cap_bset (current_cred s)"
    "cap_inheritable (b_cred bprm) = cap_inheritable (current_cred s)"
    "pid (current s) \<noteq> 1 \<Longrightarrow> caps_ok (b_cred bprm)"
  using assms
  by (auto simp: exec_pre_def exec_post_def exec_frame_def is_global_init_def caps_ok_def cap_abs)

text \<open>Every capability set stays inside \<open>A\<close>, and the bounding set inside \<open>B\<close>.\<close>

definition bounded :: "nat set \<Rightarrow> nat set \<Rightarrow> kernel \<Rightarrow> bool" where
  "bounded A B s \<longleftrightarrow> sane s \<and> pid (current s) \<noteq> 1 \<and> caps_ok (current_cred s) \<and>
     cap_set (cap_bset (current_cred s)) \<subseteq> B \<and> B \<subseteq> A \<and>
     cap_set (cap_permitted (current_cred s)) \<subseteq> A \<and> cap_set (cap_inheritable (current_cred s)) \<subseteq> A"

lemma bounded_step:
  assumes "id_step cfg s x s'" "bounded A B s"
  shows "bounded A B s'"
proof -
  from assms(2) have "sane s" by (simp add: bounded_def)
  with assms(1) show ?thesis
  proof (cases rule: id_step_sound)
    case plain
    with \<open>sane s\<close> have "sane s'" "pid (current s') = pid (current s)"
      and g: "no_gain (current_cred s) (current_cred s')"
      by (simp_all add: step_ok_def)
    with assms(2) no_gain_caps [OF g] show ?thesis
      unfolding bounded_def by (metis Un_least subset_trans)
  next
    case (exec xe ims)
    then have s': "sane s'" "pid (current s') = pid (current s)" by (simp_all add: exec_ok_def)
    from exec(2) show ?thesis
    proof (cases rule: exec_okE)
      case 1
      with s' assms(2) show ?thesis by (simp add: bounded_def)
    next
      case (2 bprm)
      with s' assms(2) exec_caps [OF 2(2,3)] show ?thesis
        unfolding bounded_def by (metis Un_least subset_trans)
    qed
  qed
qed

text \<open>A locked secure bit \<open>k\<close> other than \<^verbatim>\<open>KEEP_CAPS\<close> keeps its value \<open>v\<close>.\<close>

definition locked :: "nat \<Rightarrow> bool \<Rightarrow> kernel \<Rightarrow> bool" where
  "locked k v s \<longleftrightarrow> sane s \<and> bit (securebits (current_cred s)) (Suc k) \<and>
     bit (securebits (current_cred s)) k = v"

lemma locked_step:
  assumes "id_step cfg s x s'" "locked k v s" "k = SECURE_NOROOT \<or> k = SECURE_NO_SETUID_FIXUP"
  shows "locked k v s'"
proof -
  from assms(2) have "sane s" by (simp add: locked_def)
  with assms(1) show ?thesis
  proof (cases rule: id_step_sound)
    case plain
    with assms(2,3) show ?thesis
      by (auto simp: locked_def step_ok_def no_gain_def locks_kept_def)
  next
    case (exec xe ims)
    with assms(2,3) show ?thesis
      by (auto simp: locked_def exec_ok_def exec_post_def word_bits secure_numbers)
  qed
qed

text \<open>A task that has no capability and no uid 0 among its ids.\<close>

definition contained :: "uid_t set \<Rightarrow> gid_t set \<Rightarrow> group_info \<Rightarrow> kernel \<Rightarrow> bool" where
  "contained U G gi s \<longleftrightarrow> sane s \<and> 0 \<notin> U \<and>
     cap_permitted (current_cred s) = CAP_EMPTY_SET \<and> cap_effective (current_cred s) = CAP_EMPTY_SET \<and>
     uids (current_cred s) \<subseteq> U \<and> gids (current_cred s) \<subseteq> G \<and> group_info (current_cred s) = gi"

lemma contained_step:
  assumes "id_step cfg s x s'" "contained U G gi s" "plain_call cfg x"
  shows "contained U G gi s'"
proof -
  from assms(2) have "sane s" by (simp add: contained_def)
  with assms(1) show ?thesis
  proof (cases rule: id_step_sound)
    case plain
    with assms(2) have "cap_permitted (current_cred s') = CAP_EMPTY_SET" "caps_ok (current_cred s')"
      by (auto simp: contained_def step_ok_def no_gain_def caps_ok_def kcap.issubset_refl
          dest: kcap.below_none)
    moreover from this have "cap_effective (current_cred s') = CAP_EMPTY_SET"
      by (simp add: caps_ok_def kcap.below_none)
    ultimately show ?thesis
      using assms(2) plain
      by (auto simp: contained_def step_ok_def no_gain_def cap_set_empty)
  next
    case (exec xe ims)
    with assms(2,3) show ?thesis
      by (auto simp: contained_def exec_ok_def exec_pre_def exec_post_def exec_frame_def)
  qed
qed

end
