(* ===== verification/Setid_Spec.thy ===== *)
theory Setid_Spec
  imports Identity_Runs
begin

text \<open>
  The functional behaviour of the identity system calls under the default security module: for
  each call the condition under which it succeeds, the ids it then leaves, and the error it
  returns otherwise, with the credentials untouched.
\<close>

section \<open>Symbolic evaluation under the default module\<close>

lemma capable_default:
  "cap_valid n \<Longrightarrow> capable (capability_ops cfg) s n =
    (if n \<in> cap_set (cap_effective (current_cred s))
     then (True, s\<lparr>current := (current s)\<lparr>superpriv := True\<rparr>\<rparr>) else (False, s))"
  by (simp add: capable_def capability_ops_def cap_capable_def cap_raised_set cap_valid_64)

lemma fix_setuid_default:
  assumes "flags \<in> {LSM_SETID_RE, LSM_SETID_ID, LSM_SETID_RES, LSM_SETID_FS}"
  obtains P E where "so_task_fix_setuid (capability_ops cfg) cur new old flags =
    Inr (new\<lparr>cap_permitted := P, cap_effective := E\<rparr>)"
proof -
  have "\<exists>new'. cap_task_fix_setuid cur new old flags = Inr new'"
    using assms by (auto simp: cap_task_fix_setuid_def)
  then obtain new' where "cap_task_fix_setuid cur new old flags = Inr new'" ..
  with cap_task_fix_setuid_edits that show thesis
    by (metis capability_ops_def security_operations.select_convs(3))
qed

lemma hooks_default:
  "so_task_setuid (capability_ops cfg) r e v f = Inr ()"
  "so_task_setgid (capability_ops cfg) r e v f = Inr ()"
  "so_task_setgroups (capability_ops cfg) gi = Inr ()"
  by (simp_all add: capability_ops_def)

text \<open>The mark that a used capability leaves on the task.\<close>

definition used :: "nat \<Rightarrow> kernel \<Rightarrow> kernel" where
  "used n s = (if n \<in> cap_set (cap_effective (current_cred s))
     then s\<lparr>current := (current s)\<lparr>superpriv := True\<rparr>\<rparr> else s)"

lemma used_frame [simp]:
  "cred (current (used n s)) = cred (current s)" "real_cred (current (used n s)) = real_cred (current s)"
  "processes (used n s) = processes s" "rlim_nproc (current (used n s)) = rlim_nproc (current s)"
  "next_cred (used n s) = next_cred s"
  by (simp_all add: used_def)

lemma capable_used:
  "cap_valid n \<Longrightarrow> capable (capability_ops cfg) s n =
    (n \<in> cap_set (cap_effective (current_cred s)), used n s)"
  by (simp add: capable_default used_def)

lemma prepare_ok:
  "cred_alloc env \<Longrightarrow> prepare_creds env s =
    Some ((current_cred s)\<lparr>cred_id := next_cred s\<rparr>, s\<lparr>next_cred := next_cred s + 1\<rparr>)"
  by (simp add: prepare_creds_def)

lemma current_next_cred: "current (s\<lparr>next_cred := k\<rparr>) = current s"
  by simp

lemmas eval_default =
  option.case prod.case sum.case hooks_default abort_creds_def current_next_cred used_frame
  capable_used [OF cap_valid_ids(1)] capable_used [OF cap_valid_ids(2)]

lemma if_or_chain:
  "(if a \<or> b \<or> c then x else y) = (if a then x else if b then x else if c then x else y)"
  by simp

lemma commit_sane:
  assumes "sane s" "cred (current s1) = cred (current s)" "real_cred (current s1) = real_cred (current s)"
  shows "cred (current (commit_creds new s1)) = new" "real_cred (current (commit_creds new s1)) = new"
  using assms commit_creds_current(1,2) [of s1 new] by (simp_all add: sane_def)

section \<open>setresuid and setresgid\<close>

text \<open>An id argument that the caller may pass, and the id that results.\<close>

definition may_name :: "nat \<Rightarrow> cred \<Rightarrow> u32 set \<Rightarrow> u32 \<Rightarrow> bool" where
  "may_name n c known x \<longleftrightarrow> n \<in> cap_set (cap_effective c) \<or> x = - 1 \<or> x \<in> known"

definition pick :: "u32 \<Rightarrow> u32 \<Rightarrow> u32" where
  "pick x old = (if x = - 1 then old else x)"

definition over_limit :: "kernel \<Rightarrow> uid_t \<Rightarrow> bool" where
  "over_limit s u \<longleftrightarrow> word_of_int (processes s u) \<ge> rlim_nproc (current s) \<and> u \<noteq> 0"

lemma set_user_spec:
  "set_user env s new =
    (if \<not> uid_alloc env \<or> over_limit s (uid new) then Inl EAGAIN else Inr (new\<lparr>user := uid new\<rparr>))"
  by (simp add: set_user_def over_limit_def)

lemma over_limit_frame [simp]:
  "over_limit (used n s) u = over_limit s u" "over_limit (s\<lparr>next_cred := k\<rparr>) u = over_limit s u"
  by (simp_all add: over_limit_def)

lemma example_frame:
  "current_cred (example_kernel u k) = example_cred u k" "sane (example_kernel u k)"
  "cred_alloc ample_env" "uid_alloc ample_env" "\<not> over_limit (example_kernel u k) v"
  "pid (current (example_kernel u k)) = 42"
  by (simp_all add: example_defs sane_def over_limit_def word_le_nat_alt)

lemma example_cred_frame [simp]:
  "uid (example_cred u k) = u" "euid (example_cred u k) = u" "suid (example_cred u k) = u"
  "fsuid (example_cred u k) = u" "cap_effective (example_cred u k) = k"
  "cap_permitted (example_cred u k) = k" "cap_bset (example_cred u k) = CAP_FULL_SET"
  "cap_inheritable (example_cred u k) = CAP_EMPTY_SET" "securebits (example_cred u k) = 0"
  "fsgid (example_cred u k) = u" "gid (example_cred u k) = u" "egid (example_cred u k) = u" "sgid (example_cred u k) = u"
  by (simp_all add: example_cred_def)

lemma full_ids: "CAP_SETUID \<in> cap_set CAP_FULL_SET" "CAP_SETGID \<in> cap_set CAP_FULL_SET"
  "CAP_SETPCAP \<in> cap_set CAP_FULL_SET"
  by (simp_all add: cap_set_full cap_numbers)

definition example_config :: kconfig where
  "example_config = \<lparr>CONFIG_SECURITY_FILE_CAPABILITIES = True, file_caps_enabled = True\<rparr>"

text \<open>
  \<^verbatim>\<open>setresuid\<close> succeeds exactly when every id it is given is \<open>- 1\<close>, one of the
  caller's real, effective and saved ids, or anything at all with \<^verbatim>\<open>CAP_SETUID\<close>, and
  switching to a new real uid neither fails to allocate nor exceeds the process limit of that
  user.  \<^verbatim>\<open>getresuid\<close> then returns the three ids asked for, and the file system id
  follows the effective one.  Otherwise the error is \<^verbatim>\<open>EPERM\<close> or \<^verbatim>\<open>EAGAIN\<close>
  and the credentials stay.
\<close>

theorem setresuid_spec:
  assumes "sane s" "cred_alloc env"
  shows "case sys_setresuid (capability_ops cfg) env s r e sv of
      (Inr _, s') \<Rightarrow>
        (\<forall>x \<in> {r, e, sv}. may_name CAP_SETUID (current_cred s)
           {uid (current_cred s), euid (current_cred s), suid (current_cred s)} x) \<and>
        \<not> (r \<noteq> - 1 \<and> r \<noteq> uid (current_cred s) \<and> (\<not> uid_alloc env \<or> over_limit s r)) \<and>
        sys_getresuid s' = (pick r (uid (current_cred s)), pick e (euid (current_cred s)),
          pick sv (suid (current_cred s))) \<and>
        fsuid (current_cred s') = pick e (euid (current_cred s))
    | (Inl err, s') \<Rightarrow> current_cred s' = current_cred s \<and>
        (if \<forall>x \<in> {r, e, sv}. may_name CAP_SETUID (current_cred s)
           {uid (current_cred s), euid (current_cred s), suid (current_cred s)} x
         then err = EAGAIN \<and> r \<noteq> - 1 \<and> r \<noteq> uid (current_cred s) \<and>
           (\<not> uid_alloc env \<or> over_limit s r)
         else err = EPERM)"
proof -
  let ?c = "current_cred s" and ?ops = "capability_ops cfg"
  let ?s2 = "used CAP_SETUID (s\<lparr>next_cred := next_cred s + 1\<rparr>)"
  let ?cap = "CAP_SETUID \<in> cap_set (cap_effective ?c)"
  let ?ok = "\<forall>x \<in> {r, e, sv}. may_name CAP_SETUID ?c {uid ?c, euid ?c, suid ?c} x"
  let ?again = "r \<noteq> - 1 \<and> r \<noteq> uid ?c \<and> (\<not> uid_alloc env \<or> over_limit s r)"
  define new where "new = ?c\<lparr>cred_id := next_cred s\<rparr>"
  define new1 where "new1 = (if r \<noteq> - 1 then if r \<noteq> uid ?c
      then new\<lparr>uid := r, user := r\<rparr> else new\<lparr>uid := r\<rparr> else new)"
  define F where "F = (\<lambda>new1 :: cred. let new2 = (if e \<noteq> - 1 then new1\<lparr>euid := e\<rparr> else new1);
      new3 = (if sv \<noteq> - 1 then new2\<lparr>suid := sv\<rparr> else new2) in new3\<lparr>fsuid := euid new3\<rparr>)"
  obtain P E where hook: "so_task_fix_setuid ?ops ?c (F new1) ?c LSM_SETID_RES =
      Inr ((F new1)\<lparr>cap_permitted := P, cap_effective := E\<rparr>)"
    by (rule fix_setuid_default [of LSM_SETID_RES]) auto
  have ids: "uid (F new1) = pick r (uid ?c)" "euid (F new1) = pick e (euid ?c)"
    "suid (F new1) = pick sv (suid ?c)" "fsuid (F new1) = pick e (euid ?c)"
    by (simp_all add: F_def new1_def new_def pick_def Let_def)
  have perm: "\<not> ?cap \<and> \<not> res_allowed r (uid ?c) (euid ?c) (suid ?c) \<or>
      \<not> ?cap \<and> \<not> res_allowed e (uid ?c) (euid ?c) (suid ?c) \<or>
      \<not> ?cap \<and> \<not> res_allowed sv (uid ?c) (euid ?c) (suid ?c) \<longleftrightarrow> \<not> ?ok"
    by (auto simp: may_name_def res_allowed_def)
  have user: "(if r \<noteq> - 1 then if r \<noteq> uid ?c then set_user env ?s2 (new\<lparr>uid := r\<rparr>) else Inr (new\<lparr>uid := r\<rparr>)
      else Inr new) = (if ?again then Inl EAGAIN else Inr new1)"
    by (simp add: set_user_spec new1_def)
  have "sys_setresuid ?ops env s r e sv = (if \<not> ?ok then (Inl EPERM, ?s2)
      else case (if ?again then Inl EAGAIN else Inr new1) of
        Inl err \<Rightarrow> (Inl err, ?s2)
      | Inr new1 \<Rightarrow> (case so_task_fix_setuid ?ops ?c (F new1) ?c LSM_SETID_RES of
          Inl err \<Rightarrow> (Inl err, ?s2) | Inr new5 \<Rightarrow> (Inr (), commit_creds new5 ?s2)))"
    unfolding perm [symmetric] if_or_chain user [symmetric] sys_setresuid_def
      prepare_ok [OF assms(2)] eval_default Let_def F_def new_def ..
  then have "sys_setresuid ?ops env s r e sv = (if \<not> ?ok then (Inl EPERM, ?s2)
      else if ?again then (Inl EAGAIN, ?s2)
      else (Inr (), commit_creds ((F new1)\<lparr>cap_permitted := P, cap_effective := E\<rparr>) ?s2))"
    by (simp add: hook)
  then show ?thesis
    using commit_sane(1) [OF assms(1), of ?s2 "(F new1)\<lparr>cap_permitted := P, cap_effective := E\<rparr>"] ids
    by (simp add: sys_getresuid_def Let_def)
qed

theorem setresuid_spec_witness:
  "case sys_setresuid (capability_ops example_config) ample_env (example_kernel 0 CAP_FULL_SET) 5 6 7 of
     (r, s') \<Rightarrow> r = Inr () \<and> sys_getresuid s' = (5, 6, 7)"
  using setresuid_spec [where s = "example_kernel 0 CAP_FULL_SET" and env = ample_env and cfg = example_config and r = 5 and e = 6 and sv = 7]
  by (auto simp: example_frame may_name_def pick_def full_ids split: prod.splits sum.splits)

section \<open>setreuid, setuid and setfsuid\<close>

lemma assign_default:
  assumes "cap_valid n"
  shows "assign_id (capability_ops cfg) s x a n upd new =
    (if x = - 1 then Some new
     else if a \<or> n \<in> cap_set (cap_effective (current_cred s)) then Some (upd new) else None,
     if x = - 1 \<or> a then s else used n s)"
  using assms by (simp add: assign_id_def or_capable_def capable_used)

lemma cond_used_frame [simp]:
  "cred (current (if b then s else used n s)) = cred (current s)"
  "real_cred (current (if b then s else used n s)) = real_cred (current s)"
  "over_limit (if b then s else used n s) u = over_limit s u"
  by simp_all

text \<open>
  \<^verbatim>\<open>setreuid\<close> follows the BSD rules.  The real uid may become the real or effective
  one, the effective uid any of the three, anything with \<^verbatim>\<open>CAP_SETUID\<close>; the saved uid
  becomes the new effective one when the real uid is set or the effective uid is set to
  something other than the old real uid, and stays otherwise.
\<close>

theorem setreuid_spec:
  assumes "sane s" "cred_alloc env"
  shows "case sys_setreuid (capability_ops cfg) env s r e of
      (Inr _, s') \<Rightarrow>
        may_name CAP_SETUID (current_cred s) {uid (current_cred s), euid (current_cred s)} r \<and>
        may_name CAP_SETUID (current_cred s)
          {uid (current_cred s), euid (current_cred s), suid (current_cred s)} e \<and>
        \<not> (pick r (uid (current_cred s)) \<noteq> uid (current_cred s) \<and> (\<not> uid_alloc env \<or> over_limit s r)) \<and>
        uid (current_cred s') = pick r (uid (current_cred s)) \<and>
        euid (current_cred s') = pick e (euid (current_cred s)) \<and>
        fsuid (current_cred s') = pick e (euid (current_cred s)) \<and>
        suid (current_cred s') =
          (if r \<noteq> - 1 \<or> (e \<noteq> - 1 \<and> e \<noteq> uid (current_cred s))
           then pick e (euid (current_cred s)) else suid (current_cred s))
    | (Inl err, s') \<Rightarrow> current_cred s' = current_cred s \<and>
        (if may_name CAP_SETUID (current_cred s) {uid (current_cred s), euid (current_cred s)} r \<and>
            may_name CAP_SETUID (current_cred s)
              {uid (current_cred s), euid (current_cred s), suid (current_cred s)} e
         then err = EAGAIN \<and> pick r (uid (current_cred s)) \<noteq> uid (current_cred s) \<and>
           (\<not> uid_alloc env \<or> over_limit s r)
         else err = EPERM)"
proof -
  let ?c = "current_cred s" and ?ops = "capability_ops cfg"
  let ?s1 = "s\<lparr>next_cred := next_cred s + 1\<rparr>"
  let ?cap = "CAP_SETUID \<in> cap_set (cap_effective ?c)"
  let ?ok1 = "may_name CAP_SETUID ?c {uid ?c, euid ?c} r"
  let ?ok2 = "may_name CAP_SETUID ?c {uid ?c, euid ?c, suid ?c} e"
  let ?again = "pick r (uid ?c) \<noteq> uid ?c \<and> (\<not> uid_alloc env \<or> over_limit s r)"
  define new where "new = ?c\<lparr>cred_id := next_cred s\<rparr>"
  define s2 where "s2 = (if r = - 1 \<or> uid ?c = r \<or> euid ?c = r then ?s1 else used CAP_SETUID ?s1)"
  define s3 where "s3 = (if e = - 1 \<or> uid ?c = e \<or> euid ?c = e \<or> suid ?c = e then s2
    else used CAP_SETUID s2)"
  define new2 where "new2 = new\<lparr>uid := pick r (uid ?c), euid := pick e (euid ?c)\<rparr>"
  define new3 where "new3 = (if uid new2 \<noteq> uid ?c then new2\<lparr>user := uid new2\<rparr> else new2)"
  define new5 where "new5 = (if r \<noteq> - 1 \<or> (e \<noteq> - 1 \<and> e \<noteq> uid ?c)
    then new3\<lparr>suid := euid new3\<rparr> else new3)\<lparr>fsuid := euid new3\<rparr>"
  have fr: "current_cred s2 = ?c" "current_cred s3 = ?c" "real_cred (current s3) = real_cred (current s)"
    "over_limit s3 u = over_limit s u" for u
    by (simp_all add: s3_def s2_def)
  have a1: "assign_id ?ops ?s1 r (uid ?c = r \<or> euid ?c = r) CAP_SETUID (\<lambda>c. c\<lparr>uid := r\<rparr>) new =
      (if ?ok1 then Some (new\<lparr>uid := pick r (uid ?c)\<rparr>) else None, s2)"
    by (auto simp: assign_default cap_valid_ids s2_def may_name_def pick_def new_def)
  have a2: "assign_id ?ops s2 e (uid ?c = e \<or> euid ?c = e \<or> suid ?c = e) CAP_SETUID
      (\<lambda>c. c\<lparr>euid := e\<rparr>) (new\<lparr>uid := pick r (uid ?c)\<rparr>) = (if ?ok2 then Some new2 else None, s3)"
    by (auto simp: assign_default cap_valid_ids fr s3_def may_name_def pick_def new2_def new_def)
  have su: "(if uid new2 \<noteq> uid ?c then set_user env s3 new2 else Inr new2) =
      (if ?again then Inl EAGAIN else Inr new3)"
    by (auto simp: set_user_spec fr new3_def new2_def pick_def)
  obtain P E where hook: "so_task_fix_setuid ?ops ?c new5 ?c LSM_SETID_RE =
      Inr (new5\<lparr>cap_permitted := P, cap_effective := E\<rparr>)"
    by (rule fix_setuid_default [of LSM_SETID_RE]) auto
  have ids: "uid new5 = pick r (uid ?c)" "euid new5 = pick e (euid ?c)" "fsuid new5 = pick e (euid ?c)"
    "suid new5 = (if r \<noteq> - 1 \<or> (e \<noteq> - 1 \<and> e \<noteq> uid ?c) then pick e (euid ?c) else suid ?c)"
    by (simp_all add: new5_def new3_def new2_def new_def)
  have fold5: "(let new4 = (if r \<noteq> - 1 \<or> (e \<noteq> - 1 \<and> e \<noteq> uid ?c) then new3\<lparr>suid := euid new3\<rparr> else new3)
      in new4\<lparr>fsuid := euid new4\<rparr>) = new5"
    by (simp add: new5_def)
  have "sys_setreuid ?ops env s r e =
      (if \<not> ?ok1 then (Inl EPERM, s2) else if \<not> ?ok2 then (Inl EPERM, s3)
       else if ?again then (Inl EAGAIN, s3)
       else (Inr (), commit_creds (new5\<lparr>cap_permitted := P, cap_effective := E\<rparr>) s3))"
    unfolding sys_setreuid_def prepare_ok [OF assms(2)] eval_default new_def [symmetric] Let_def
    unfolding a1 prod.case
    using a2 su hook fold5
    by (simp add: fr Let_def split del: if_split) (simp add: abort_creds_def fr)
  then show ?thesis
    using commit_sane(1) [OF assms(1), of s3 "new5\<lparr>cap_permitted := P, cap_effective := E\<rparr>"] fr ids
    by simp
qed

theorem setreuid_spec_witness:
  "case sys_setreuid (capability_ops example_config) ample_env (example_kernel 5 CAP_EMPTY_SET) (- 1) 6 of
     (r, s') \<Rightarrow> r = Inl EPERM"
  using setreuid_spec [where s = "example_kernel 5 CAP_EMPTY_SET" and env = ample_env and cfg = example_config and r = "- 1" and e = 6]
  by (auto simp: example_frame may_name_def pick_def cap_set_empty split: prod.splits sum.splits)

text \<open>The credentials \<^verbatim>\<open>setuid\<close> hands to the hook, with and without the capability.\<close>

definition setuid_new :: "bool \<Rightarrow> nat \<Rightarrow> uid_t \<Rightarrow> cred \<Rightarrow> cred" where
  "setuid_new privileged i u c =
     (if privileged
      then c\<lparr>cred_id := i, suid := u, uid := u, user := (if u \<noteq> uid c then u else user c),
             fsuid := u, euid := u\<rparr>
      else c\<lparr>cred_id := i, fsuid := u, euid := u\<rparr>)"

lemma setuid_new_ids:
  "uid (setuid_new p i u c) = (if p then u else uid c)" "euid (setuid_new p i u c) = u"
  "suid (setuid_new p i u c) = (if p then u else suid c)" "fsuid (setuid_new p i u c) = u"
  by (simp_all add: setuid_new_def)

lemma setuid_eval:
  fixes s cfg
  defines "c \<equiv> current_cred s" and "s2 \<equiv> used CAP_SETUID (s\<lparr>next_cred := next_cred s + 1\<rparr>)"
  defines "priv \<equiv> CAP_SETUID \<in> cap_set (cap_effective c)"
  assumes "cred_alloc env"
  shows "sys_setuid (capability_ops cfg) env s u =
    (if priv \<and> u \<noteq> uid c \<and> (\<not> uid_alloc env \<or> over_limit s u) then (Inl EAGAIN, s2)
     else if \<not> priv \<and> u \<noteq> uid c \<and> u \<noteq> suid c then (Inl EPERM, s2)
     else case cap_task_fix_setuid c (setuid_new priv (next_cred s) u c) c LSM_SETID_ID of
       Inl err \<Rightarrow> (Inl err, s2) | Inr new \<Rightarrow> (Inr (), commit_creds new s2))"
proof -
  have o: "over_limit s2 x = over_limit s x" for x by (simp add: s2_def)
  have hook: "so_task_fix_setuid (capability_ops cfg) = cap_task_fix_setuid"
    by (simp add: capability_ops_def)
  have upd: "c\<lparr>cred_id := i, suid := u, uid := u\<rparr>\<lparr>user := u\<rparr>\<lparr>fsuid := u, euid := u\<rparr> =
      c\<lparr>cred_id := i, suid := u, uid := u, user := u, fsuid := u, euid := u\<rparr>" for i
    by simp
  have cred: "(if priv then let new1 = c\<lparr>cred_id := next_cred s, suid := u, uid := u\<rparr>
        in if u \<noteq> uid c then set_user env s2 new1 else Inr new1
      else if u \<noteq> uid c \<and> u \<noteq> suid (c\<lparr>cred_id := next_cred s\<rparr>) then Inl EPERM
      else Inr (c\<lparr>cred_id := next_cred s\<rparr>)) =
    (if priv \<and> u \<noteq> uid c \<and> (\<not> uid_alloc env \<or> over_limit s u) then Inl EAGAIN
     else if \<not> priv \<and> u \<noteq> uid c \<and> u \<noteq> suid c then Inl EPERM
     else Inr (if priv then c\<lparr>cred_id := next_cred s, suid := u, uid := u,
                 user := (if u \<noteq> uid c then u else user c)\<rparr> else c\<lparr>cred_id := next_cred s\<rparr>))"
    by (simp add: set_user_spec o Let_def)
  show ?thesis
    unfolding sys_setuid_def prepare_ok [OF assms(4)] eval_default hook c_def [symmetric]
      s2_def [symmetric] priv_def [symmetric]
    unfolding Let_def unfolding cred [unfolded Let_def]
    by (cases priv) (auto simp: setuid_new_def)
qed

text \<open>
  \<^verbatim>\<open>setuid\<close> with \<^verbatim>\<open>CAP_SETUID\<close> sets all four uids; without it, it sets the
  effective and file system uid to the real or the saved one and leaves the other two; every
  other uid is refused with \<^verbatim>\<open>EPERM\<close>.
\<close>

theorem setuid_spec:
  assumes "sane s" "cred_alloc env"
  shows "case sys_setuid (capability_ops cfg) env s u of
      (Inr _, s') \<Rightarrow>
        (if CAP_SETUID \<in> cap_set (cap_effective (current_cred s))
         then \<not> (u \<noteq> uid (current_cred s) \<and> (\<not> uid_alloc env \<or> over_limit s u)) \<and>
           uids (current_cred s') = {u}
         else u \<in> {uid (current_cred s), suid (current_cred s)} \<and>
           euid (current_cred s') = u \<and> fsuid (current_cred s') = u \<and>
           uid (current_cred s') = uid (current_cred s) \<and> suid (current_cred s') = suid (current_cred s))
    | (Inl err, s') \<Rightarrow> current_cred s' = current_cred s \<and>
        (if CAP_SETUID \<in> cap_set (cap_effective (current_cred s))
         then err = EAGAIN \<and> u \<noteq> uid (current_cred s) \<and> (\<not> uid_alloc env \<or> over_limit s u)
         else err = EPERM \<and> u \<notin> {uid (current_cred s), suid (current_cred s)})"
proof -
  let ?c = "current_cred s"
  let ?priv = "CAP_SETUID \<in> cap_set (cap_effective ?c)"
  let ?s2 = "used CAP_SETUID (s\<lparr>next_cred := next_cred s + 1\<rparr>)"
  let ?n = "setuid_new ?priv (next_cred s) u ?c"
  obtain P E where "cap_task_fix_setuid ?c ?n ?c LSM_SETID_ID =
      Inr (?n\<lparr>cap_permitted := P, cap_effective := E\<rparr>)"
    by (rule fix_setuid_default [of LSM_SETID_ID]) (auto simp: capability_ops_def)
  then show ?thesis
    using commit_sane(1) [OF assms(1), of ?s2 "?n\<lparr>cap_permitted := P, cap_effective := E\<rparr>"]
    by (auto simp: setuid_eval [OF assms(2)] setuid_new_ids uids_def)
qed

theorem setuid_spec_witness:
  "case sys_setuid (capability_ops example_config) ample_env (example_kernel 0 CAP_FULL_SET) 5 of
     (r, s') \<Rightarrow> r = Inr () \<and> uids (current_cred s') = {5}"
  using setuid_spec [where s = "example_kernel 0 CAP_FULL_SET" and env = ample_env and cfg = example_config and u = 5]
  by (auto simp: example_frame full_ids split: prod.splits sum.splits)

text \<open>
  The way a daemon drops root: with \<^verbatim>\<open>CAP_SETUID\<close>, a zero among its uids and the two secure
  bits clear that would keep the capabilities, \<^verbatim>\<open>setuid\<close> to a nonzero uid clears the
  permitted and effective sets.
\<close>

lemma setuid_drops:
  assumes "sane s" "CAP_SETUID \<in> cap_set (cap_effective (current_cred s))"
    and "0 \<in> {uid (current_cred s), euid (current_cred s), suid (current_cred s)}" "u \<noteq> 0"
    and "\<not> issecure (current_cred s) SECURE_KEEP_CAPS"
    and "\<not> issecure (current_cred s) SECURE_NO_SETUID_FIXUP"
    and "sys_setuid (capability_ops cfg) env s u = (Inr (), s')"
  shows "contained {u} (gids (current_cred s)) (group_info (current_cred s)) s'"
proof -
  let ?c = "current_cred s"
  let ?s2 = "used CAP_SETUID (s\<lparr>next_cred := next_cred s + 1\<rparr>)"
  let ?n = "(setuid_new True (next_cred s) u ?c)\<lparr>cap_permitted := CAP_EMPTY_SET,
    cap_effective := CAP_EMPTY_SET\<rparr>"
  have alloc: "cred_alloc env"
    using assms(7) by (auto simp: sys_setuid_def prepare_creds_def split: if_splits)
  have "cap_task_fix_setuid ?c (setuid_new True (next_cred s) u ?c) ?c LSM_SETID_ID = Inr ?n"
    using assms(3-6)
    by (auto simp: cap_task_fix_setuid_def cap_emulate_setxuid_def setuid_new_def Let_def)
  then have s': "s' = commit_creds ?n ?s2"
    using assms(2,7) by (simp add: setuid_eval [OF alloc] split: if_splits)
  have "step_ok s s'"
    using capability_lsm.setuid_step [of s cfg env u] assms(7) by simp
  then have "sane s'" using assms(1) by (simp add: step_ok_def)
  moreover have "current_cred s' = ?n"
    unfolding s' by (rule commit_sane [OF assms(1)]) simp_all
  ultimately show ?thesis
    using assms(4) by (simp add: contained_def setuid_new_def uids_def gids_def)
qed

text \<open>
  C13: \<^verbatim>\<open>setfsuid\<close> always returns the old file system uid; it changes it exactly when the
  new one is one of the caller's four uids or \<^verbatim>\<open>CAP_SETUID\<close> is effective, and leaves the
  other uids alone.
\<close>

theorem setfsuid_spec:
  assumes "sane s" "cred_alloc env"
  shows "case sys_setfsuid (capability_ops cfg) env s u of (old, s') \<Rightarrow>
    old = fsuid (current_cred s) \<and>
    fsuid (current_cred s') =
      (if u \<in> uids (current_cred s) \<or> CAP_SETUID \<in> cap_set (cap_effective (current_cred s))
       then u else fsuid (current_cred s)) \<and>
    sys_getresuid s' = sys_getresuid s"
proof -
  let ?c = "current_cred s" and ?ops = "capability_ops cfg"
  let ?s1 = "s\<lparr>next_cred := next_cred s + 1\<rparr>"
  let ?own = "u = uid ?c \<or> u = euid ?c \<or> u = suid ?c \<or> u = fsuid ?c"
  let ?new = "?c\<lparr>cred_id := next_cred s, fsuid := u\<rparr>"
  define s2 where "s2 = (if ?own then ?s1 else used CAP_SETUID ?s1)"
  have fr: "current_cred s2 = ?c" "real_cred (current s2) = real_cred (current s)"
    by (simp_all add: s2_def)
  have oc: "or_capable ?ops ?s1 ?own CAP_SETUID =
      (?own \<or> CAP_SETUID \<in> cap_set (cap_effective ?c), s2)"
    by (simp add: or_capable_def capable_used cap_valid_ids s2_def)
  obtain P E where hook: "so_task_fix_setuid ?ops ?c ?new ?c LSM_SETID_FS =
      Inr (?new\<lparr>cap_permitted := P, cap_effective := E\<rparr>)"
    by (rule fix_setuid_default [of LSM_SETID_FS]) auto
  have "sys_setfsuid ?ops env s u =
      (fsuid ?c, if (?own \<or> CAP_SETUID \<in> cap_set (cap_effective ?c)) \<and> u \<noteq> fsuid ?c
        then commit_creds (?new\<lparr>cap_permitted := P, cap_effective := E\<rparr>) s2 else s2)"
    unfolding sys_setfsuid_def prepare_ok [OF assms(2)] eval_default Let_def oc
    by (simp add: fr hook)
  then show ?thesis
    using commit_sane(1) [OF assms(1) fr, of "?new\<lparr>cap_permitted := P, cap_effective := E\<rparr>"] fr(1)
    by (auto simp: uids_def sys_getresuid_def Let_def)
qed

theorem setfsuid_spec_witness:
  "case sys_setfsuid (capability_ops example_config) ample_env (example_kernel 5 CAP_EMPTY_SET) 6 of
     (old, s') \<Rightarrow> old = 5 \<and> fsuid (current_cred s') = 5"
  using setfsuid_spec [where s = "example_kernel 5 CAP_EMPTY_SET" and env = ample_env and cfg = example_config and u = 6]
  by (auto simp: example_frame cap_set_empty uids_def split: prod.splits)

section \<open>setgroups and getgroups\<close>

lemma groups_from_user_inv:
  assumes "groups_from_user gi xs = Inr gi'" "groups_wf gi"
  shows "ngroups gi \<le> length xs" "groups_wf gi'" "ngroups gi' = ngroups gi"
    "gview gi' = take (ngroups gi) xs"
proof -
  show le: "ngroups gi \<le> length xs"
    using assms from_user_blocks_fault [of "ngroups gi" "blocks gi" xs]
    by (force simp: groups_from_user_def groups_wf_def)
  show "groups_wf gi'" "ngroups gi' = ngroups gi" "gview gi' = take (ngroups gi) xs"
    using groups_from_user_view [OF assms(2) le] assms(1) by auto
qed

lemma setgroups_result:
  assumes "sane s" "sys_setgroups (capability_ops cfg) env s n gl = (Inr (), s')"
  obtains gi where "group_info (current_cred s') = groups_sort gi" "groups_wf gi"
    "ngroups gi = unat n" "gview gi = take (unat n) gl" "unat n \<le> length gl" "unat n \<le> NGROUPS_MAX"
    "CAP_SETGID \<in> cap_set (cap_effective (current_cred s))" "fsgid (current_cred s') = fsgid (current_cred s)"
proof -
  let ?s1 = "used CAP_SETGID s"
  have cap: "CAP_SETGID \<in> cap_set (cap_effective (current_cred s))" "unat n \<le> NGROUPS_MAX"
    using assms(2) by (auto simp: sys_setgroups_def capable_used cap_valid_ids split: if_splits)
  then obtain gi0 gi where gi: "groups_alloc (kmalloc_ok env) (page_ok env) (junk env) (unat n) = Some gi0"
    "groups_from_user gi0 gl = Inr gi"
    "set_current_groups (capability_ops cfg) env ?s1 gi = (Inr (), s')"
    using assms(2)
    by (auto simp: sys_setgroups_def capable_used cap_valid_ids split: option.splits sum.splits)
  note al = groups_alloc_wf [OF gi(1)]
  note fu = groups_from_user_inv [OF gi(2) al(1), unfolded al(2)]
  have env: "cred_alloc env"
    using gi(3) by (auto simp: set_current_groups_def prepare_creds_def split: if_splits)
  have s': "s' = commit_creds ((current_cred s)\<lparr>cred_id := next_cred s, group_info := groups_sort gi\<rparr>)
      (?s1\<lparr>next_cred := next_cred s + 1\<rparr>)"
    using gi(3) by (simp add: set_current_groups_def prepare_ok [OF env] set_groups_def hooks_default)
  have "current_cred s' = (current_cred s)\<lparr>cred_id := next_cred s, group_info := groups_sort gi\<rparr>"
    unfolding s' by (rule commit_sane [OF assms(1)]) simp_all
  with that fu cap show thesis by simp
qed

text \<open>
  After a successful \<^verbatim>\<open>setgroups\<close>, \<^verbatim>\<open>getgroups\<close> with enough room returns the
  ids that were set, in increasing order; \<^verbatim>\<open>getgroups\<close> with size 0 returns their number.
\<close>

theorem setgroups_getgroups:
  assumes "sane s" "sys_setgroups (capability_ops cfg) env s n gl = (Inr (), s')"
    and "int (unat n) \<le> gidsetsize" "gidsetsize > 0" "unat n \<le> room"
  shows "sys_getgroups s' gidsetsize room = Inr (unat n, sort (take (unat n) gl)) \<and>
    sys_getgroups s' 0 room = Inr (unat n, [])"
proof -
  obtain gi where gi: "group_info (current_cred s') = groups_sort gi" "groups_wf gi"
    "ngroups gi = unat n" "gview gi = take (unat n) gl"
    using setgroups_result [OF assms(1,2)] by blast
  have srt: "gview (groups_sort gi) = sort (take (unat n) gl)"
    using groups_sort_perm(3) [OF gi(2)] groups_sort_sorted [OF gi(2)] gi(4) properties_for_sort
    by metis
  have "groups_to_user room (groups_sort gi) = Inr (sort (take (unat n) gl))"
    using groups_to_user_view [of "groups_sort gi" room] groups_sort_perm [OF gi(2)] gi(3) assms(5) srt
    by simp
  then show ?thesis
    using gi(1,3) groups_sort_perm(2) [OF gi(2)] assms(3,4)
    by (simp add: sys_getgroups_def Let_def)
qed

lemma example_setgroups:
  "fst (sys_setgroups (capability_ops example_config) ample_env (example_kernel 0 CAP_FULL_SET) 3 [5, 2, 3]) = Inr ()"
  by (simp add: sys_setgroups_def capable_used cap_valid_ids example_frame full_ids
      NGROUPS_MAX_def groups_alloc_def groups_from_user_def NGROUPS_SMALL_def NGROUPS_PER_BLOCK_def
      ample_env_def set_current_groups_def prepare_creds_def set_groups_def hooks_default Let_def)

definition example_grouped :: kernel where
  "example_grouped =
     snd (sys_setgroups (capability_ops example_config) ample_env (example_kernel 0 CAP_FULL_SET) 3 [5, 2, 3])"

lemma example_grouped:
  "sys_setgroups (capability_ops example_config) ample_env (example_kernel 0 CAP_FULL_SET) 3 [5, 2, 3] =
    (Inr (), example_grouped)"
  using example_setgroups by (simp add: example_grouped_def prod_eq_iff)

theorem setgroups_getgroups_witness:
  "sys_getgroups example_grouped 3 3 = Inr (3, [2, 3, 5])"
  using setgroups_getgroups [OF example_frame(2) example_grouped, of 3 3]
  by (simp add: word_le_nat_alt)

text \<open>
  After a successful \<^verbatim>\<open>setgroups\<close>, \<^verbatim>\<open>in_group_p\<close> says of an id that is less
  than \<open>2 ^ 31\<close> away from all the ids set whether it is one of them or the file system gid.
\<close>

theorem setgroups_in_group:
  assumes "sane s" "sys_setgroups (capability_ops cfg) env s n gl = (Inr (), s')"
    and "\<forall>g \<in> set (take (unat n) gl). \<bar>uint grp - uint g\<bar> < 2 ^ 31"
  shows "in_group_p s' grp \<longleftrightarrow> grp = fsgid (current_cred s) \<or> grp \<in> set (take (unat n) gl)"
proof -
  obtain gi where gi: "group_info (current_cred s') = groups_sort gi" "groups_wf gi"
    "gview gi = take (unat n) gl" "fsgid (current_cred s') = fsgid (current_cred s)"
    using setgroups_result [OF assms(1,2)] by blast
  have set: "set (gview (groups_sort gi)) = set (take (unat n) gl)"
    using groups_sort_perm(3) [OF gi(2)] gi(3) by (metis set_mset_mset)
  have "groups_search (Some (groups_sort gi)) grp \<longleftrightarrow> grp \<in> set (gview (groups_sort gi))"
    using groups_search_loop_member [OF groups_sort_sorted [OF gi(2)], of grp] assms(3) set
    by (simp add: groups_search_def)
  then show ?thesis
    using gi(1,4) set by (auto simp: in_group_p_def Let_def)
qed

theorem setgroups_in_group_witness:
  "in_group_p example_grouped 2 \<and> \<not> in_group_p example_grouped 4"
  using setgroups_in_group [OF example_frame(2) example_grouped, of 2]
    setgroups_in_group [OF example_frame(2) example_grouped, of 4]
  by (simp add: example_frame)

end
