(* ===== verification/Syscap_Spec.thy ===== *)
theory Syscap_Spec
  imports Setid_Spec
begin

text \<open>
  The functional behaviour of \<^verbatim>\<open>capset\<close>, \<^verbatim>\<open>capget\<close> and \<^verbatim>\<open>prctl\<close>
  under the default security module.
\<close>

section \<open>capset and capget\<close>

definition header_words :: "cap_user_header \<Rightarrow> nat" where
  "header_words h = (if h_version h = LINUX_CAPABILITY_VERSION_1 then 1 else 2)"

definition header_ok :: "cap_user_header \<Rightarrow> bool" where
  "header_ok h \<longleftrightarrow> h_readable h \<and> h_pid_readable h \<and>
     h_version h \<in> {LINUX_CAPABILITY_VERSION_1, LINUX_CAPABILITY_VERSION_2, LINUX_CAPABILITY_VERSION_3}"

lemma validate_magic_ok: "header_ok h \<Longrightarrow> cap_validate_magic h = (Inr (header_words h), h)"
  by (auto simp: header_ok_def cap_validate_magic_def header_words_def)

lemma validate_magic_Inr:
  "cap_validate_magic h = (Inr n, h') \<Longrightarrow> h_pid_readable h \<Longrightarrow> header_ok h \<and> n = header_words h \<and> h' = h"
  by (auto simp: header_ok_def cap_validate_magic_def header_words_def cap_versions split: if_splits)

text \<open>The sets \<^verbatim>\<open>capset\<close> is asked to install.\<close>

definition asked :: "(cap_user_data \<Rightarrow> u32) \<Rightarrow> cap_user_header \<Rightarrow> cap_user_data list \<Rightarrow> kernel_cap_t" where
  "asked field h data = caps_of_words (map field (take (header_words h) data))"

definition capset_allowed :: "kconfig \<Rightarrow> cred \<Rightarrow> kernel_cap_t \<Rightarrow> kernel_cap_t \<Rightarrow> kernel_cap_t \<Rightarrow> bool" where
  "capset_allowed cfg c e i p \<longleftrightarrow>
     cap_set e \<subseteq> cap_set p \<and> cap_set p \<subseteq> cap_set (cap_permitted c) \<and>
     cap_set i \<subseteq> cap_set (cap_inheritable c) \<union> cap_set (cap_bset c) \<and>
     (CONFIG_SECURITY_FILE_CAPABILITIES cfg \<and> CAP_SETPCAP \<in> cap_set (cap_effective c) \<or>
      cap_set i \<subseteq> cap_set (cap_inheritable c) \<union> cap_set (cap_permitted c))"

lemma inh_capped_iff:
  "cap_inh_is_capped cfg c \<longleftrightarrow>
    \<not> (CONFIG_SECURITY_FILE_CAPABILITIES cfg \<and> CAP_SETPCAP \<in> cap_set (cap_effective c))"
  by (simp add: cap_inh_is_capped_def cap_capable_def cap_raised_set cap_numbers)

lemma cap_capset_eval:
  "cap_capset cfg c new c e i p =
    (if capset_allowed cfg c e i p
     then Inr (new\<lparr>cap_effective := e, cap_inheritable := i, cap_permitted := p\<rparr>) else Inl EPERM)"
  by (auto simp: cap_capset_def capset_allowed_def inh_capped_iff cap_abs)

lemma capset_eval:
  assumes "header_ok h" "h_pid h = 0 \<or> h_pid h = pid (current s)" "header_words h \<le> length data"
    and "cred_alloc env"
  shows "sys_capset (capability_ops cfg) env s h data =
    (if capset_allowed cfg (current_cred s) (asked ud_effective h data) (asked ud_inheritable h data)
          (asked ud_permitted h data)
     then (Inr (), h, commit_creds ((current_cred s)\<lparr>cred_id := next_cred s,
            cap_effective := asked ud_effective h data,
            cap_inheritable := asked ud_inheritable h data,
            cap_permitted := asked ud_permitted h data\<rparr>) (s\<lparr>next_cred := next_cred s + 1\<rparr>))
     else (Inl EPERM, h, s\<lparr>next_cred := next_cred s + 1\<rparr>))"
proof -
  have "h_pid_readable h" using assms(1) by (simp add: header_ok_def)
  moreover have "so_capset (capability_ops cfg) = cap_capset cfg" by (simp add: capability_ops_def)
  ultimately show ?thesis
    using assms
    by (auto simp: sys_capset_def validate_magic_ok prepare_ok cap_capset_eval abort_creds_def Let_def
        asked_def [symmetric])
qed


definition example_header :: cap_user_header where
  "example_header = \<lparr>h_version = LINUX_CAPABILITY_VERSION_3, h_pid = 0, h_readable = True,
     h_pid_readable = True, h_writable = True\<rparr>"

definition example_data :: "cap_user_data list" where
  "example_data = [\<lparr>ud_effective = 2, ud_permitted = 3, ud_inheritable = 0\<rparr>,
     \<lparr>ud_effective = 0, ud_permitted = 0, ud_inheritable = 0\<rparr>]"

lemma example_data_len: "length example_data = 2" "take 2 example_data = example_data"
  by (simp_all add: example_data_def)

lemma example_header_ok:
  "header_ok example_header" "header_words example_header = 2" "h_pid example_header = 0"
  by (simp_all add: example_header_def header_ok_def header_words_def cap_versions)

lemma example_asked:
  "asked ud_effective example_header example_data = \<lparr>cap0 = 2, cap1 = 0\<rparr>"
  "asked ud_permitted example_header example_data = \<lparr>cap0 = 3, cap1 = 0\<rparr>"
  "asked ud_inheritable example_header example_data = CAP_EMPTY_SET"
  by (simp_all add: asked_def example_header_ok example_data_def caps_of_words_def CAP_EMPTY_SET_def)

lemma example_capset_allowed:
  "capset_allowed example_config (example_cred 0 CAP_FULL_SET) \<lparr>cap0 = 2, cap1 = 0\<rparr> CAP_EMPTY_SET
    \<lparr>cap0 = 3, cap1 = 0\<rparr>"
proof -
  have "cap_issubset \<lparr>cap0 = 2, cap1 = 0\<rparr> \<lparr>cap0 = 3, cap1 = 0\<rparr>"
    by (simp add: cap_issubset_def cap_isclear_def cap_drop_def)
  moreover have "cap_set c \<subseteq> cap_set CAP_FULL_SET" for c
    by (auto simp: cap_set_full dest: cap_set_bounded)
  ultimately show ?thesis by (simp add: capset_allowed_def cap_issubset_set cap_set_empty)
qed


lemma capset_success:
  assumes "sane s" "sys_capset (capability_ops cfg) env s h data = (Inr (), h', s')"
  shows "header_ok h \<and> header_words h \<le> length data \<and> (h_pid h = 0 \<or> h_pid h = pid (current s)) \<and>
    cred_alloc env"
proof -
  obtain r h1 where v: "cap_validate_magic h = (r, h1)" by fastforce
  with assms(2) obtain n where n: "r = Inr n" by (cases r) (auto simp: sys_capset_def)
  have "h_pid_readable h1"
    using assms(2) v n by (auto simp: sys_capset_def split: if_splits)
  moreover have "h1 = h"
    using v n by (auto simp: cap_validate_magic_def split: if_splits)
  ultimately have h: "header_ok h" "n = header_words h" "h1 = h"
    using v n validate_magic_Inr by blast+
  with assms(2) v n show ?thesis
    by (auto simp: sys_capset_def prepare_creds_def split: if_splits)
qed

lemma words_of_asked:
  assumes "header_words h \<le> length data" "i < header_words h"
  shows "cap_word (asked field h data) i = field (data ! i)"
  using assms
  by (auto simp: asked_def caps_of_words_def cap_word_def header_words_def less_2_cases_iff split: if_splits)

text \<open>
  After a successful \<^verbatim>\<open>capset\<close>, \<^verbatim>\<open>capget\<close> with the same header returns the
  records that were set.
\<close>

theorem capset_capget:
  assumes "sane s" "sys_capset (capability_ops cfg) env s h data = (Inr (), h', s')"
    and "h_pid h \<ge> 0" "header_words h \<le> room"
  shows "sys_capget s' tasks h room = (Inr (take (header_words h) data), h)"
proof -
  note ok = capset_success [OF assms(1,2)]
  then have "capset_allowed cfg (current_cred s) (asked ud_effective h data)
      (asked ud_inheritable h data) (asked ud_permitted h data)"
    and s': "s' = commit_creds ((current_cred s)\<lparr>cred_id := next_cred s,
            cap_effective := asked ud_effective h data,
            cap_inheritable := asked ud_inheritable h data,
            cap_permitted := asked ud_permitted h data\<rparr>) (s\<lparr>next_cred := next_cred s + 1\<rparr>)"
    using assms(2) capset_eval [of h s data env cfg] by (auto split: if_splits)
  have c: "real_cred (current s') = (current_cred s)\<lparr>cred_id := next_cred s,
            cap_effective := asked ud_effective h data,
            cap_inheritable := asked ud_inheritable h data,
            cap_permitted := asked ud_permitted h data\<rparr>"
    unfolding s' by (rule commit_sane [OF assms(1)]) simp_all
  have p: "pid (current s') = pid (current s)"
    using assms(1) unfolding s' by (simp add: commit_creds_current sane_def)
  have "map (\<lambda>i. \<lparr>ud_effective = cap_word (asked ud_effective h data) i,
      ud_permitted = cap_word (asked ud_permitted h data) i,
      ud_inheritable = cap_word (asked ud_inheritable h data) i\<rparr>) [0..<header_words h] =
      take (header_words h) data"
    using ok by (intro nth_equalityI) (auto simp: words_of_asked)
  then show ?thesis
    using ok assms(3,4) c p
    by (auto simp: sys_capget_def validate_magic_ok cap_get_target_pid_def cap_capget_def Let_def
        header_ok_def)
qed

lemma example_capset:
  "sys_capset (capability_ops example_config) ample_env (example_kernel 0 CAP_FULL_SET)
      example_header example_data =
    (Inr (), example_header, snd (snd (sys_capset (capability_ops example_config) ample_env
      (example_kernel 0 CAP_FULL_SET) example_header example_data)))"
  using capset_eval [OF example_header_ok(1), of "example_kernel 0 CAP_FULL_SET" example_data ample_env
      example_config]
  by (simp add: example_frame example_header_ok example_asked example_capset_allowed example_data_len)

theorem capset_capget_witness:
  "fst (sys_capget (snd (snd (sys_capset (capability_ops example_config) ample_env
     (example_kernel 0 CAP_FULL_SET) example_header example_data))) (\<lambda>_. None) example_header 2) =
   Inr example_data"
  using capset_capget [OF example_frame(2) example_capset, of 2 "\<lambda>_. None"]
  by (simp add: example_header_ok example_data_len)

section \<open>prctl\<close>

lemma prctl_read_bset:
  assumes "cred_alloc env" "cap_valid (unat m)"
  shows "fst (sys_prctl cfg ops env s PR_CAPBSET_READ m str w) =
    Inr (if unat m \<in> cap_set (cap_bset (current_cred s)) then 1 else 0, NoWrite)"
  using assms
  by (simp add: sys_prctl_def cap_task_prctl_def prepare_ok cap_prctl_switch_def abort_creds_def
      cap_raised_set cap_valid_64)

lemma SETPCAP_used: "capable (capability_ops cfg) s CAP_SETPCAP =
    (CAP_SETPCAP \<in> cap_set (cap_effective (current_cred s)), used CAP_SETPCAP s)"
  by (simp add: capable_used cap_valid_ids)

lemma prctl_drop_bset:
  assumes "cred_alloc env" "CONFIG_SECURITY_FILE_CAPABILITIES cfg" "cap_valid (unat n)"
    and "CAP_SETPCAP \<in> cap_set (cap_effective (current_cred s))"
  shows "sys_prctl cfg (capability_ops cfg) env s PR_CAPBSET_DROP n str w =
    (Inr (0, NoWrite), commit_creds ((current_cred s)\<lparr>cred_id := next_cred s,
       cap_bset := cap_lower (cap_bset (current_cred s)) (unat n)\<rparr>)
       (used CAP_SETPCAP (s\<lparr>next_cred := next_cred s + 1\<rparr>)))"
  using assms
  by (simp add: sys_prctl_def cap_task_prctl_def prepare_ok cap_prctl_switch_def prctl_numbers
      cap_prctl_drop_def SETPCAP_used)

text \<open>
  With file capabilities configured and \<^verbatim>\<open>CAP_SETPCAP\<close> effective,
  \<^verbatim>\<open>prctl(PR_CAPBSET_DROP)\<close> removes exactly the capability named from the bounding set, as
  \<^verbatim>\<open>prctl(PR_CAPBSET_READ)\<close> then shows for every capability.
\<close>

theorem capbset_drop_read:
  assumes "sane s" "CONFIG_SECURITY_FILE_CAPABILITIES cfg" "cred_alloc env" "cred_alloc env'"
    and "CAP_SETPCAP \<in> cap_set (cap_effective (current_cred s))"
    and "cap_valid (unat n)" "cap_valid (unat m)"
  shows "case sys_prctl cfg (capability_ops cfg) env s PR_CAPBSET_DROP n str w of (r, s') \<Rightarrow>
    r = Inr (0, NoWrite) \<and>
    fst (sys_prctl cfg (capability_ops cfg) env' s' PR_CAPBSET_READ m str w) =
      Inr (if m \<noteq> n \<and> unat m \<in> cap_set (cap_bset (current_cred s)) then 1 else 0, NoWrite)"
proof -
  let ?new = "(current_cred s)\<lparr>cred_id := next_cred s,
    cap_bset := cap_lower (cap_bset (current_cred s)) (unat n)\<rparr>"
  let ?s' = "commit_creds ?new (used CAP_SETPCAP (s\<lparr>next_cred := next_cred s + 1\<rparr>))"
  have "current_cred ?s' = ?new" by (rule commit_sane [OF assms(1)]) simp_all
  then show ?thesis
    using prctl_drop_bset [OF assms(3,2,6,5)] prctl_read_bset [OF assms(4,7), of cfg _ ?s'] assms(6)
    by (auto simp: cap_set_lower cap_valid_64 word_unat_eq_iff)
qed

theorem capbset_drop_read_witness:
  "case sys_prctl example_config (capability_ops example_config) ample_env (example_kernel 0 CAP_FULL_SET)
      PR_CAPBSET_DROP 21 None False of (r, s') \<Rightarrow>
    fst (sys_prctl example_config (capability_ops example_config) ample_env s' PR_CAPBSET_READ 21 None False) =
      Inr (0, NoWrite)"
  using capbset_drop_read [where s = "example_kernel 0 CAP_FULL_SET" and cfg = example_config
      and env = ample_env and env' = ample_env and n = 21 and m = 21 and str = None and w = False]
  by (auto simp: example_frame full_ids example_config_def cap_valid_def CAP_LAST_CAP_def split: prod.splits)

text \<open>What \<^verbatim>\<open>PR_SET_SECUREBITS\<close> demands of the new value.\<close>

definition securebits_allowed :: "cred \<Rightarrow> u32 \<Rightarrow> bool" where
  "securebits_allowed c v \<longleftrightarrow> CAP_SETPCAP \<in> cap_set (cap_effective c) \<and>
     (\<forall>k < 32. bit v k \<longrightarrow> k < 6) \<and>
     (\<forall>k \<in> {SECURE_NOROOT, SECURE_NO_SETUID_FIXUP, SECURE_KEEP_CAPS}.
        bit (securebits c) (Suc k) \<longrightarrow> bit v (Suc k) \<and> bit v k = bit (securebits c) k)"

lemma all_six: "(\<forall>n < 32. P n) \<longleftrightarrow> P 0 \<and> P 1 \<and> P 2 \<and> P 3 \<and> P 4 \<and> P 5 \<and> (\<forall>n::nat. 6 \<le> n \<and> n < 32 \<longrightarrow> P n)"
proof -
  have "n < 32 \<longleftrightarrow> n = 0 \<or> n = 1 \<or> n = 2 \<or> n = 3 \<or> n = 4 \<or> n = 5 \<or> 6 \<le> n \<and> n < 32" for n :: nat
    by linarith
  then show ?thesis by metis
qed

lemma securebits_refused_iff: "securebits_refused c (c\<lparr>cred_id := i\<rparr>) v \<longleftrightarrow> \<not> securebits_allowed c v"
proof -
  let ?b = "securebits c"
  have "drop_bit 1 (?b AND SECURE_ALL_LOCKS) AND (?b XOR v) = 0 \<longleftrightarrow>
      (\<forall>k \<in> {0, 2, 4}. bit ?b (Suc k) \<longrightarrow> bit v k = bit ?b k)"
    unfolding word_zero_iff_bits by (simp add: all_six word_bits bit_drop_bit_eq) blast
  moreover have "?b AND SECURE_ALL_LOCKS AND NOT v = 0 \<longleftrightarrow>
      (\<forall>k \<in> {0, 2, 4}. bit ?b (Suc k) \<longrightarrow> bit v (Suc k))"
    unfolding word_zero_iff_bits by (simp add: all_six word_bits)
  moreover have "v AND NOT (SECURE_ALL_LOCKS OR SECURE_ALL_BITS) = 0 \<longleftrightarrow> (\<forall>k < 32. bit v k \<longrightarrow> k < 6)"
    unfolding word_zero_iff_bits by (auto simp: all_six word_bits)
  moreover have "cap_capable c CAP_SETPCAP \<noteq> Inr () \<longleftrightarrow> CAP_SETPCAP \<notin> cap_set (cap_effective c)"
    by (simp add: cap_capable_def cap_raised_set cap_numbers)
  ultimately show ?thesis
    by (simp add: securebits_refused_def securebits_allowed_def secure_numbers) blast
qed

text \<open>
  With file capabilities configured, \<^verbatim>\<open>prctl(PR_SET_SECUREBITS)\<close> succeeds exactly when
  \<^verbatim>\<open>CAP_SETPCAP\<close> is effective, no undefined bit is set, and every locked bit keeps its value
  and its lock; \<^verbatim>\<open>prctl(PR_GET_SECUREBITS)\<close> then returns the new value.  Otherwise it fails
  with \<^verbatim>\<open>EPERM\<close> and the bits stay.
\<close>

theorem securebits_set_get:
  assumes "sane s" "CONFIG_SECURITY_FILE_CAPABILITIES cfg" "cred_alloc env" "cred_alloc env'"
  shows "case sys_prctl cfg (capability_ops cfg) env s PR_SET_SECUREBITS v str w of
      (Inr _, s') \<Rightarrow> securebits_allowed (current_cred s) v \<and>
        fst (sys_prctl cfg (capability_ops cfg) env' s' PR_GET_SECUREBITS a str w) =
          Inr (sint v, NoWrite)
    | (Inl err, s') \<Rightarrow> \<not> securebits_allowed (current_cred s) v \<and> err = EPERM \<and>
        current_cred s' = current_cred s"
proof -
  let ?new = "(current_cred s)\<lparr>cred_id := next_cred s, securebits := v\<rparr>"
  let ?s' = "commit_creds ?new (s\<lparr>next_cred := next_cred s + 1\<rparr>)"
  have "current_cred ?s' = ?new" by (rule commit_sane [OF assms(1)]) simp_all
  moreover have "sys_prctl cfg (capability_ops cfg) env s PR_SET_SECUREBITS v str w =
      (if securebits_allowed (current_cred s) v then (Inr (0, NoWrite), ?s')
       else (Inl EPERM, s\<lparr>next_cred := next_cred s + 1\<rparr>))"
    using assms(2,3)
    by (simp add: sys_prctl_def cap_task_prctl_def prepare_ok cap_prctl_switch_def prctl_numbers
        securebits_refused_iff abort_creds_def)
  moreover have "fst (sys_prctl cfg (capability_ops cfg) env' ?s' PR_GET_SECUREBITS a str w) =
      Inr (sint (securebits (current_cred ?s')), NoWrite)"
    using assms(2,4)
    by (simp add: sys_prctl_def cap_task_prctl_def prepare_ok cap_prctl_switch_def prctl_numbers)
  ultimately show ?thesis by simp
qed

theorem securebits_set_get_witness:
  "case sys_prctl example_config (capability_ops example_config) ample_env (example_kernel 0 CAP_FULL_SET)
      PR_SET_SECUREBITS 64 None False of (r, s') \<Rightarrow> r = Inl EPERM"
proof -
  have "bit (64 :: u32) 6" by (simp add: bit_iff_odd)
  then have "\<not> securebits_allowed (example_cred 0 CAP_FULL_SET) 64"
    by (auto simp: securebits_allowed_def intro!: exI [of _ 6])
  then show ?thesis
    using securebits_set_get [where s = "example_kernel 0 CAP_FULL_SET" and cfg = example_config
        and env = ample_env and env' = ample_env and v = 64 and str = None and w = False and a = 0]
    by (auto simp: example_frame example_config_def split: prod.splits sum.splits)
qed

end
