(* ===== verification/Exec_Spec.thy ===== *)
theory Exec_Spec
  imports Syscap_Spec
begin

text \<open>
  The functional behaviour of \<^verbatim>\<open>execve\<close> on credentials: the formula for file
  capabilities, the rule for root, the irrelevance of a script's own set-id bits, the mark
  \<^verbatim>\<open>in_exec\<close> and the task's name.
\<close>

section \<open>File capabilities\<close>

text \<open>An execution that nobody traces or shares, so that no downgrade is due.\<close>

definition safe_exec :: "linux_binprm \<Rightarrow> bool" where
  "safe_exec bprm \<longleftrightarrow> b_unsafe bprm AND NOT LSM_UNSAFE_PTRACE_CAP = 0"

lemma downgrade_safe:
  "unsafe AND NOT LSM_UNSAFE_PTRACE_CAP = 0 \<Longrightarrow> bprm_downgrade cfg ops s unsafe old new = (new, s)"
  by (simp add: bprm_downgrade_def)

definition file_permitted :: "cpu_vfs_cap_data \<Rightarrow> cred \<Rightarrow> kernel_cap_t" where
  "file_permitted vc c = cap_combine (cap_intersect (cap_bset c) (vc_permitted vc))
     (cap_intersect (cap_inheritable c) (vc_inheritable vc))"

definition file_effective :: "cpu_vfs_cap_data \<Rightarrow> bool" where
  "file_effective vc \<longleftrightarrow> magic_etc vc AND VFS_CAP_FLAGS_EFFECTIVE \<noteq> 0"

definition file_caps_used :: "kconfig \<Rightarrow> linux_binprm \<Rightarrow> cpu_vfs_cap_data \<Rightarrow> bool" where
  "file_caps_used cfg bprm vc \<longleftrightarrow> CONFIG_SECURITY_FILE_CAPABILITIES cfg \<and> file_caps_enabled cfg \<and>
     \<not> mnt_nosuid (b_file bprm) \<and> get_vfs_caps_from_disk cfg (f_inode (b_file bprm)) = Inr vc"

lemma get_file_caps_eval:
  assumes "file_caps_used cfg bprm vc"
  shows "get_file_caps cfg bprm False =
    (if file_effective vc \<and> \<not> cap_issubset (vc_permitted vc) (file_permitted vc (b_cred bprm))
     then (Inl EPERM, bprm_clear_caps bprm, True)
     else (Inr (), bprm\<lparr>b_cred := (b_cred bprm)\<lparr>cap_permitted := file_permitted vc (b_cred bprm)\<rparr>,
             b_cap_effective := False\<rparr>, file_effective vc))"
  using assms
  unfolding get_file_caps_def bprm_caps_from_vfs_caps_def vfs_caps_fold
  by (auto simp: file_caps_used_def file_effective_def file_permitted_def bprm_clear_caps_def Let_def)

text \<open>
  C7: when a program file has capabilities attached and neither the root rule nor a downgrade
  applies, the new permitted set is the bounding set restricted to the file's permitted set
  plus the inheritable set restricted to the file's inheritable set; the effective set is that
  or empty, by the file's effective flag.  A flagged file that would not get all its permitted
  capabilities is refused with \<^verbatim>\<open>EPERM\<close>.
\<close>

theorem exec_file_capabilities:
  assumes "file_caps_used cfg bprm vc" "safe_exec bprm" "\<not> is_global_init (current s)"
    and "issecure (current_cred s) SECURE_NOROOT \<or> uid (b_cred bprm) \<noteq> 0 \<and> euid (b_cred bprm) \<noteq> 0"
  shows "case cap_bprm_set_creds cfg ops s bprm of
      (Inr _, bprm', s') \<Rightarrow>
        cap_set (cap_permitted (b_cred bprm')) =
          (cap_set (cap_bset (b_cred bprm)) \<inter> cap_set (vc_permitted vc)) \<union>
          (cap_set (cap_inheritable (b_cred bprm)) \<inter> cap_set (vc_inheritable vc)) \<and>
        cap_effective (b_cred bprm') =
          (if file_effective vc then cap_permitted (b_cred bprm') else CAP_EMPTY_SET) \<and>
        (file_effective vc \<longrightarrow> cap_set (vc_permitted vc) \<subseteq> cap_set (cap_permitted (b_cred bprm')))
    | (Inl err, bprm', s') \<Rightarrow> err = EPERM \<and> cap_permitted (b_cred bprm') = CAP_EMPTY_SET \<and>
        file_effective vc \<and> \<not> cap_set (vc_permitted vc) \<subseteq>
          (cap_set (cap_bset (b_cred bprm)) \<inter> cap_set (vc_permitted vc)) \<union>
          (cap_set (cap_inheritable (b_cred bprm)) \<inter> cap_set (vc_inheritable vc))"
proof -
  have P: "cap_set (file_permitted vc (b_cred bprm)) =
      (cap_set (cap_bset (b_cred bprm)) \<inter> cap_set (vc_permitted vc)) \<union>
      (cap_set (cap_inheritable (b_cred bprm)) \<inter> cap_set (vc_inheritable vc))"
    by (simp add: file_permitted_def cap_abs)
  have root: "bprm_root_override (current_cred s)
      ((b_cred bprm)\<lparr>cap_permitted := X\<rparr>) eff = ((b_cred bprm)\<lparr>cap_permitted := X\<rparr>, eff)" for X eff
    using assms(4) by (auto simp: bprm_root_override_def)
  show ?thesis
    using assms(2,3)
    by (simp add: cap_bprm_set_creds_def get_file_caps_eval [OF assms(1)] root safe_exec_def
        downgrade_safe Let_def cap_issubset_set P [symmetric] bprm_clear_caps_def)
qed

definition example_file :: "u8 list \<Rightarrow> exec_file" where
  "example_file bytes = \<lparr>mnt_nosuid = False,
     f_inode = Some \<lparr>i_getxattr = Some (\<lambda>_. if bytes = [] then Inl ENODATA else Inr bytes),
       i_removexattr = None\<rparr>\<rparr>"

definition example_bprm :: "u32 \<Rightarrow> u8 list \<Rightarrow> linux_binprm" where
  "example_bprm u bytes = \<lparr>b_cred = example_cred u CAP_EMPTY_SET, b_cap_effective = False, b_unsafe = 0,
     b_file = example_file bytes\<rparr>"

text \<open>A revision 2 attribute with the effective flag and \<^verbatim>\<open>CAP_NET_RAW\<close> (13) permitted.\<close>

definition example_vfs_caps :: "u8 list" where
  "example_vfs_caps = [1, 0, 0, 2] @ [0, 32, 0, 0] @ replicate 12 0"

lemma example_get_vfs_caps:
  "get_vfs_caps_from_disk example_config (f_inode (example_file example_vfs_caps)) =
    Inr \<lparr>magic_etc = 0x02000001, vc_permitted = cap_raise CAP_EMPTY_SET 13, vc_inheritable = CAP_EMPTY_SET\<rparr>"
  by code_simp

lemma example_file_caps:
  "file_caps_used example_config (example_bprm 5 example_vfs_caps)
    \<lparr>magic_etc = 0x02000001, vc_permitted = cap_raise CAP_EMPTY_SET 13, vc_inheritable = CAP_EMPTY_SET\<rparr>"
  using example_get_vfs_caps
  by (simp add: file_caps_used_def example_bprm_def) (simp add: example_config_def example_file_def)

lemma example_bprm_frame:
  "safe_exec (example_bprm u bytes)" "\<not> is_global_init (current (example_kernel u k))"
  "b_cred (example_bprm u bytes) = example_cred u CAP_EMPTY_SET"
  "b_file (example_bprm u bytes) = example_file bytes"
  "\<not> issecure (example_cred u k) n"
  by (simp_all add: example_bprm_def safe_exec_def is_global_init_def example_kernel_def issecure_def)

theorem exec_file_capabilities_witness:
  "case cap_bprm_set_creds example_config (capability_ops example_config) (example_kernel 5 CAP_EMPTY_SET)
      (example_bprm 5 example_vfs_caps) of
    (r, bprm', s') \<Rightarrow> r = Inr () \<and> cap_set (cap_permitted (b_cred bprm')) = {13}"
proof -
  have "cap_set (cap_raise CAP_EMPTY_SET 13) = {13}" "13 \<in> cap_set CAP_FULL_SET"
    by (simp_all add: cap_set_raise cap_set_empty cap_set_full)
  then show ?thesis
    using exec_file_capabilities [OF example_file_caps,
      where s = "example_kernel 5 CAP_EMPTY_SET" and ops = "capability_ops example_config"]
    by (auto simp: example_bprm_frame example_frame cap_set_empty split: prod.splits sum.splits)
qed



section \<open>Names and marks\<close>

definition basename :: "string \<Rightarrow> string" where
  "basename name = rev (takeWhile (\<lambda>ch. ch \<noteq> CHR ''/'') (rev name))"

lemma exec_comm_app:
  "CHR ''/'' \<notin> set name \<Longrightarrow> length tcomm \<le> TASK_COMM_LEN - 1 \<Longrightarrow>
    exec_comm name tcomm = take (TASK_COMM_LEN - 1) (tcomm @ name)"
  by (induction name arbitrary: tcomm) (auto simp: TASK_COMM_LEN_def take_Cons')

lemma exec_comm_slash: "exec_comm (xs @ CHR ''/'' # ys) tcomm = exec_comm ys []"
  by (induction xs arbitrary: tcomm) auto

lemma basename_split:
  obtains "CHR ''/'' \<notin> set name" "basename name = name"
  | xs where "name = xs @ CHR ''/'' # basename name" "CHR ''/'' \<notin> set (basename name)"
proof (cases "CHR ''/'' \<in> set name")
  case False
  then have "takeWhile (\<lambda>ch. ch \<noteq> CHR ''/'') (rev name) = rev name"
    by (auto simp: takeWhile_eq_all_conv)
  then have "basename name = name" unfolding basename_def by (metis rev_rev_ident)
  with False that(1) show thesis by blast
next
  case True
  then obtain ys zs where s: "name = ys @ CHR ''/'' # zs" "CHR ''/'' \<notin> set zs"
    by (meson split_list_last)
  then have "takeWhile (\<lambda>ch. ch \<noteq> CHR ''/'') (rev name) = rev zs"
    by (auto simp: takeWhile_append)
  then have "basename name = zs" by (simp add: basename_def)
  with s that(2) [of ys] show thesis by simp
qed

text \<open>
  The loop in \<^verbatim>\<open>flush_old_exec\<close> that copies the file's name into a fixed buffer of
  \<^verbatim>\<open>TASK_COMM_LEN\<close> bytes leaves the part after the last slash, cut to 15 bytes.
\<close>

theorem exec_comm_basename: "exec_comm name [] = take 15 (basename name)"
proof (cases name rule: basename_split)
  case 1
  then show ?thesis using exec_comm_app [of name "[]"] by (simp add: TASK_COMM_LEN_def)
next
  case (2 xs)
  then have "exec_comm name [] = exec_comm (basename name) []"
    using exec_comm_slash [of xs "basename name" "[]"] by simp
  then show ?thesis using exec_comm_app [of "basename name" "[]"] 2(2) by (simp add: TASK_COMM_LEN_def)
qed

lemma capable_fs: "capable ops s n = (b, s') \<Longrightarrow> current_fs s' = current_fs s"
  by (auto simp: capable_def split: if_splits)

lemma limit_fs: "cap_limit_ptraced_target cfg ops s = (b, s') \<Longrightarrow> current_fs s' = current_fs s"
  by (auto simp: cap_limit_ptraced_target_def split: if_splits prod.splits dest: capable_fs)

lemma downgrade_fs:
  "bprm_downgrade cfg ops s unsafe old new = (new', s') \<Longrightarrow> current_fs s' = current_fs s"
  by (auto simp: bprm_downgrade_def Let_def split: if_splits prod.splits dest!: capable_fs limit_fs)

lemma bprm_set_creds_fs:
  "cap_bprm_set_creds cfg ops s bprm = (r, bprm', s') \<Longrightarrow> current_fs s' = current_fs s"
  by (auto simp: cap_bprm_set_creds_def Let_def split: sum.splits prod.splits dest: downgrade_fs)

lemma prepare_chain_fs:
  "prepare_chain cfg ops s ims bprm = (r, bprm', s') \<Longrightarrow> current_fs s' = current_fs s"
proof (induction ims arbitrary: s bprm)
  case (Cons im ims)
  obtain r1 bprm1 s1 where 1: "prepare_binprm cfg ops s im bprm = (r1, bprm1, s1)"
    by (metis surj_pair)
  then have "current_fs s1 = current_fs s"
    by (auto simp: prepare_binprm_def Let_def split: if_splits dest: bprm_set_creds_fs)
  with Cons.prems 1 Cons.IH [of s1 bprm1] show ?case by (cases r1) auto
qed simp

lemma commit_fs: "current_fs (commit_creds new s) = current_fs s"
  by (simp add: commit_creds_def Let_def)

lemma flush_fs: "current_fs (flush_old_exec xe bprm s) = current_fs s"
  by (simp add: flush_old_exec_def Let_def)

text \<open>
  C24: \<^verbatim>\<open>do_execve\<close> never leaves the mark \<^verbatim>\<open>in_exec\<close> behind: on every path, the
  failing ones included, a file system structure that was not marked before is not marked
  afterwards, so that a later \<^verbatim>\<open>execve\<close> is not refused with \<^verbatim>\<open>EAGAIN\<close>.
\<close>

theorem exec_clears_mark:
  assumes "\<not> fs_in_exec (current_fs s)"
  shows "\<not> fs_in_exec (current_fs (snd (do_execve cfg ops env xe s ims)))"
proof (cases "prepare_creds env s")
  case None
  with assms show ?thesis by (simp add: do_execve_def)
next
  case (Some p)
  obtain new s1 where p: "p = (new, s1)" by fastforce
  with Some assms have s1: "\<not> fs_in_exec (current_fs s1)"
    by (auto simp: prepare_creds_def split: if_splits)
  obtain cu fs where cu: "check_unsafe_exec xe (current_fs s1) = (cu, fs)" by fastforce
  show ?thesis
  proof (cases cu)
    case (Inl e)
    with Some p cu s1 show ?thesis by (simp add: do_execve_def abort_creds_def)
  next
    case (Inr v)
    obtain cl unsafe where v: "v = (cl, unsafe)" by fastforce
    with cu Inr s1 have fs: "\<not> fs_in_exec fs \<or> cl"
      by (auto simp: check_unsafe_exec_def Let_def split: if_splits)
    let ?b = "\<lparr>b_cred = new, b_cap_effective = False, b_unsafe = unsafe, b_file = im_file (hd ims)\<rparr>"
    obtain r3 bprm s3 where ch: "prepare_chain cfg ops (s1\<lparr>current_fs := fs\<rparr>) ims ?b = (r3, bprm, s3)"
      by (metis surj_pair)
    then have "current_fs s3 = fs" by (auto dest: prepare_chain_fs)
    with Some p cu Inr v ch fs show ?thesis
      by (auto simp: do_execve_def Let_def abort_creds_def unmark_exec_def install_exec_creds_def
          commit_fs flush_fs split: sum.split)
  qed
qed

definition example_image :: "mode_t \<Rightarrow> exec_image" where
  "example_image mode = \<lparr>im_fop = True, im_inode = \<lparr>x_mode = mode, x_uid = 0, x_gid = 0\<rparr>,
     im_file = \<lparr>mnt_nosuid = False, f_inode = None\<rparr>\<rparr>"

definition example_exec_env :: exec_env where
  "example_exec_env = \<lparr>xe_filename = ''/bin/script'', xe_ptraced = False, xe_ptrace_cap = False,
     xe_threads = [], xe_open = Inr (), xe_handler = Inr (), xe_unreadable = False, xe_nondump = False\<rparr>"

theorem exec_clears_mark_witness:
  "\<not> fs_in_exec (current_fs (snd (do_execve example_config (capability_ops example_config) ample_env
     example_exec_env (example_kernel 5 CAP_EMPTY_SET) [example_image 0x9ED])))"
  using exec_clears_mark [of "example_kernel 5 CAP_EMPTY_SET"] by (simp add: example_kernel_def)

section \<open>Scripts\<close>

text \<open>
  What of a binary parameter block survives into the next round of the chain: everything but
  the ids and sets that the round computes anew and the secure bit it clears.
\<close>

definition scrub :: "cred \<Rightarrow> cred" where
  "scrub c = c\<lparr>euid := 0, egid := 0, suid := 0, sgid := 0, fsuid := 0, fsgid := 0,
     cap_permitted := CAP_EMPTY_SET, cap_effective := CAP_EMPTY_SET,
     securebits := securebits c AND NOT (issecure_mask SECURE_KEEP_CAPS)\<rparr>"

definition image_caps :: "kconfig \<Rightarrow> exec_file \<Rightarrow> cred \<Rightarrow> (kernel_cap_t \<times> bool) result" where
  "image_caps cfg file c =
     (if \<not> CONFIG_SECURITY_FILE_CAPABILITIES cfg \<or> \<not> file_caps_enabled cfg \<or> mnt_nosuid file
      then Inr (CAP_EMPTY_SET, False)
      else case get_vfs_caps_from_disk cfg (f_inode file) of
        Inl e \<Rightarrow> if e = ENODATA then Inr (CAP_EMPTY_SET, False) else Inl e
      | Inr vc \<Rightarrow>
          if file_effective vc \<and> \<not> cap_issubset (vc_permitted vc) (file_permitted vc c)
          then Inl EPERM else Inr (file_permitted vc c, file_effective vc))"

lemma get_file_caps_image:
  "case get_file_caps cfg bprm False of
     (Inl e, b, eff) \<Rightarrow> image_caps cfg (b_file bprm) (b_cred bprm) = Inl e
   | (Inr _, b, eff) \<Rightarrow> \<exists>P. image_caps cfg (b_file bprm) (b_cred bprm) = Inr (P, eff) \<and>
       b_cred b = (b_cred bprm)\<lparr>cap_permitted := P\<rparr> \<and> b_unsafe b = b_unsafe bprm"
proof (cases "\<exists>vc. file_caps_used cfg bprm vc")
  case True
  then obtain vc where u: "file_caps_used cfg bprm vc" ..
  then show ?thesis
    by (simp add: get_file_caps_eval [OF u] image_caps_def) (simp add: file_caps_used_def)
next
  case False
  then show ?thesis
    by (auto simp: get_file_caps_def image_caps_def file_caps_used_def bprm_clear_caps_def Let_def
        split: sum.split)
qed

text \<open>The credentials that one round leaves, as a function of what it reads.\<close>

definition round_cred ::
  "kconfig \<Rightarrow> security_operations \<Rightarrow> kernel \<Rightarrow> u32 \<Rightarrow> cred \<Rightarrow> kernel_cap_t \<Rightarrow> bool \<Rightarrow> cred" where
  "round_cred cfg ops s unsafe c P eff =
     (case bprm_root_override (current_cred s) (c\<lparr>cap_permitted := P\<rparr>) eff of (c1, eff1) \<Rightarrow>
      exec_finish (is_global_init (current s)) eff1
        (fst (bprm_downgrade cfg ops s unsafe (current_cred s) c1)))"

lemma set_creds_round:
  "case cap_bprm_set_creds cfg (capability_ops cfg) s bprm of
     (Inl e, b, s') \<Rightarrow> True
   | (Inr _, b, s') \<Rightarrow> \<exists>P eff. image_caps cfg (b_file bprm) (b_cred bprm) = Inr (P, eff) \<and>
       b_cred b = round_cred cfg (capability_ops cfg) s (b_unsafe bprm) (b_cred bprm) P eff \<and>
       b_unsafe b = b_unsafe bprm"
proof -
  obtain r b s' where run: "cap_bprm_set_creds cfg (capability_ops cfg) s bprm = (r, b, s')"
    by (metis surj_pair)
  have init: "is_global_init (current s') = is_global_init (current s)"
    using capability_lsm.bprm_set_creds_same_task [OF run] by (simp add: same_task_def is_global_init_def)
  show ?thesis
  proof (cases r)
    case (Inr u)
    with run have "cap_bprm_set_creds cfg (capability_ops cfg) s bprm = (Inr u, b, s')" by simp
    then obtain b1 eff1 n1 eff2 n2 where st:
      "get_file_caps cfg bprm False = (Inr (), b1, eff1)"
      "bprm_root_override (current_cred s) (b_cred b1) eff1 = (n1, eff2)"
      "bprm_downgrade cfg (capability_ops cfg) s (b_unsafe b1) (current_cred s) n1 = (n2, s')"
      "b_cred b = exec_finish (is_global_init (current s')) eff2 n2"
      by (rule bprm_set_creds_stages)
    moreover have "b_unsafe b = b_unsafe b1"
      using run Inr st(1-3) by (auto simp: cap_bprm_set_creds_def Let_def)
    ultimately show ?thesis
      using get_file_caps_image [of cfg bprm] run Inr init by (auto simp: round_cred_def)
  qed (simp add: run)
qed

text \<open>What the downgrade reads and writes.\<close>

lemma downgrade_local:
  "fst (bprm_downgrade cfg ops s unsafe old (c\<lparr>suid := a, sgid := b, fsuid := d, fsgid := e,
      cap_effective := p, securebits := q\<rparr>)) =
    (fst (bprm_downgrade cfg ops s unsafe old c))\<lparr>suid := a, sgid := b, fsuid := d, fsgid := e,
      cap_effective := p, securebits := q\<rparr>"
proof -
  obtain b1 s1 where 1: "capable ops s CAP_SETUID = (b1, s1)" by fastforce
  obtain b2 s2 where 2: "cap_limit_ptraced_target cfg ops s1 = (b2, s2)" by fastforce
  show ?thesis
    by (cases b1; cases b2) (simp_all add: bprm_downgrade_def Let_def 1 2)
qed

lemma root_override_local:
  "bprm_root_override old (c\<lparr>suid := a, sgid := b, fsuid := d, fsgid := e,
      cap_effective := p, securebits := q\<rparr>) eff =
    (case bprm_root_override old c eff of (c', eff') \<Rightarrow>
       (c'\<lparr>suid := a, sgid := b, fsuid := d, fsgid := e, cap_effective := p, securebits := q\<rparr>, eff'))"
  by (simp add: bprm_root_override_def)

lemma scrub_diff:
  assumes "scrub c = scrub c'" "euid c = euid c'" "egid c = egid c'"
  shows "c'\<lparr>cap_permitted := P\<rparr> = (c\<lparr>cap_permitted := P\<rparr>)\<lparr>suid := suid c', sgid := sgid c',
    fsuid := fsuid c', fsgid := fsgid c', cap_effective := cap_effective c', securebits := securebits c'\<rparr>"
  using assms by (cases c, cases c') (simp add: scrub_def)

lemma round_cred_cong:
  assumes "scrub c = scrub c'" "euid c = euid c'" "egid c = egid c'" "\<not> is_global_init (current s)"
  shows "round_cred cfg ops s unsafe c' P eff = round_cred cfg ops s unsafe c P eff"
proof -
  have sb: "securebits c' AND NOT (issecure_mask SECURE_KEEP_CAPS) =
      securebits c AND NOT (issecure_mask SECURE_KEEP_CAPS)"
    using assms(1) by (cases c, cases c') (simp add: scrub_def)
  obtain c1 eff1 where 1: "bprm_root_override (current_cred s) (c\<lparr>cap_permitted := P\<rparr>) eff = (c1, eff1)"
    by fastforce
  obtain c2 s2 where 2: "bprm_downgrade cfg ops s unsafe (current_cred s) c1 = (c2, s2)"
    by fastforce
  have "securebits c2 = securebits c"
    using root_override_frame(3) [OF 1] downgrade_frame(3) [OF 2] by simp
  then show ?thesis
    unfolding round_cred_def scrub_diff [OF assms(1-3)] root_override_local 1 prod.case downgrade_local
    using assms(4) sb 2 by (simp add: exec_finish_def)
qed

lemma scrub_permitted: "scrub (c\<lparr>cap_permitted := P\<rparr>) = scrub c"
  by (simp add: scrub_def)

lemma scrub_finish: "scrub (exec_finish init eff c) = scrub c"
  by (simp add: scrub_def exec_finish_def and.assoc)

lemma scrub_root_override: "scrub (fst (bprm_root_override old c eff)) = scrub c"
  by (simp add: bprm_root_override_def scrub_permitted)

lemma scrub_downgrade: "scrub (fst (bprm_downgrade cfg ops s unsafe old c)) = scrub c"
proof -
  obtain b1 s1 where 1: "capable ops s CAP_SETUID = (b1, s1)" by fastforce
  obtain b2 s2 where 2: "cap_limit_ptraced_target cfg ops s1 = (b2, s2)" by fastforce
  show ?thesis
    by (cases b1; cases b2) (simp_all add: bprm_downgrade_def Let_def 1 2 scrub_def)
qed

lemma round_cred_scrub: "scrub (round_cred cfg ops s unsafe c P eff) = scrub c"
  unfolding round_cred_def
  by (simp add: scrub_finish scrub_downgrade split: prod.split)
    (metis fst_conv scrub_permitted scrub_root_override)

lemma scrub_eqD:
  assumes "scrub c = scrub c'"
  shows "cap_bset c = cap_bset c'" "cap_inheritable c = cap_inheritable c'"
  using assms by (cases c, cases c', simp add: scrub_def)+

lemma image_caps_cong: "scrub c = scrub c' \<Longrightarrow> image_caps cfg file c = image_caps cfg file c'"
  using scrub_eqD [of c c'] by (simp add: image_caps_def file_permitted_def split: sum.split)

lemma binprm_ids_scrub:
  "scrub (binprm_ids s inode bprm) = scrub (b_cred bprm)"
  by (simp add: binprm_ids_def Let_def scrub_def)

lemma binprm_ids_cong:
  assumes "same_task s s'" "b_file bprm = b_file bprm'"
  shows "euid (binprm_ids s inode bprm) = euid (binprm_ids s' inode bprm')"
    "egid (binprm_ids s inode bprm) = egid (binprm_ids s' inode bprm')"
  using assms by (simp_all add: binprm_ids_def Let_def same_task_def)

lemma round_cred_same_task:
  assumes "same_task s s'"
  shows "round_cred cfg (capability_ops cfg) s' unsafe c P eff =
    round_cred cfg (capability_ops cfg) s unsafe c P eff"
proof -
  have "fst (bprm_downgrade cfg (capability_ops cfg) s' unsafe old c1) =
      fst (bprm_downgrade cfg (capability_ops cfg) s unsafe old c1)" for old c1
    using assms
    by (simp add: bprm_downgrade_def cap_limit_ptraced_target_def capable_used cap_valid_ids Let_def
        same_task_def)
  with assms show ?thesis
    by (simp add: round_cred_def same_task_def is_global_init_def)
qed

text \<open>Two rounds on the same image that start from scrubbed-equal blocks end in the same credentials.\<close>

lemma prepare_binprm_cong:
  assumes "prepare_binprm cfg (capability_ops cfg) s im b = (Inr u, b1, s1)"
    and "prepare_binprm cfg (capability_ops cfg) s' im b' = (Inr u', b1', s1')"
    and "scrub (b_cred b) = scrub (b_cred b')" "b_unsafe b = b_unsafe b'" "same_task s s'"
    and "\<not> is_global_init (current s)"
  shows "b_cred b1 = b_cred b1'"
proof -
  let ?n = "\<lambda>s b. binprm_ids s (im_inode im) (b\<lparr>b_file := im_file im\<rparr>)"
  have set: "cap_bprm_set_creds cfg (capability_ops cfg) s (b\<lparr>b_file := im_file im, b_cred := ?n s b\<rparr>) =
      (Inr u, b1, s1)"
    "cap_bprm_set_creds cfg (capability_ops cfg) s' (b'\<lparr>b_file := im_file im, b_cred := ?n s' b'\<rparr>) =
      (Inr u', b1', s1')"
    using assms(1,2) by (auto simp: prepare_binprm_def Let_def split: if_splits)
  have sc: "scrub (?n s b) = scrub (?n s' b')" by (simp add: binprm_ids_scrub assms(3))
  obtain P eff where 1: "image_caps cfg (im_file im) (?n s b) = Inr (P, eff)"
    "b_cred b1 = round_cred cfg (capability_ops cfg) s (b_unsafe b) (?n s b) P eff"
    using set_creds_round [where cfg = cfg and s = s and bprm = "b\<lparr>b_file := im_file im, b_cred := ?n s b\<rparr>"] set(1) by auto
  moreover obtain P' eff' where 2: "image_caps cfg (im_file im) (?n s' b') = Inr (P', eff')"
    "b_cred b1' = round_cred cfg (capability_ops cfg) s' (b_unsafe b') (?n s' b') P' eff'"
    using set_creds_round [where cfg = cfg and s = s' and bprm = "b'\<lparr>b_file := im_file im, b_cred := ?n s' b'\<rparr>"] set(2) by auto
  moreover have "P' = P" "eff' = eff"
    using 1(1) 2(1) image_caps_cong [OF sc] by simp_all
  moreover have "round_cred cfg (capability_ops cfg) s (b_unsafe b) (?n s' b') P eff =
      round_cred cfg (capability_ops cfg) s (b_unsafe b) (?n s b) P eff"
    by (rule round_cred_cong [OF sc])
      (simp_all add: binprm_ids_cong [OF assms(5)] assms(6))
  ultimately show ?thesis
    using assms(4) round_cred_same_task [OF assms(5)] by simp
qed

lemma prepare_binprm_scrub:
  assumes "prepare_binprm cfg (capability_ops cfg) s im b = (Inr u, b1, s1)"
  shows "scrub (b_cred b1) = scrub (b_cred b)" "b_unsafe b1 = b_unsafe b"
proof -
  let ?b = "b\<lparr>b_file := im_file im, b_cred := binprm_ids s (im_inode im) (b\<lparr>b_file := im_file im\<rparr>)\<rparr>"
  have "cap_bprm_set_creds cfg (capability_ops cfg) s ?b = (Inr u, b1, s1)"
    using assms by (auto simp: prepare_binprm_def Let_def split: if_splits)
  with set_creds_round [where cfg = cfg and s = s and bprm = ?b] show "scrub (b_cred b1) = scrub (b_cred b)" "b_unsafe b1 = b_unsafe b"
    by (auto simp: round_cred_scrub binprm_ids_scrub)
qed

lemma prepare_chain_last:
  assumes "prepare_chain cfg (capability_ops cfg) s (ims @ [im]) b = (Inr u, b1, s1)"
    and "prepare_chain cfg (capability_ops cfg) s' [im] b' = (Inr u', b1', s1')"
    and "scrub (b_cred b) = scrub (b_cred b')" "b_unsafe b = b_unsafe b'" "same_task s s'"
    and "\<not> is_global_init (current s)"
  shows "b_cred b1 = b_cred b1'"
  using assms
proof (induction ims arbitrary: s b)
  case Nil
  obtain r c t where 1: "prepare_binprm cfg (capability_ops cfg) s im b = (r, c, t)"
    by (metis surj_pair)
  obtain r' c' t' where 2: "prepare_binprm cfg (capability_ops cfg) s' im b' = (r', c', t')"
    by (metis surj_pair)
  from 1 2 Nil.prems(1,2) have "r = Inr ()" "r' = Inr ()" "c = b1" "c' = b1'"
    by (cases r; cases r'; simp)+
  with 1 2 Nil.prems(3-6) show ?case by (blast intro: prepare_binprm_cong)
next
  case (Cons i ims)
  obtain r c t where 1: "prepare_binprm cfg (capability_ops cfg) s i b = (r, c, t)"
    by (metis surj_pair)
  with Cons.prems(1) have r: "r = Inr ()" by (cases r) auto
  have st: "same_task s t" using 1 by (rule capability_lsm.prepare_binprm_same_task)
  then have "same_task t s'" "\<not> is_global_init (current t)"
    using Cons.prems(5,6) by (simp_all add: same_task_def is_global_init_def)
  with Cons.IH [of t c] Cons.prems(1-4) 1 r prepare_binprm_scrub [of cfg s i b "()" c t] show ?case
    by simp
qed

lemma do_execve_Inr:
  assumes "sane s" "do_execve cfg (capability_ops cfg) env xe s ims = (Inr u, s')"
  obtains cl unsafe fs bprm s3 where
    "check_unsafe_exec xe (current_fs s) = (Inr (cl, unsafe), fs)"
    "prepare_chain cfg (capability_ops cfg) (s\<lparr>next_cred := next_cred s + 1, current_fs := fs\<rparr>) ims
       \<lparr>b_cred = (current_cred s)\<lparr>cred_id := next_cred s\<rparr>, b_cap_effective = False,
        b_unsafe = unsafe, b_file = im_file (hd ims)\<rparr> = (Inr (), bprm, s3)"
    "current_cred s' = b_cred bprm"
proof -
  obtain cu fs where cu: "check_unsafe_exec xe (current_fs s) = (cu, fs)" by fastforce
  have al: "cred_alloc env"
    using assms(2) by (auto simp: do_execve_def prepare_creds_def split: if_splits)
  with assms(2) cu obtain cl unsafe where v: "cu = Inr (cl, unsafe)" "xe_open xe = Inr ()"
    by (cases cu; cases "xe_open xe") (auto simp: do_execve_def prepare_ok)
  let ?s2 = "s\<lparr>next_cred := next_cred s + 1, current_fs := fs\<rparr>"
  let ?b = "\<lparr>b_cred = (current_cred s)\<lparr>cred_id := next_cred s\<rparr>, b_cap_effective = False,
    b_unsafe = unsafe, b_file = im_file (hd ims)\<rparr>"
  obtain r3 bprm s3 where ch: "prepare_chain cfg (capability_ops cfg) ?s2 ims ?b = (r3, bprm, s3)"
    by (metis surj_pair)
  have r: "r3 = Inr ()" "s' = unmark_exec True (commit_creds (b_cred bprm) (flush_old_exec xe bprm s3))"
    using assms(2) al cu v ch
    by (cases r3; cases "xe_handler xe"; auto simp: do_execve_def prepare_ok Let_def install_exec_creds_def)+
  have "exec_pre ?s2 ?b" by (simp add: exec_pre_def exec_frame_def)
  with ch have "same_task ?s2 s3" using capability_lsm.prepare_chain_result by blast
  then have "same_task s (flush_old_exec xe bprm s3)"
    using capability_lsm.flush_same_task [of s3 xe bprm] by (simp add: same_task_def)
  then have "current_cred s' = b_cred bprm"
    using capability_lsm.commit_unmark [OF assms(1)] r(2) by blast
  with that cu v ch r(1) show thesis by simp
qed

text \<open>
  C6: the set-user-id and set-group-id bits and the file capabilities of a script have no
  effect: running a script through any chain of interpreters gives the credentials that
  running the last interpreter directly gives.
\<close>

theorem script_privileges_ignored:
  assumes "sane s" "\<not> is_global_init (current s)"
    and "do_execve cfg (capability_ops cfg) env xe s (ims @ [im]) = (Inr (), s1)"
    and "do_execve cfg (capability_ops cfg) env' xe s [im] = (Inr (), s2)"
  shows "current_cred s1 = current_cred s2"
proof -
  obtain cl un fs b1 t1 where 1: "check_unsafe_exec xe (current_fs s) = (Inr (cl, un), fs)"
    "prepare_chain cfg (capability_ops cfg) (s\<lparr>next_cred := next_cred s + 1, current_fs := fs\<rparr>)
       (ims @ [im]) \<lparr>b_cred = (current_cred s)\<lparr>cred_id := next_cred s\<rparr>, b_cap_effective = False,
        b_unsafe = un, b_file = im_file (hd (ims @ [im]))\<rparr> = (Inr (), b1, t1)"
    "current_cred s1 = b_cred b1"
    by (rule do_execve_Inr [OF assms(1,3)])
  obtain cl' un' fs' b2 t2 where 2: "check_unsafe_exec xe (current_fs s) = (Inr (cl', un'), fs')"
    "prepare_chain cfg (capability_ops cfg) (s\<lparr>next_cred := next_cred s + 1, current_fs := fs'\<rparr>)
       [im] \<lparr>b_cred = (current_cred s)\<lparr>cred_id := next_cred s\<rparr>, b_cap_effective = False,
        b_unsafe = un', b_file = im_file (hd [im])\<rparr> = (Inr (), b2, t2)"
    "current_cred s2 = b_cred b2"
    by (rule do_execve_Inr [OF assms(1,4)])
  have "un = un'" using 1(1) 2(1) by simp
  then have "b_cred b1 = b_cred b2"
    using prepare_chain_last [OF 1(2) 2(2)] assms(2) by (simp add: same_task_def is_global_init_def)
  then show ?thesis using 1(3) 2(3) by simp
qed

lemma example_exec:
  "fst (do_execve example_config (capability_ops example_config) ample_env example_exec_env
    (example_kernel 5 CAP_EMPTY_SET) [example_image 0x9ED, example_image 0x1ED]) = Inr ()"
  "fst (do_execve example_config (capability_ops example_config) ample_env example_exec_env
    (example_kernel 5 CAP_EMPTY_SET) [example_image 0x1ED]) = Inr ()"
  by code_simp+

theorem script_privileges_ignored_witness:
  "current_cred (snd (do_execve example_config (capability_ops example_config) ample_env example_exec_env
     (example_kernel 5 CAP_EMPTY_SET) [example_image 0x9ED, example_image 0x1ED])) =
   current_cred (snd (do_execve example_config (capability_ops example_config) ample_env example_exec_env
     (example_kernel 5 CAP_EMPTY_SET) [example_image 0x1ED]))"
  using script_privileges_ignored [OF example_frame(2) example_bprm_frame(2),
      where cfg = example_config and env = ample_env and env' = ample_env and xe = example_exec_env
        and ims = "[example_image 0x9ED]" and im = "example_image 0x1ED"]
    example_exec
  by (simp add: prod_eq_iff)

end
