(* ===== verification/Posix_Acl.thy ===== *)
theory Posix_Acl
  imports Stat
begin

text \<open>
  POSIX access control lists: \<^verbatim>\<open>fs/posix_acl.c\<close>.  An ACL is the list of its entries;
  tags, permissions and modes are 16-bit words, so
  that the masks \<^verbatim>\<open>~S_IRWXO\<close> and their like are taken at that width.  Shown here: which
  lists \<^verbatim>\<open>posix_acl_valid\<close> accepts, that \<^verbatim>\<open>posix_acl_permission\<close> decides as the
  POSIX draft demands on them, and how the ACL and the permission bits of the mode follow each
  other through \<^verbatim>\<open>chmod\<close> and the creation of files.  Reference counts are not modelled.
\<close>

section \<open>The data\<close>

definition ACL_USER_OBJ :: u16 where "ACL_USER_OBJ = 0x01"
definition ACL_USER :: u16 where "ACL_USER = 0x02"
definition ACL_GROUP_OBJ :: u16 where "ACL_GROUP_OBJ = 0x04"
definition ACL_GROUP :: u16 where "ACL_GROUP = 0x08"
definition ACL_MASK :: u16 where "ACL_MASK = 0x10"
definition ACL_OTHER :: u16 where "ACL_OTHER = 0x20"

definition ACL_UNDEFINED_ID :: u32 where "ACL_UNDEFINED_ID = - 1"

definition ACL_READ :: u16 where "ACL_READ = 4"
definition ACL_WRITE :: u16 where "ACL_WRITE = 2"
definition ACL_EXECUTE :: u16 where "ACL_EXECUTE = 1"

lemmas acl_tags = ACL_USER_OBJ_def ACL_USER_def ACL_GROUP_OBJ_def ACL_GROUP_def ACL_MASK_def ACL_OTHER_def
lemmas acl_perms = ACL_READ_def ACL_WRITE_def ACL_EXECUTE_def

lemma acl_tags_distinct [simp]:
  "ACL_USER_OBJ \<noteq> ACL_USER" "ACL_USER_OBJ \<noteq> ACL_GROUP_OBJ" "ACL_USER_OBJ \<noteq> ACL_GROUP" "ACL_USER_OBJ \<noteq> ACL_MASK"
  "ACL_USER_OBJ \<noteq> ACL_OTHER" "ACL_USER \<noteq> ACL_USER_OBJ" "ACL_USER \<noteq> ACL_GROUP_OBJ" "ACL_USER \<noteq> ACL_GROUP"
  "ACL_USER \<noteq> ACL_MASK" "ACL_USER \<noteq> ACL_OTHER" "ACL_GROUP_OBJ \<noteq> ACL_USER_OBJ" "ACL_GROUP_OBJ \<noteq> ACL_USER"
  "ACL_GROUP_OBJ \<noteq> ACL_GROUP" "ACL_GROUP_OBJ \<noteq> ACL_MASK" "ACL_GROUP_OBJ \<noteq> ACL_OTHER" "ACL_GROUP \<noteq> ACL_USER_OBJ"
  "ACL_GROUP \<noteq> ACL_USER" "ACL_GROUP \<noteq> ACL_GROUP_OBJ" "ACL_GROUP \<noteq> ACL_MASK" "ACL_GROUP \<noteq> ACL_OTHER"
  "ACL_MASK \<noteq> ACL_USER_OBJ" "ACL_MASK \<noteq> ACL_USER" "ACL_MASK \<noteq> ACL_GROUP_OBJ" "ACL_MASK \<noteq> ACL_GROUP"
  "ACL_MASK \<noteq> ACL_OTHER" "ACL_OTHER \<noteq> ACL_USER_OBJ" "ACL_OTHER \<noteq> ACL_USER" "ACL_OTHER \<noteq> ACL_GROUP_OBJ"
  "ACL_OTHER \<noteq> ACL_GROUP" "ACL_OTHER \<noteq> ACL_MASK" "ACL_USER_OBJ \<noteq> 0" "0 \<noteq> ACL_USER_OBJ"
  "ACL_USER \<noteq> 0" "0 \<noteq> ACL_USER" "ACL_GROUP_OBJ \<noteq> 0" "0 \<noteq> ACL_GROUP_OBJ"
  "ACL_GROUP \<noteq> 0" "0 \<noteq> ACL_GROUP" "ACL_MASK \<noteq> 0" "0 \<noteq> ACL_MASK"
  "ACL_OTHER \<noteq> 0" "0 \<noteq> ACL_OTHER"
  by (simp_all add: acl_tags)

record posix_acl_entry =
  e_tag :: u16
  e_perm :: u16
  e_id :: u32

type_synonym posix_acl = "posix_acl_entry list"

section \<open>The operations\<close>

text \<open>The loop of \<^verbatim>\<open>posix_acl_valid\<close>, with its variables \<^verbatim>\<open>state\<close>, \<^verbatim>\<open>id\<close> and \<^verbatim>\<open>needs_mask\<close>.\<close>

fun acl_valid_loop :: "posix_acl \<Rightarrow> u16 \<Rightarrow> u32 \<Rightarrow> bool \<Rightarrow> unit result" where
  "acl_valid_loop [] state i needs_mask = (if state = 0 then Inr () else Inl EINVAL)"
| "acl_valid_loop (pa # rest) state i needs_mask =
     (if e_perm pa AND NOT (ACL_READ OR ACL_WRITE OR ACL_EXECUTE) \<noteq> 0 then Inl EINVAL
      else if e_tag pa = ACL_USER_OBJ then
        (if state = ACL_USER_OBJ then acl_valid_loop rest ACL_USER 0 needs_mask else Inl EINVAL)
      else if e_tag pa = ACL_USER then
        (if state \<noteq> ACL_USER then Inl EINVAL
         else if e_id pa = ACL_UNDEFINED_ID \<or> e_id pa < i then Inl EINVAL
         else acl_valid_loop rest state (e_id pa + 1) True)
      else if e_tag pa = ACL_GROUP_OBJ then
        (if state = ACL_USER then acl_valid_loop rest ACL_GROUP 0 needs_mask else Inl EINVAL)
      else if e_tag pa = ACL_GROUP then
        (if state \<noteq> ACL_GROUP then Inl EINVAL
         else if e_id pa = ACL_UNDEFINED_ID \<or> e_id pa < i then Inl EINVAL
         else acl_valid_loop rest state (e_id pa + 1) True)
      else if e_tag pa = ACL_MASK then
        (if state \<noteq> ACL_GROUP then Inl EINVAL else acl_valid_loop rest ACL_OTHER i needs_mask)
      else if e_tag pa = ACL_OTHER then
        (if state = ACL_OTHER \<or> (state = ACL_GROUP \<and> \<not> needs_mask)
         then acl_valid_loop rest 0 i needs_mask else Inl EINVAL)
      else Inl EINVAL)"

definition posix_acl_valid :: "posix_acl \<Rightarrow> unit result" where
  "posix_acl_valid acl = acl_valid_loop acl ACL_USER_OBJ 0 False"

fun acl_equiv_loop :: "posix_acl \<Rightarrow> mode_t \<Rightarrow> bool \<Rightarrow> (mode_t \<times> bool) result" where
  "acl_equiv_loop [] mode not_equiv = Inr (mode, not_equiv)"
| "acl_equiv_loop (pa # rest) mode not_equiv =
     (if e_tag pa = ACL_USER_OBJ then
        acl_equiv_loop rest (mode OR push_bit 6 (e_perm pa AND S_IRWXO)) not_equiv
      else if e_tag pa = ACL_GROUP_OBJ then
        acl_equiv_loop rest (mode OR push_bit 3 (e_perm pa AND S_IRWXO)) not_equiv
      else if e_tag pa = ACL_OTHER then
        acl_equiv_loop rest (mode OR (e_perm pa AND S_IRWXO)) not_equiv
      else if e_tag pa = ACL_MASK then
        acl_equiv_loop rest
          ((mode AND NOT S_IRWXG) OR push_bit 3 (e_perm pa AND S_IRWXO)) True
      else if e_tag pa = ACL_USER \<or> e_tag pa = ACL_GROUP then acl_equiv_loop rest mode True
      else Inl EINVAL)"

text \<open>
  The result is \<^verbatim>\<open>not_equiv\<close> and the new value of \<^verbatim>\<open>*mode_p\<close> (a caller that passes
  a null pointer does not get the latter).
\<close>

definition posix_acl_equiv_mode :: "posix_acl \<Rightarrow> mode_t \<Rightarrow> (bool \<times> mode_t) result" where
  "posix_acl_equiv_mode acl mode_p =
     (case acl_equiv_loop acl 0 False of
        Inl e \<Rightarrow> Inl e
      | Inr (mode, not_equiv) \<Rightarrow> Inr (not_equiv, (mode_p AND NOT S_IRWXUGO) OR mode))"

definition posix_acl_from_mode :: "bool \<Rightarrow> mode_t \<Rightarrow> posix_acl result" where
  "posix_acl_from_mode alloc_ok mode =
     (if \<not> alloc_ok then Inl ENOMEM
      else Inr [\<lparr>e_tag = ACL_USER_OBJ, e_perm = drop_bit 6 (mode AND S_IRWXU), e_id = ACL_UNDEFINED_ID\<rparr>,
                \<lparr>e_tag = ACL_GROUP_OBJ, e_perm = drop_bit 3 (mode AND S_IRWXG), e_id = ACL_UNDEFINED_ID\<rparr>,
                \<lparr>e_tag = ACL_OTHER, e_perm = mode AND S_IRWXO, e_id = ACL_UNDEFINED_ID\<rparr>])"

text \<open>
  \<^verbatim>\<open>posix_acl_permission\<close> asks for the caller's file system uid and group membership; both
  are arguments.  \<open>acl_grants\<close> is the test \<^verbatim>\<open>(perm & want) == want\<close>, \<open>acl_check_perm\<close> is the label \<^verbatim>\<open>check_perm\<close>, \<open>acl_mask\<close> the
  label \<^verbatim>\<open>mask\<close> with its loop over the entries after \<open>pa\<close>.
\<close>

definition acl_grants :: "u16 \<Rightarrow> u32 \<Rightarrow> bool" where
  "acl_grants perm want \<longleftrightarrow> ucast perm AND want = want"

definition acl_check_perm :: "posix_acl_entry \<Rightarrow> u32 \<Rightarrow> unit result" where
  "acl_check_perm pa want = (if acl_grants (e_perm pa) want then Inr () else Inl EACCES)"

fun acl_mask :: "posix_acl_entry \<Rightarrow> posix_acl \<Rightarrow> u32 \<Rightarrow> unit result" where
  "acl_mask pa [] want = acl_check_perm pa want"
| "acl_mask pa (mask_obj # rest) want =
     (if e_tag mask_obj = ACL_MASK
      then (if acl_grants (e_perm pa AND e_perm mask_obj) want then Inr () else Inl EACCES)
      else acl_mask pa rest want)"

fun acl_permission_loop ::
  "u32 \<Rightarrow> (u32 \<Rightarrow> bool) \<Rightarrow> u32 \<Rightarrow> u32 \<Rightarrow> posix_acl \<Rightarrow> u32 \<Rightarrow> bool \<Rightarrow> unit result" where
  "acl_permission_loop fsuid in_group i_uid i_gid [] want found = Inl EIO"
| "acl_permission_loop fsuid in_group i_uid i_gid (pa # rest) want found =
     (if e_tag pa = ACL_USER_OBJ then
        (if i_uid = fsuid then acl_check_perm pa want
         else acl_permission_loop fsuid in_group i_uid i_gid rest want found)
      else if e_tag pa = ACL_USER then
        (if e_id pa = fsuid then acl_mask pa rest want
         else acl_permission_loop fsuid in_group i_uid i_gid rest want found)
      else if e_tag pa = ACL_GROUP_OBJ then
        (if in_group i_gid then
           (if acl_grants (e_perm pa) want then acl_mask pa rest want
            else acl_permission_loop fsuid in_group i_uid i_gid rest want True)
         else acl_permission_loop fsuid in_group i_uid i_gid rest want found)
      else if e_tag pa = ACL_GROUP then
        (if in_group (e_id pa) then
           (if acl_grants (e_perm pa) want then acl_mask pa rest want
            else acl_permission_loop fsuid in_group i_uid i_gid rest want True)
         else acl_permission_loop fsuid in_group i_uid i_gid rest want found)
      else if e_tag pa = ACL_MASK then
        acl_permission_loop fsuid in_group i_uid i_gid rest want found
      else if e_tag pa = ACL_OTHER then
        (if found then Inl EACCES else acl_check_perm pa want)
      else Inl EIO)"

definition posix_acl_permission ::
  "u32 \<Rightarrow> (u32 \<Rightarrow> bool) \<Rightarrow> u32 \<Rightarrow> u32 \<Rightarrow> posix_acl \<Rightarrow> u32 \<Rightarrow> unit result" where
  "posix_acl_permission fsuid in_group i_uid i_gid acl want =
     acl_permission_loop fsuid in_group i_uid i_gid acl want False"

text \<open>
  The two functions that edit an ACL in place.  Their loops run over the entries from index
  \<open>i\<close> on and remember the positions of the group and the mask entry.  What an error return
  leaves behind in the ACL is not part of the result: the callers drop the copy they edited.
\<close>

record masq =
  q_acl :: posix_acl
  q_mode :: mode_t
  q_group_obj :: "nat option"
  q_mask_obj :: "nat option"
  q_not_equiv :: bool

definition acl_set_perm :: "nat \<Rightarrow> u16 \<Rightarrow> masq \<Rightarrow> masq" where
  "acl_set_perm i p q = q\<lparr>q_acl := (q_acl q)[i := (q_acl q ! i)\<lparr>e_perm := p\<rparr>]\<rparr>"

definition create_masq_entry :: "nat \<Rightarrow> masq \<Rightarrow> masq result" where
  "create_masq_entry i q =
     (let pa = q_acl q ! i
      in if e_tag pa = ACL_USER_OBJ then
           let p = e_perm pa AND (drop_bit 6 (q_mode q) OR NOT S_IRWXO)
           in Inr ((acl_set_perm i p q)\<lparr>q_mode := q_mode q AND (push_bit 6 p OR NOT S_IRWXU)\<rparr>)
         else if e_tag pa = ACL_USER \<or> e_tag pa = ACL_GROUP then Inr (q\<lparr>q_not_equiv := True\<rparr>)
         else if e_tag pa = ACL_GROUP_OBJ then Inr (q\<lparr>q_group_obj := Some i\<rparr>)
         else if e_tag pa = ACL_OTHER then
           let p = e_perm pa AND (q_mode q OR NOT S_IRWXO)
           in Inr ((acl_set_perm i p q)\<lparr>q_mode := q_mode q AND (p OR NOT S_IRWXO)\<rparr>)
         else if e_tag pa = ACL_MASK then Inr (q\<lparr>q_mask_obj := Some i, q_not_equiv := True\<rparr>)
         else Inl EIO)"

definition chmod_masq_entry :: "mode_t \<Rightarrow> nat \<Rightarrow> masq \<Rightarrow> masq result" where
  "chmod_masq_entry mode i q =
     (let pa = q_acl q ! i
      in if e_tag pa = ACL_USER_OBJ then Inr (acl_set_perm i (drop_bit 6 (mode AND S_IRWXU)) q)
         else if e_tag pa = ACL_USER \<or> e_tag pa = ACL_GROUP then Inr q
         else if e_tag pa = ACL_GROUP_OBJ then Inr (q\<lparr>q_group_obj := Some i\<rparr>)
         else if e_tag pa = ACL_MASK then Inr (q\<lparr>q_mask_obj := Some i\<rparr>)
         else if e_tag pa = ACL_OTHER then Inr (acl_set_perm i (mode AND S_IRWXO) q)
         else Inl EIO)"

text \<open>\<^verbatim>\<open>FOREACH_ACL_ENTRY\<close> for a body that may return an error.\<close>

fun foreach_entry :: "(nat \<Rightarrow> masq \<Rightarrow> masq result) \<Rightarrow> nat list \<Rightarrow> masq \<Rightarrow> masq result" where
  "foreach_entry body [] q = Inr q"
| "foreach_entry body (i # is) q =
     (case body i q of Inl e \<Rightarrow> Inl e | Inr q' \<Rightarrow> foreach_entry body is q')"

text \<open>The result is \<^verbatim>\<open>not_equiv\<close>, the edited ACL and the new \<^verbatim>\<open>*mode_p\<close>.\<close>

definition posix_acl_create_masq :: "posix_acl \<Rightarrow> mode_t \<Rightarrow> (bool \<times> posix_acl \<times> mode_t) result" where
  "posix_acl_create_masq acl mode_p =
     (case foreach_entry create_masq_entry [0..<length acl]
             \<lparr>q_acl = acl, q_mode = mode_p, q_group_obj = None, q_mask_obj = None, q_not_equiv = False\<rparr> of
        Inl e \<Rightarrow> Inl e
      | Inr q \<Rightarrow>
        (case (case q_mask_obj q of Some k \<Rightarrow> Some k | None \<Rightarrow> q_group_obj q) of
           None \<Rightarrow> Inl EIO
         | Some k \<Rightarrow>
             let p = e_perm (q_acl q ! k) AND (drop_bit 3 (q_mode q) OR NOT S_IRWXO);
                 mode = q_mode q AND (push_bit 3 p OR NOT S_IRWXG)
             in Inr (q_not_equiv q, q_acl (acl_set_perm k p q), (mode_p AND NOT S_IRWXUGO) OR mode)))"

definition posix_acl_chmod_masq :: "posix_acl \<Rightarrow> mode_t \<Rightarrow> posix_acl result" where
  "posix_acl_chmod_masq acl mode =
     (case foreach_entry (chmod_masq_entry mode) [0..<length acl]
             \<lparr>q_acl = acl, q_mode = mode, q_group_obj = None, q_mask_obj = None, q_not_equiv = False\<rparr> of
        Inl e \<Rightarrow> Inl e
      | Inr q \<Rightarrow>
        (case (case q_mask_obj q of Some k \<Rightarrow> Some k | None \<Rightarrow> q_group_obj q) of
           None \<Rightarrow> Inl EIO
         | Some k \<Rightarrow> Inr (q_acl (acl_set_perm k (drop_bit 3 (mode AND S_IRWXG)) q))))"

section \<open>The lists that are valid\<close>

text \<open>
  What the validity check means, without the loop: an owner entry, named users in strictly
  increasing order, an owning group entry, named groups in strictly increasing order, at most one
  mask, which is there as soon as there are named entries, and an entry for everybody else.
\<close>

definition rwx_entry :: "posix_acl_entry \<Rightarrow> bool" where
  "rwx_entry pa \<longleftrightarrow> e_perm pa AND NOT (ACL_READ OR ACL_WRITE OR ACL_EXECUTE) = 0"

definition named_entries :: "u16 \<Rightarrow> posix_acl \<Rightarrow> bool" where
  "named_entries tag es \<longleftrightarrow>
     (\<forall>e \<in> set es. e_tag e = tag \<and> rwx_entry e \<and> e_id e \<noteq> ACL_UNDEFINED_ID) \<and>
     sorted_wrt (<) (map e_id es)"

definition plain_entry :: "u16 \<Rightarrow> posix_acl_entry \<Rightarrow> bool" where
  "plain_entry tag e \<longleftrightarrow> e_tag e = tag \<and> rwx_entry e"

definition acl_shape ::
  "posix_acl_entry \<Rightarrow> posix_acl \<Rightarrow> posix_acl_entry \<Rightarrow> posix_acl \<Rightarrow> posix_acl \<Rightarrow> posix_acl_entry \<Rightarrow> bool" where
  "acl_shape uo us go gs m ot \<longleftrightarrow>
     plain_entry ACL_USER_OBJ uo \<and> named_entries ACL_USER us \<and>
     plain_entry ACL_GROUP_OBJ go \<and> named_entries ACL_GROUP gs \<and>
     (m = [] \<and> us = [] \<and> gs = [] \<or> (\<exists>mo. m = [mo] \<and> plain_entry ACL_MASK mo)) \<and>
     plain_entry ACL_OTHER ot"

lemma word_succ_le_iff:
  fixes x y :: u32
  assumes "x \<noteq> - 1"
  shows "x + 1 \<le> y \<longleftrightarrow> x < y"
proof -
  have "1 + x \<noteq> 0"
    using assms by (metis add_eq_0_iff)
  then show ?thesis
    by (simp add: word_le_nat_alt word_less_nat_alt unatSuc Suc_le_eq add.commute [of x])
qed

text \<open>The order of the identifiers as the loop checks it, entry by entry.\<close>

fun ascending_from :: "u16 \<Rightarrow> u32 \<Rightarrow> posix_acl \<Rightarrow> bool" where
  "ascending_from tag i [] \<longleftrightarrow> True"
| "ascending_from tag i (e # es) \<longleftrightarrow>
     e_tag e = tag \<and> rwx_entry e \<and> e_id e \<noteq> ACL_UNDEFINED_ID \<and> i \<le> e_id e \<and>
     ascending_from tag (e_id e + 1) es"

lemma ascending_from_named:
  "ascending_from tag i es \<longleftrightarrow> named_entries tag es \<and> (\<forall>e \<in> set es. i \<le> e_id e)"
proof (induction es arbitrary: i)
  case Nil
  then show ?case by (simp add: named_entries_def)
next
  case (Cons e es)
  then show ?case
    by (auto simp: named_entries_def word_succ_le_iff ACL_UNDEFINED_ID_def)
qed

lemma ascending_from_zero: "ascending_from tag 0 es \<longleftrightarrow> named_entries tag es"
  by (simp add: ascending_from_named)

lemma acl_valid_end: "acl_valid_loop acl 0 i b = Inr () \<longleftrightarrow> acl = []"
  by (cases acl) auto

lemma acl_valid_other:
  "acl_valid_loop acl ACL_OTHER i b = Inr () \<longleftrightarrow> (\<exists>ot. acl = [ot] \<and> plain_entry ACL_OTHER ot)"
  by (cases acl) (auto simp: acl_valid_end plain_entry_def rwx_entry_def)

definition mask_tail :: "bool \<Rightarrow> posix_acl \<Rightarrow> bool" where
  "mask_tail named m \<longleftrightarrow> m = [] \<and> \<not> named \<or> (\<exists>mo. m = [mo] \<and> plain_entry ACL_MASK mo)"

lemma acl_valid_groups:
  "acl_valid_loop acl ACL_GROUP i b = Inr () \<longleftrightarrow>
   (\<exists>gs m ot. acl = gs @ m @ [ot] \<and> ascending_from ACL_GROUP i gs \<and>
      mask_tail (b \<or> gs \<noteq> []) m \<and> plain_entry ACL_OTHER ot)"
  (is "_ \<longleftrightarrow> ?R acl i b")
proof (induction acl arbitrary: i b)
  case Nil
  then show ?case by simp
next
  case (Cons pa rest)
  have split: "?R (pa # rest) i b \<longleftrightarrow>
      (e_tag pa = ACL_GROUP \<and> rwx_entry pa \<and> e_id pa \<noteq> ACL_UNDEFINED_ID \<and> i \<le> e_id pa \<and>
         ?R rest (e_id pa + 1) True) \<or>
      (plain_entry ACL_MASK pa \<and> (\<exists>ot. rest = [ot] \<and> plain_entry ACL_OTHER ot)) \<or>
      (plain_entry ACL_OTHER pa \<and> rest = [] \<and> \<not> b)" (is "_ \<longleftrightarrow> ?S")
  proof
    assume "?R (pa # rest) i b"
    then obtain gs m ot where r: "pa # rest = gs @ m @ [ot]" "ascending_from ACL_GROUP i gs"
      "mask_tail (b \<or> gs \<noteq> []) m" "plain_entry ACL_OTHER ot" by blast
    then show ?S
      by (cases gs) (auto simp: mask_tail_def)
  next
    assume ?S
    then consider
        (named) gs m ot where "rest = gs @ m @ [ot]" "ascending_from ACL_GROUP (e_id pa + 1) gs"
          "mask_tail True m" "plain_entry ACL_OTHER ot" "e_tag pa = ACL_GROUP" "rwx_entry pa"
          "e_id pa \<noteq> ACL_UNDEFINED_ID" "i \<le> e_id pa"
      | (mask) ot where "rest = [ot]" "plain_entry ACL_OTHER ot" "plain_entry ACL_MASK pa"
      | (other) "rest = []" "plain_entry ACL_OTHER pa" "\<not> b"
      by auto
    then show "?R (pa # rest) i b"
    proof cases
      case named
      then show ?thesis
        by (intro exI [of _ "pa # gs"] exI [of _ m] exI [of _ ot]) simp
    next
      case mask
      then show ?thesis
        by (intro exI [of _ "[]"] exI [of _ "[pa]"] exI [of _ ot]) (simp add: mask_tail_def)
    next
      case other
      then show ?thesis
        by (intro exI [of _ "[]"] exI [of _ "[]"] exI [of _ pa]) (simp add: mask_tail_def)
    qed
  qed
  have "acl_valid_loop (pa # rest) ACL_GROUP i b = Inr () \<longleftrightarrow> ?S"
    using Cons.IH [of "e_id pa + 1" True]
    by (auto simp: acl_valid_end acl_valid_other plain_entry_def rwx_entry_def not_less)
  then show ?case
    using split by blast
qed

lemma acl_valid_users:
  "acl_valid_loop acl ACL_USER i b = Inr () \<longleftrightarrow>
   (\<exists>us go rest. acl = us @ go # rest \<and> ascending_from ACL_USER i us \<and> plain_entry ACL_GROUP_OBJ go \<and>
      acl_valid_loop rest ACL_GROUP 0 (b \<or> us \<noteq> []) = Inr ())"
  (is "_ \<longleftrightarrow> ?R acl i b")
proof (induction acl arbitrary: i b)
  case Nil
  then show ?case by simp
next
  case (Cons pa rest)
  have split: "?R (pa # rest) i b \<longleftrightarrow>
      (e_tag pa = ACL_USER \<and> rwx_entry pa \<and> e_id pa \<noteq> ACL_UNDEFINED_ID \<and> i \<le> e_id pa \<and>
         ?R rest (e_id pa + 1) True) \<or>
      (plain_entry ACL_GROUP_OBJ pa \<and> acl_valid_loop rest ACL_GROUP 0 b = Inr ())" (is "_ \<longleftrightarrow> ?S")
  proof
    assume "?R (pa # rest) i b"
    then obtain us go rest' where r: "pa # rest = us @ go # rest'" "ascending_from ACL_USER i us"
      "plain_entry ACL_GROUP_OBJ go" "acl_valid_loop rest' ACL_GROUP 0 (b \<or> us \<noteq> []) = Inr ()" by blast
    then show ?S
      by (cases us) auto
  next
    assume ?S
    then consider
        (named) us go rest' where "rest = us @ go # rest'" "ascending_from ACL_USER (e_id pa + 1) us"
          "plain_entry ACL_GROUP_OBJ go" "acl_valid_loop rest' ACL_GROUP 0 True = Inr ()"
          "e_tag pa = ACL_USER" "rwx_entry pa" "e_id pa \<noteq> ACL_UNDEFINED_ID" "i \<le> e_id pa"
      | (group) "plain_entry ACL_GROUP_OBJ pa" "acl_valid_loop rest ACL_GROUP 0 b = Inr ()"
      by auto
    then show "?R (pa # rest) i b"
    proof cases
      case named
      then show ?thesis
        by (intro exI [of _ "pa # us"] exI [of _ go] exI [of _ rest']) simp
    next
      case group
      then show ?thesis
        by (intro exI [of _ "[]"] exI [of _ pa] exI [of _ rest]) simp
    qed
  qed
  have "acl_valid_loop (pa # rest) ACL_USER i b = Inr () \<longleftrightarrow> ?S"
    using Cons.IH [of "e_id pa + 1" True]
    by (auto simp: plain_entry_def rwx_entry_def not_less)
  then show ?case
    using split by blast
qed

lemma acl_valid_start:
  "posix_acl_valid acl = Inr () \<longleftrightarrow>
   (\<exists>uo rest. acl = uo # rest \<and> plain_entry ACL_USER_OBJ uo \<and> acl_valid_loop rest ACL_USER 0 False = Inr ())"
  by (cases acl) (auto simp: posix_acl_valid_def plain_entry_def rwx_entry_def)

lemma valid_shape:
  "posix_acl_valid acl = Inr () \<longleftrightarrow>
   (\<exists>uo us go gs m ot. acl = uo # us @ go # gs @ m @ [ot] \<and> acl_shape uo us go gs m ot)"
  by (simp add: acl_valid_start acl_valid_users acl_valid_groups ascending_from_zero acl_shape_def
      mask_tail_def) blast

lemma posix_acl_valid_error: "posix_acl_valid acl = Inr () \<or> posix_acl_valid acl = Inl EINVAL"
proof -
  have "acl_valid_loop acl s i b = Inr () \<or> acl_valid_loop acl s i b = Inl EINVAL" for s i b
    by (induction acl s i b rule: acl_valid_loop.induct) auto
  then show ?thesis
    by (simp add: posix_acl_valid_def)
qed

section \<open>What an ACL permits\<close>

text \<open>
  The access check of the POSIX draft, read off the set of entries: the owner gets the owner
  entry, a named user the entry with that identifier, a member of one of the groups named by the
  list any single group entry that grants the whole request, the latter two subject to the mask,
  and everybody else the last entry.
\<close>

definition acl_group_match :: "(u32 \<Rightarrow> bool) \<Rightarrow> u32 \<Rightarrow> posix_acl_entry \<Rightarrow> bool" where
  "acl_group_match in_group i_gid e \<longleftrightarrow>
     e_tag e = ACL_GROUP_OBJ \<and> in_group i_gid \<or> e_tag e = ACL_GROUP \<and> in_group (e_id e)"

definition acl_unmasked :: "posix_acl \<Rightarrow> u32 \<Rightarrow> bool" where
  "acl_unmasked acl want \<longleftrightarrow> (\<forall>e \<in> set acl. e_tag e = ACL_MASK \<longrightarrow> acl_grants (e_perm e) want)"

definition acl_user_match :: "u32 \<Rightarrow> posix_acl_entry \<Rightarrow> bool" where
  "acl_user_match fsuid e \<longleftrightarrow> e_tag e = ACL_USER \<and> e_id e = fsuid"

definition acl_access :: "u32 \<Rightarrow> (u32 \<Rightarrow> bool) \<Rightarrow> u32 \<Rightarrow> u32 \<Rightarrow> posix_acl \<Rightarrow> u32 \<Rightarrow> bool" where
  "acl_access fsuid in_group i_uid i_gid acl want =
     (let grants = (\<lambda>p. \<exists>e \<in> set acl. p e \<and> acl_grants (e_perm e) want)
      in if i_uid = fsuid then grants (\<lambda>e. e_tag e = ACL_USER_OBJ)
         else if \<exists>e \<in> set acl. acl_user_match fsuid e
           then grants (acl_user_match fsuid) \<and> acl_unmasked acl want
         else if \<exists>e \<in> set acl. acl_group_match in_group i_gid e
           then grants (acl_group_match in_group i_gid) \<and> acl_unmasked acl want
         else grants (\<lambda>e. e_tag e = ACL_OTHER))"

definition access_result :: "bool \<Rightarrow> unit result" where
  "access_result ok = (if ok then Inr () else Inl EACCES)"

lemma acl_grants_and: "acl_grants (a AND b) want \<longleftrightarrow> acl_grants a want \<and> acl_grants b want"
  by (auto simp: acl_grants_def bit_eq_iff bit_and_iff bit_simps)

lemma acl_check_perm_result: "acl_check_perm pa want = access_result (acl_grants (e_perm pa) want)"
  by (simp add: acl_check_perm_def access_result_def)

lemma acl_mask_skip:
  "\<forall>e \<in> set xs. e_tag e \<noteq> ACL_MASK \<Longrightarrow> acl_mask pa (xs @ ys) want = acl_mask pa ys want"
  by (induction xs) auto

lemma acl_mask_tail:
  assumes "mask_tail b m" "e_tag ot = ACL_OTHER"
  shows "acl_mask pa (m @ [ot]) want =
    access_result (acl_grants (e_perm pa) want \<and> acl_unmasked m want)"
  using assms
  by (auto simp: mask_tail_def plain_entry_def acl_unmasked_def acl_check_perm_result
      acl_grants_and access_result_def)

lemma acl_permission_tail:
  assumes "mask_tail b m" "e_tag ot = ACL_OTHER"
  shows "acl_permission_loop fsuid in_group i_uid i_gid (m @ [ot]) want found =
    access_result (\<not> found \<and> acl_grants (e_perm ot) want)"
  using assms
  by (auto simp: mask_tail_def plain_entry_def acl_check_perm_result access_result_def)

lemma acl_permission_groups:
  assumes "mask_tail b m" "e_tag ot = ACL_OTHER" "\<forall>g \<in> set gs. e_tag g = ACL_GROUP"
  shows "acl_permission_loop fsuid in_group i_uid i_gid (gs @ m @ [ot]) want found =
    (if \<exists>g \<in> set gs. in_group (e_id g) \<and> acl_grants (e_perm g) want
     then access_result (acl_unmasked m want)
     else access_result (\<not> found \<and> (\<forall>g \<in> set gs. \<not> in_group (e_id g)) \<and> acl_grants (e_perm ot) want))"
  using assms(3)
proof (induction gs arbitrary: found)
  case Nil
  then show ?case
    using acl_permission_tail [OF assms(1,2)] by simp
next
  case (Cons g gs)
  have "acl_mask g (gs @ m @ [ot]) want = acl_mask g (m @ [ot]) want"
    using Cons.prems by (intro acl_mask_skip) simp
  then show ?case
    using Cons acl_mask_tail [OF assms(1,2)] by auto
qed

lemma acl_permission_users:
  assumes "named_entries ACL_USER us"
    and "\<forall>e. acl_mask e rest want = access_result (acl_grants (e_perm e) want \<and> unmasked)"
  shows "acl_permission_loop fsuid in_group i_uid i_gid (us @ rest) want found =
    (if \<exists>u \<in> set us. e_id u = fsuid
     then access_result ((\<exists>u \<in> set us. e_id u = fsuid \<and> acl_grants (e_perm u) want) \<and> unmasked)
     else acl_permission_loop fsuid in_group i_uid i_gid rest want found)"
  using assms(1)
proof (induction us)
  case Nil
  then show ?case by simp
next
  case (Cons u us)
  have mask: "acl_mask u (us @ rest) want = acl_mask u rest want"
    using Cons.prems by (intro acl_mask_skip) (auto simp: named_entries_def)
  have others: "\<forall>v \<in> set us. e_id v \<noteq> e_id u" and tag: "e_tag u = ACL_USER"
    and rest: "named_entries ACL_USER us"
    using Cons.prems by (auto simp: named_entries_def)
  show ?case
    using Cons.IH [OF rest] mask others tag assms(2) by auto
qed

text \<open>The spec on a list of the valid shape, group by group.\<close>

lemma acl_access_shape:
  assumes "acl_shape uo us go gs m ot"
  shows "acl_access fsuid in_group i_uid i_gid (uo # us @ go # gs @ m @ [ot]) want =
    (if i_uid = fsuid then acl_grants (e_perm uo) want
     else if \<exists>u \<in> set us. e_id u = fsuid
       then (\<exists>u \<in> set us. e_id u = fsuid \<and> acl_grants (e_perm u) want) \<and> acl_unmasked m want
     else if in_group i_gid \<or> (\<exists>g \<in> set gs. in_group (e_id g))
       then (in_group i_gid \<and> acl_grants (e_perm go) want \<or>
             (\<exists>g \<in> set gs. in_group (e_id g) \<and> acl_grants (e_perm g) want)) \<and> acl_unmasked m want
     else acl_grants (e_perm ot) want)"
proof -
  let ?acl = "uo # us @ go # gs @ m @ [ot]"
  note tags = assms [unfolded acl_shape_def named_entries_def plain_entry_def]
  have user: "(\<exists>e \<in> set ?acl. acl_user_match fsuid e \<and> p e) \<longleftrightarrow> (\<exists>u \<in> set us. e_id u = fsuid \<and> p u)" for p
    using tags by (auto simp: acl_user_match_def)
  have group: "(\<exists>e \<in> set ?acl. acl_group_match in_group i_gid e \<and> p e) \<longleftrightarrow>
      in_group i_gid \<and> p go \<or> (\<exists>g \<in> set gs. in_group (e_id g) \<and> p g)" for p
    using tags by (auto simp: acl_group_match_def)
  have mask: "acl_unmasked ?acl want = acl_unmasked m want"
    using tags by (auto simp: acl_unmasked_def)
  have ends: "(\<exists>e \<in> set ?acl. e_tag e = ACL_USER_OBJ \<and> p e) \<longleftrightarrow> p uo"
      "(\<exists>e \<in> set ?acl. e_tag e = ACL_OTHER \<and> p e) \<longleftrightarrow> p ot" for p
    using tags by auto
  show ?thesis
    unfolding acl_access_def Let_def ends user group mask
      user [of "\<lambda>_. True", unfolded simp_thms] group [of "\<lambda>_. True", unfolded simp_thms] ..
qed

lemma acl_permission_shape:
  assumes "acl_shape uo us go gs m ot"
  shows "posix_acl_permission fsuid in_group i_uid i_gid (uo # us @ go # gs @ m @ [ot]) want =
    access_result (acl_access fsuid in_group i_uid i_gid (uo # us @ go # gs @ m @ [ot]) want)"
proof -
  note tags = assms [unfolded acl_shape_def named_entries_def plain_entry_def]
  have tail: "mask_tail False m" and ot: "e_tag ot = ACL_OTHER" and uo: "e_tag uo = ACL_USER_OBJ"
    and go: "e_tag go = ACL_GROUP_OBJ" and gs: "\<forall>g \<in> set gs. e_tag g = ACL_GROUP"
    and us: "named_entries ACL_USER us"
    using assms by (auto simp: acl_shape_def mask_tail_def plain_entry_def named_entries_def)
  have mask: "acl_mask e (xs @ m @ [ot]) want = access_result (acl_grants (e_perm e) want \<and> acl_unmasked m want)"
    if "\<forall>x \<in> set xs. e_tag x \<noteq> ACL_MASK" for e xs
    using acl_mask_skip [OF that] acl_mask_tail [OF tail ot] by simp
  have mask_go: "acl_mask e (go # gs @ m @ [ot]) want = access_result (acl_grants (e_perm e) want \<and> acl_unmasked m want)" for e
    using mask [of "go # gs" e] go gs by auto
  have mask_gs: "acl_mask e (gs @ m @ [ot]) want = access_result (acl_grants (e_perm e) want \<and> acl_unmasked m want)" for e
    using mask [of gs e] gs by auto
  note users = acl_permission_users [OF us allI [OF mask_go], of fsuid in_group i_uid i_gid False]
  have groups: "acl_permission_loop fsuid in_group i_uid i_gid (go # gs @ m @ [ot]) want False =
      access_result
       (if in_group i_gid \<or> (\<exists>g \<in> set gs. in_group (e_id g))
        then (in_group i_gid \<and> acl_grants (e_perm go) want \<or>
              (\<exists>g \<in> set gs. in_group (e_id g) \<and> acl_grants (e_perm g) want)) \<and> acl_unmasked m want
        else acl_grants (e_perm ot) want)"
    using acl_permission_groups [OF tail ot gs] mask_gs go by (auto simp: access_result_def)
  show ?thesis
    unfolding acl_access_shape [OF assms] posix_acl_permission_def
    using users groups uo by (simp add: acl_check_perm_result)
qed

text \<open>A list for the examples: owner, one named user, group, one named group, mask and others.\<close>

definition example_acl :: posix_acl where
  "example_acl =
     [\<lparr>e_tag = ACL_USER_OBJ, e_perm = 7, e_id = ACL_UNDEFINED_ID\<rparr>,
      \<lparr>e_tag = ACL_USER, e_perm = 6, e_id = 1000\<rparr>,
      \<lparr>e_tag = ACL_GROUP_OBJ, e_perm = 5, e_id = ACL_UNDEFINED_ID\<rparr>,
      \<lparr>e_tag = ACL_GROUP, e_perm = 7, e_id = 20\<rparr>,
      \<lparr>e_tag = ACL_MASK, e_perm = 5, e_id = ACL_UNDEFINED_ID\<rparr>,
      \<lparr>e_tag = ACL_OTHER, e_perm = 4, e_id = ACL_UNDEFINED_ID\<rparr>]"

lemma example_acl_valid: "posix_acl_valid example_acl = Inr ()"
  by code_simp

text \<open>C11: On a valid ACL the access check never fails with an input/output error; it grants
  exactly the requests that the POSIX draft grants, whatever the caller, its groups and the
  requested bits are.\<close>

theorem posix_acl_permission_spec:
  assumes "posix_acl_valid acl = Inr ()"
  shows "posix_acl_permission fsuid in_group i_uid i_gid acl want =
    (if acl_access fsuid in_group i_uid i_gid acl want then Inr () else Inl EACCES)"
proof -
  obtain uo us go gs m ot where "acl = uo # us @ go # gs @ m @ [ot]" "acl_shape uo us go gs m ot"
    using assms unfolding valid_shape by blast
  then show ?thesis
    using acl_permission_shape by (simp add: access_result_def)
qed

theorem posix_acl_permission_spec_witness:
  "posix_acl_permission 1000 (\<lambda>g. g = 20) 0 0 example_acl 4 = Inr () \<and>
   posix_acl_permission 1000 (\<lambda>g. g = 20) 0 0 example_acl 2 = Inl EACCES \<and>
   posix_acl_permission 7 (\<lambda>g. g = 20) 0 0 example_acl 5 = Inr ()"
proof -
  have "acl_access 1000 (\<lambda>g. g = 20) 0 0 example_acl 4" "\<not> acl_access 1000 (\<lambda>g. g = 20) 0 0 example_acl 2"
      "acl_access 7 (\<lambda>g. g = 20) 0 0 example_acl 5"
    by code_simp+
  then show ?thesis
    by (simp add: posix_acl_permission_spec [OF example_acl_valid])
qed

section \<open>ACLs and the permission bits of the mode\<close>

lemma S_IRWX_masks: "S_IRWXO = mask 3" "S_IRWXG = push_bit 3 (mask 3)" "S_IRWXU = push_bit 6 (mask 3)"
  by (simp_all add: S_IRWXO_def S_IRWXG_def S_IRWXU_def mask_eq_exp_minus_1 push_bit_eq_mult)

lemma S_IRWX_bits [word_bits]:
  "bit S_IRWXO n \<longleftrightarrow> n < 3"
  "bit S_IRWXG n \<longleftrightarrow> 3 \<le> n \<and> n < 6"
  "bit S_IRWXU n \<longleftrightarrow> 6 \<le> n \<and> n < 9"
  "bit S_IRWXUGO n \<longleftrightarrow> n < 9"
  by (auto simp: S_IRWX_masks S_IRWXUGO_def bit_simps)

lemma bit_u16_less: "bit (w :: u16) n \<Longrightarrow> n < 16"
  by (drule bit_imp_le_length) simp

lemma rwx_entry_bits: "rwx_entry e \<longleftrightarrow> (\<forall>n \<ge> 3. \<not> bit (e_perm e) n)"
proof -
  have "ACL_READ OR ACL_WRITE OR ACL_EXECUTE = S_IRWXO"
    by (simp add: acl_perms S_IRWXO_def)
  then have "rwx_entry e \<longleftrightarrow> e_perm e AND NOT S_IRWXO = 0"
    by (simp add: rwx_entry_def)
  also have "\<dots> \<longleftrightarrow> (\<forall>n \<ge> 3. \<not> bit (e_perm e) n)"
    by (auto simp: bit_eq_iff bit_simps S_IRWX_bits not_less dest: bit_u16_less)
  finally show ?thesis .
qed

text \<open>The nine permission bits made of three triples.\<close>

definition mode_of :: "u16 \<Rightarrow> u16 \<Rightarrow> u16 \<Rightarrow> mode_t" where
  "mode_of u g o' = push_bit 6 (u AND S_IRWXO) OR push_bit 3 (g AND S_IRWXO) OR (o' AND S_IRWXO)"

lemma mode_of_bits [word_bits]:
  "bit (mode_of u g o') n \<longleftrightarrow>
     (6 \<le> n \<and> n < 9 \<and> bit u (n - 6)) \<or> (3 \<le> n \<and> n < 6 \<and> bit g (n - 3)) \<or> (n < 3 \<and> bit o' n)"
  by (auto simp: mode_of_def bit_simps S_IRWX_bits)

text \<open>The entry that the group bits of the mode stand for: the mask if there is one.\<close>

definition class_entry :: "posix_acl_entry \<Rightarrow> posix_acl \<Rightarrow> posix_acl_entry" where
  "class_entry go m = (case m of [] \<Rightarrow> go | mo # _ \<Rightarrow> mo)"

lemma acl_equiv_named:
  "\<forall>e \<in> set xs. e_tag e = ACL_USER \<or> e_tag e = ACL_GROUP \<Longrightarrow>
   acl_equiv_loop (xs @ ys) mode b = acl_equiv_loop ys mode (b \<or> xs \<noteq> [])"
  by (induction xs arbitrary: b) auto

lemma acl_equiv_shape:
  assumes "acl_shape uo us go gs m ot"
  shows "posix_acl_equiv_mode (uo # us @ go # gs @ m @ [ot]) mode_p =
    Inr (m \<noteq> [], (mode_p AND NOT S_IRWXUGO) OR mode_of (e_perm uo) (e_perm (class_entry go m)) (e_perm ot))"
proof -
  let ?u = "push_bit 6 (e_perm uo AND S_IRWXO)" and ?o = "e_perm ot AND S_IRWXO"
  have tags: "e_tag uo = ACL_USER_OBJ" "e_tag go = ACL_GROUP_OBJ" "e_tag ot = ACL_OTHER"
      "\<forall>e \<in> set us. e_tag e = ACL_USER \<or> e_tag e = ACL_GROUP"
      "\<forall>e \<in> set gs. e_tag e = ACL_USER \<or> e_tag e = ACL_GROUP"
    using assms by (auto simp: acl_shape_def plain_entry_def named_entries_def)
  have masked: "((?u OR push_bit 3 (e_perm go AND S_IRWXO)) AND NOT S_IRWXG) OR push_bit 3 (p AND S_IRWXO) OR ?o
      = ?u OR push_bit 3 (p AND S_IRWXO) OR ?o" for p
    by (rule bit_word_eqI) (auto simp: bit_simps S_IRWX_bits)
  show ?thesis
    using assms tags masked
    by (auto simp: posix_acl_equiv_mode_def acl_shape_def acl_equiv_named plain_entry_def class_entry_def
        mode_of_def or.assoc)
qed

lemma mode_triples:
  "mode_of (drop_bit 6 (mode AND S_IRWXU)) (drop_bit 3 (mode AND S_IRWXG)) (mode AND S_IRWXO) =
   mode AND S_IRWXUGO"
proof (rule bit_word_eqI)
  fix n
  show "bit (mode_of (drop_bit 6 (mode AND S_IRWXU)) (drop_bit 3 (mode AND S_IRWXG)) (mode AND S_IRWXO)) n =
      bit (mode AND S_IRWXUGO) n"
    by (cases "n < 3"; cases "n < 6") (auto simp: bit_simps S_IRWX_bits mode_of_bits)
qed

lemma triples_rwx:
  "rwx_entry \<lparr>e_tag = t, e_perm = drop_bit 6 (mode AND S_IRWXU), e_id = k\<rparr>"
  "rwx_entry \<lparr>e_tag = t, e_perm = drop_bit 3 (mode AND S_IRWXG), e_id = k\<rparr>"
  "rwx_entry \<lparr>e_tag = t, e_perm = mode AND S_IRWXO, e_id = k\<rparr>"
  by (auto simp: rwx_entry_bits bit_simps S_IRWX_bits)

lemma acl_shape_from_mode:
  "posix_acl_from_mode True mode = Inr acl \<Longrightarrow>
   \<exists>uo go ot. acl = [uo, go, ot] \<and> acl_shape uo [] go [] [] ot \<and>
     mode_of (e_perm uo) (e_perm go) (e_perm ot) = mode AND S_IRWXUGO"
  using triples_rwx mode_triples
  by (auto simp: posix_acl_from_mode_def acl_shape_def plain_entry_def named_entries_def)

text \<open>
  The two editing loops as passes over the list.  \<open>last_tag\<close> is where a pointer to the last
  entry with a tag ends up.
\<close>

definition known_tag :: "posix_acl_entry \<Rightarrow> bool" where
  "known_tag e \<longleftrightarrow> e_tag e \<in> {ACL_USER_OBJ, ACL_USER, ACL_GROUP_OBJ, ACL_GROUP, ACL_MASK, ACL_OTHER}"

fun last_tag :: "u16 \<Rightarrow> nat \<Rightarrow> posix_acl \<Rightarrow> nat option \<Rightarrow> nat option" where
  "last_tag t k [] acc = acc"
| "last_tag t k (e # es) acc = last_tag t (Suc k) es (if e_tag e = t then Some k else acc)"

definition chmod_entry :: "mode_t \<Rightarrow> posix_acl_entry \<Rightarrow> posix_acl_entry" where
  "chmod_entry mode e =
     (if e_tag e = ACL_USER_OBJ then e\<lparr>e_perm := drop_bit 6 (mode AND S_IRWXU)\<rparr>
      else if e_tag e = ACL_OTHER then e\<lparr>e_perm := mode AND S_IRWXO\<rparr> else e)"

fun create_pass :: "mode_t \<Rightarrow> posix_acl \<Rightarrow> posix_acl \<times> mode_t" where
  "create_pass mode [] = ([], mode)"
| "create_pass mode (e # es) =
     (if e_tag e = ACL_USER_OBJ then
        let p = e_perm e AND (drop_bit 6 mode OR NOT S_IRWXO);
            (es', mode') = create_pass (mode AND (push_bit 6 p OR NOT S_IRWXU)) es
        in (e\<lparr>e_perm := p\<rparr> # es', mode')
      else if e_tag e = ACL_OTHER then
        let p = e_perm e AND (mode OR NOT S_IRWXO);
            (es', mode') = create_pass (mode AND (p OR NOT S_IRWXO)) es
        in (e\<lparr>e_perm := p\<rparr> # es', mode')
      else let (es', mode') = create_pass mode es in (e # es', mode'))"

lemma foreach_chmod:
  assumes "\<forall>e \<in> set ys. known_tag e" "q_acl q = xs @ ys"
  shows "foreach_entry (chmod_masq_entry mode) [length xs..<length xs + length ys] q =
    Inr (q\<lparr>q_acl := xs @ map (chmod_entry mode) ys,
           q_group_obj := last_tag ACL_GROUP_OBJ (length xs) ys (q_group_obj q),
           q_mask_obj := last_tag ACL_MASK (length xs) ys (q_mask_obj q)\<rparr>)"
  using assms
proof (induction ys arbitrary: xs q)
  case Nil
  then show ?case by simp
next
  case (Cons y ys)
  let ?q = "q\<lparr>q_acl := (xs @ [chmod_entry mode y]) @ ys,
              q_group_obj := (if e_tag y = ACL_GROUP_OBJ then Some (length xs) else q_group_obj q),
              q_mask_obj := (if e_tag y = ACL_MASK then Some (length xs) else q_mask_obj q)\<rparr>"
  have step: "chmod_masq_entry mode (length xs) q = Inr ?q"
    using Cons.prems by (auto simp: chmod_masq_entry_def known_tag_def chmod_entry_def acl_set_perm_def)
  have idx: "[length xs..<length xs + length (y # ys)] =
      length xs # [length (xs @ [chmod_entry mode y])..<length (xs @ [chmod_entry mode y]) + length ys]"
    by (subst upt_conv_Cons) simp_all
  show ?case
    unfolding idx using Cons.IH [of ?q "xs @ [chmod_entry mode y]"] Cons.prems step by simp
qed

lemma foreach_create:
  assumes "\<forall>e \<in> set ys. known_tag e" "q_acl q = xs @ ys"
  shows "foreach_entry create_masq_entry [length xs..<length xs + length ys] q =
    Inr (q\<lparr>q_acl := xs @ fst (create_pass (q_mode q) ys), q_mode := snd (create_pass (q_mode q) ys),
           q_group_obj := last_tag ACL_GROUP_OBJ (length xs) ys (q_group_obj q),
           q_mask_obj := last_tag ACL_MASK (length xs) ys (q_mask_obj q),
           q_not_equiv := q_not_equiv q \<or> (\<exists>e \<in> set ys. e_tag e \<in> {ACL_USER, ACL_GROUP, ACL_MASK})\<rparr>)"
  using assms
proof (induction ys arbitrary: xs q)
  case Nil
  then show ?case by simp
next
  case (Cons y ys)
  define p where "p = (if e_tag y = ACL_USER_OBJ then e_perm y AND (drop_bit 6 (q_mode q) OR NOT S_IRWXO)
    else if e_tag y = ACL_OTHER then e_perm y AND (q_mode q OR NOT S_IRWXO) else e_perm y)"
  define mode where "mode = (if e_tag y = ACL_USER_OBJ then q_mode q AND (push_bit 6 p OR NOT S_IRWXU)
    else if e_tag y = ACL_OTHER then q_mode q AND (p OR NOT S_IRWXO) else q_mode q)"
  let ?y = "y\<lparr>e_perm := p\<rparr>"
  let ?q = "q\<lparr>q_acl := (xs @ [?y]) @ ys, q_mode := mode,
              q_group_obj := (if e_tag y = ACL_GROUP_OBJ then Some (length xs) else q_group_obj q),
              q_mask_obj := (if e_tag y = ACL_MASK then Some (length xs) else q_mask_obj q),
              q_not_equiv := q_not_equiv q \<or> e_tag y \<in> {ACL_USER, ACL_GROUP, ACL_MASK}\<rparr>"
  have step: "create_masq_entry (length xs) q = Inr ?q"
    using Cons.prems
    by (auto simp: create_masq_entry_def known_tag_def acl_set_perm_def Let_def p_def mode_def)
  have pass: "create_pass (q_mode q) (y # ys) =
      (?y # fst (create_pass mode ys), snd (create_pass mode ys))"
    by (auto simp: p_def mode_def Let_def split: prod.split)
  have idx: "[length xs..<length xs + length (y # ys)] =
      length xs # [length (xs @ [?y])..<length (xs @ [?y]) + length ys]"
    by (subst upt_conv_Cons) simp_all
  have IH: "foreach_entry create_masq_entry [length (xs @ [?y])..<length (xs @ [?y]) + length ys] ?q =
    Inr (?q\<lparr>q_acl := (xs @ [?y]) @ fst (create_pass mode ys), q_mode := snd (create_pass mode ys),
           q_group_obj := last_tag ACL_GROUP_OBJ (length (xs @ [?y])) ys (q_group_obj ?q),
           q_mask_obj := last_tag ACL_MASK (length (xs @ [?y])) ys (q_mask_obj ?q),
           q_not_equiv := q_not_equiv ?q \<or> (\<exists>e \<in> set ys. e_tag e \<in> {ACL_USER, ACL_GROUP, ACL_MASK})\<rparr>)"
    using Cons.IH [of ?q "xs @ [?y]"] Cons.prems by simp
  show ?case
    unfolding idx pass foreach_entry.simps step sum.case IH by simp
qed

lemma last_tag_none: "\<forall>e \<in> set xs. e_tag e \<noteq> t \<Longrightarrow> last_tag t k (xs @ ys) acc = last_tag t (k + length xs) ys acc"
  by (induction xs arbitrary: k) auto

lemma last_tag_shape:
  assumes "acl_shape uo us go gs m ot"
  shows "last_tag ACL_GROUP_OBJ 0 (uo # us @ go # gs @ m @ [ot]) None = Some (Suc (length us))"
    and "last_tag ACL_MASK 0 (uo # us @ go # gs @ m @ [ot]) None =
      (if m = [] then None else Some (length us + length gs + 2))"
proof -
  have tags: "e_tag uo = ACL_USER_OBJ" "e_tag go = ACL_GROUP_OBJ" "e_tag ot = ACL_OTHER"
      "\<forall>e \<in> set us. e_tag e = ACL_USER" "\<forall>e \<in> set gs. e_tag e = ACL_GROUP"
      "m = [] \<or> (\<exists>mo. m = [mo] \<and> e_tag mo = ACL_MASK)"
    using assms by (auto simp: acl_shape_def plain_entry_def named_entries_def)
  then show "last_tag ACL_GROUP_OBJ 0 (uo # us @ go # gs @ m @ [ot]) None = Some (Suc (length us))"
    by (auto simp: last_tag_none)
  show "last_tag ACL_MASK 0 (uo # us @ go # gs @ m @ [ot]) None =
      (if m = [] then None else Some (length us + length gs + 2))"
    using tags by (auto simp: last_tag_none)
qed

lemma shape_known: "acl_shape uo us go gs m ot \<Longrightarrow> \<forall>e \<in> set (uo # us @ go # gs @ m @ [ot]). known_tag e"
  by (auto simp: acl_shape_def plain_entry_def named_entries_def known_tag_def)

text \<open>The list after an edit of the three classes: owner, group class and others.\<close>

definition with_perms :: "u16 \<Rightarrow> u16 \<Rightarrow> u16 \<Rightarrow>
    posix_acl_entry \<Rightarrow> posix_acl \<Rightarrow> posix_acl_entry \<Rightarrow> posix_acl \<Rightarrow> posix_acl \<Rightarrow> posix_acl_entry \<Rightarrow> posix_acl" where
  "with_perms u g o' uo us go gs m ot =
     uo\<lparr>e_perm := u\<rparr> # us @ (if m = [] then go\<lparr>e_perm := g\<rparr> else go) # gs @
       map (\<lambda>e. e\<lparr>e_perm := g\<rparr>) m @ [ot\<lparr>e_perm := o'\<rparr>]"

definition class_index :: "posix_acl \<Rightarrow> posix_acl \<Rightarrow> posix_acl \<Rightarrow> nat" where
  "class_index us gs m = (if m = [] then Suc (length us) else length us + length gs + 2)"

lemma class_update:
  assumes "acl_shape uo us go gs m ot"
  shows "(uo' # us @ go # gs @ m @ [ot'])[class_index us gs m := (class_entry go m)\<lparr>e_perm := g\<rparr>] =
     uo' # us @ (if m = [] then go\<lparr>e_perm := g\<rparr> else go) # gs @ map (\<lambda>e. e\<lparr>e_perm := g\<rparr>) m @ [ot']"
  using assms
  by (auto simp: acl_shape_def nth_append list_update_append class_index_def class_entry_def)

lemma class_nth:
  assumes "acl_shape uo us go gs m ot"
  shows "(uo' # us @ go # gs @ m @ [ot']) ! class_index us gs m = class_entry go m"
  using assms by (auto simp: acl_shape_def nth_append class_entry_def class_index_def)

lemma class_case:
  "(case (if m = [] then None else Some (length us + length gs + 2)) of
      Some k \<Rightarrow> Some k | None \<Rightarrow> Some (Suc (length us))) = Some (class_index us gs m)"
  by (simp add: class_index_def)

lemma chmod_entry_map:
  assumes "acl_shape uo us go gs m ot"
  shows "map (chmod_entry mode) (uo # us @ go # gs @ m @ [ot]) =
    uo\<lparr>e_perm := drop_bit 6 (mode AND S_IRWXU)\<rparr> # us @ go # gs @ m @ [ot\<lparr>e_perm := mode AND S_IRWXO\<rparr>]"
proof -
  have "map (chmod_entry mode) us = us" "map (chmod_entry mode) gs = gs" "map (chmod_entry mode) m = m"
    using assms
    by (auto simp: acl_shape_def plain_entry_def named_entries_def chmod_entry_def intro!: map_idI)
  then show ?thesis
    using assms by (simp add: acl_shape_def plain_entry_def chmod_entry_def)
qed

lemma chmod_shape:
  assumes "acl_shape uo us go gs m ot"
  shows "posix_acl_chmod_masq (uo # us @ go # gs @ m @ [ot]) mode =
    Inr (with_perms (drop_bit 6 (mode AND S_IRWXU)) (drop_bit 3 (mode AND S_IRWXG)) (mode AND S_IRWXO)
          uo us go gs m ot)"
proof -
  let ?acl = "uo # us @ go # gs @ m @ [ot]"
  let ?q = "\<lparr>q_acl = ?acl, q_mode = mode, q_group_obj = None, q_mask_obj = None, q_not_equiv = False\<rparr>"
  have "foreach_entry (chmod_masq_entry mode) [0..<length ?acl] ?q =
      Inr (?q\<lparr>q_acl := map (chmod_entry mode) ?acl,
              q_group_obj := Some (Suc (length us)),
              q_mask_obj := (if m = [] then None else Some (length us + length gs + 2))\<rparr>)"
    using foreach_chmod [OF shape_known [OF assms], of ?q "[]" mode] last_tag_shape [OF assms]
    by simp
  then show ?thesis
    unfolding posix_acl_chmod_masq_def chmod_entry_map [OF assms] acl_set_perm_def with_perms_def
    by (simp only: sum.case masq.simps class_case option.case class_nth [OF assms] class_update [OF assms])
qed

lemma with_perms_shape:
  assumes "acl_shape uo us go gs m ot"
    and "\<forall>p \<in> {u, g, o'}. \<forall>n \<ge> 3. \<not> bit p n"
  shows "\<exists>uo' go' m' ot'. with_perms u g o' uo us go gs m ot = uo' # us @ go' # gs @ m' @ [ot'] \<and>
      acl_shape uo' us go' gs m' ot' \<and>
      e_perm uo' = u \<and> e_perm (class_entry go' m') = g \<and> e_perm ot' = o' \<and> (m' = [] \<longleftrightarrow> m = [])"
  using assms
  by (auto simp: with_perms_def acl_shape_def plain_entry_def rwx_entry_bits class_entry_def)

lemma create_pass_skip:
  "\<forall>e \<in> set xs. e_tag e \<noteq> ACL_USER_OBJ \<and> e_tag e \<noteq> ACL_OTHER \<Longrightarrow>
   create_pass mode (xs @ ys) = (xs @ fst (create_pass mode ys), snd (create_pass mode ys))"
  by (induction xs) (auto simp: Let_def split: prod.split)

lemma create_pass_shape:
  assumes "acl_shape uo us go gs m ot"
  shows "create_pass mode (uo # us @ go # gs @ m @ [ot]) =
    (let u = e_perm uo AND (drop_bit 6 mode OR NOT S_IRWXO);
         mode1 = mode AND (push_bit 6 u OR NOT S_IRWXU);
         w = e_perm ot AND (mode1 OR NOT S_IRWXO)
     in (uo\<lparr>e_perm := u\<rparr> # us @ go # gs @ m @ [ot\<lparr>e_perm := w\<rparr>], mode1 AND (w OR NOT S_IRWXO)))"
proof -
  have tags: "e_tag uo = ACL_USER_OBJ" "e_tag ot = ACL_OTHER"
      "\<forall>e \<in> set (us @ go # gs @ m). e_tag e \<noteq> ACL_USER_OBJ \<and> e_tag e \<noteq> ACL_OTHER"
    using assms by (auto simp: acl_shape_def plain_entry_def named_entries_def)
  then have "create_pass k (us @ go # gs @ m @ [ot]) =
      (us @ go # gs @ m @ fst (create_pass k [ot]), snd (create_pass k [ot]))" for k
    using create_pass_skip [OF tags(3), of k "[ot]"] by simp
  then show ?thesis
    using tags by (simp add: Let_def)
qed

text \<open>
  What the edits of the creation come to: a class keeps the permissions that both the ACL and
  the mode have, and the mode keeps the same ones.
\<close>

definition created_mode :: "u16 \<Rightarrow> u16 \<Rightarrow> u16 \<Rightarrow> mode_t \<Rightarrow> mode_t" where
  "created_mode u g o' mode = mode AND (mode_of u g o' OR NOT S_IRWXUGO)"

lemma created_mode_bits:
  "bit (created_mode u g o' mode) n \<longleftrightarrow> bit mode n \<and>
     (9 \<le> n \<or> (6 \<le> n \<and> n < 9 \<and> bit u (n - 6)) \<or> (3 \<le> n \<and> n < 6 \<and> bit g (n - 3)) \<or> (n < 3 \<and> bit o' n))"
  by (auto simp: created_mode_def bit_simps S_IRWX_bits mode_of_bits dest: bit_u16_less)

lemma created_perms:
  fixes u g w mode :: u16
  assumes "\<forall>p \<in> {u, g, w}. \<forall>n \<ge> 3. \<not> bit p n"
  defines "u' \<equiv> u AND (drop_bit 6 mode OR NOT S_IRWXO)"
  defines "mode1 \<equiv> mode AND (push_bit 6 u' OR NOT S_IRWXU)"
  defines "w' \<equiv> w AND (mode1 OR NOT S_IRWXO)"
  defines "mode2 \<equiv> mode1 AND (w' OR NOT S_IRWXO)"
  defines "g' \<equiv> g AND (drop_bit 3 mode2 OR NOT S_IRWXO)"
  defines "mode3 \<equiv> mode2 AND (push_bit 3 g' OR NOT S_IRWXG)"
  shows "u' = drop_bit 6 (created_mode u g w mode AND S_IRWXU)"
    and "g' = drop_bit 3 (created_mode u g w mode AND S_IRWXG)"
    and "w' = created_mode u g w mode AND S_IRWXO"
    and "(mode AND NOT S_IRWXUGO) OR mode3 = created_mode u g w mode"
proof -
  have low: "\<And>n. bit u n \<Longrightarrow> n < 3" "\<And>n. bit g n \<Longrightarrow> n < 3" "\<And>n. bit w n \<Longrightarrow> n < 3"
    using assms(1) not_less by blast+
  have u': "bit u' n \<longleftrightarrow> bit u n \<and> bit mode (n + 6)" for n
    by (auto simp: u'_def bit_simps S_IRWX_bits add.commute dest: low bit_u16_less)
  have mode1: "bit mode1 n \<longleftrightarrow> bit mode n \<and> (6 \<le> n \<and> n < 9 \<longrightarrow> bit u (n - 6))" for n
    by (auto simp: mode1_def bit_simps S_IRWX_bits u' dest: bit_u16_less)
  have w': "bit w' n \<longleftrightarrow> bit w n \<and> bit mode n" for n
    by (auto simp: w'_def bit_simps S_IRWX_bits mode1 dest: low bit_u16_less)
  have mode2: "bit mode2 n \<longleftrightarrow> bit mode1 n \<and> (n < 3 \<longrightarrow> bit w n)" for n
    by (auto simp: mode2_def bit_simps S_IRWX_bits w' mode1 dest: bit_u16_less)
  have g': "bit g' n \<longleftrightarrow> bit g n \<and> bit mode (n + 3)" for n
    by (auto simp: g'_def bit_simps S_IRWX_bits mode2 mode1 add.commute dest: low bit_u16_less)
  have mode3: "bit mode3 n \<longleftrightarrow> bit mode2 n \<and> (3 \<le> n \<and> n < 6 \<longrightarrow> bit g (n - 3))" for n
    by (auto simp: mode3_def bit_simps S_IRWX_bits g' mode2 mode1 dest: bit_u16_less)
  show "u' = drop_bit 6 (created_mode u g w mode AND S_IRWXU)"
    by (rule bit_word_eqI) (auto simp: u' bit_simps created_mode_bits S_IRWX_bits add.commute dest: low)
  show "g' = drop_bit 3 (created_mode u g w mode AND S_IRWXG)"
    by (rule bit_word_eqI) (auto simp: g' bit_simps created_mode_bits S_IRWX_bits add.commute dest: low)
  show "w' = created_mode u g w mode AND S_IRWXO"
    by (rule bit_word_eqI) (auto simp: w' bit_simps created_mode_bits S_IRWX_bits dest: low)
  show "(mode AND NOT S_IRWXUGO) OR mode3 = created_mode u g w mode"
    by (rule bit_word_eqI)
      (auto simp: mode3 mode2 mode1 bit_simps created_mode_bits S_IRWX_bits not_less)
qed

lemma shape_perm_bits:
  assumes "acl_shape uo us go gs m ot"
  shows "\<forall>p \<in> {e_perm uo, e_perm (class_entry go m), e_perm ot}. \<forall>n \<ge> 3. \<not> bit p n"
  using assms by (auto simp: acl_shape_def plain_entry_def rwx_entry_bits class_entry_def)

lemma triple_bits:
  "\<forall>p \<in> {drop_bit 6 (mode AND S_IRWXU), drop_bit 3 (mode AND S_IRWXG), mode AND S_IRWXO}. \<forall>n \<ge> 3. \<not> bit p n"
  by (auto simp: bit_simps S_IRWX_bits)

lemma shape_not_equiv:
  assumes "acl_shape uo us go gs m ot"
  shows "(\<exists>e \<in> set (uo # us @ go # gs @ m @ [ot]). e_tag e \<in> {ACL_USER, ACL_GROUP, ACL_MASK}) \<longleftrightarrow> m \<noteq> []"
  using assms by (auto simp: acl_shape_def plain_entry_def)

lemma create_shape:
  fixes mode :: mode_t
  assumes "acl_shape uo us go gs m ot"
  defines "mode' \<equiv> created_mode (e_perm uo) (e_perm (class_entry go m)) (e_perm ot) mode"
  shows "posix_acl_create_masq (uo # us @ go # gs @ m @ [ot]) mode =
    Inr (m \<noteq> [], with_perms (drop_bit 6 (mode' AND S_IRWXU)) (drop_bit 3 (mode' AND S_IRWXG))
           (mode' AND S_IRWXO) uo us go gs m ot, mode')"
proof -
  let ?acl = "uo # us @ go # gs @ m @ [ot]"
  let ?q = "\<lparr>q_acl = ?acl, q_mode = mode, q_group_obj = None, q_mask_obj = None, q_not_equiv = False\<rparr>"
  define u where "u = e_perm uo AND (drop_bit 6 mode OR NOT S_IRWXO)"
  define mode1 where "mode1 = mode AND (push_bit 6 u OR NOT S_IRWXU)"
  define w where "w = e_perm ot AND (mode1 OR NOT S_IRWXO)"
  define mode2 where "mode2 = mode1 AND (w OR NOT S_IRWXO)"
  note defs = u_def mode1_def w_def mode2_def
  have pass: "create_pass mode ?acl = (uo\<lparr>e_perm := u\<rparr> # us @ go # gs @ m @ [ot\<lparr>e_perm := w\<rparr>], mode2)"
    by (simp only: create_pass_shape [OF assms(1)] Let_def defs)
  have "foreach_entry create_masq_entry [0..<length ?acl] ?q =
      Inr (?q\<lparr>q_acl := uo\<lparr>e_perm := u\<rparr> # us @ go # gs @ m @ [ot\<lparr>e_perm := w\<rparr>], q_mode := mode2,
              q_group_obj := Some (Suc (length us)),
              q_mask_obj := (if m = [] then None else Some (length us + length gs + 2)),
              q_not_equiv := m \<noteq> []\<rparr>)"
    using foreach_create [OF shape_known [OF assms(1)], of ?q "[]"]
    unfolding last_tag_shape [OF assms(1)] shape_not_equiv [OF assms(1)] masq.simps list.size
      append_Nil add_0 pass fst_conv snd_conv simp_thms by blast
  moreover define g where "g = e_perm (class_entry go m) AND (drop_bit 3 mode2 OR NOT S_IRWXO)"
  moreover define mode3 where "mode3 = mode2 AND (push_bit 3 g OR NOT S_IRWXG)"
  moreover have "u = drop_bit 6 (mode' AND S_IRWXU)" "g = drop_bit 3 (mode' AND S_IRWXG)"
      "w = mode' AND S_IRWXO" "(mode AND NOT S_IRWXUGO) OR mode3 = mode'"
    unfolding g_def mode3_def defs mode'_def by (rule created_perms [OF shape_perm_bits [OF assms(1)]])+
  ultimately show ?thesis
    unfolding posix_acl_create_masq_def acl_set_perm_def with_perms_def
    by (simp only: sum.case masq.simps class_case option.case class_nth [OF assms(1)]
        class_update [OF assms(1)] Let_def)
qed

text \<open>C12: The validity check of an ACL accepts exactly the lists of the prescribed shape: one owner
  entry, named users with strictly increasing identifiers, one owning-group entry, named groups
  with strictly increasing identifiers, a mask that may be missing only when nobody is named, and
  one entry for others, all with no other permission bits than read, write and execute.\<close>

theorem posix_acl_valid_spec:
  "posix_acl_valid acl =
     (if \<exists>uo us go gs m ot. acl = uo # us @ go # gs @ m @ [ot] \<and> acl_shape uo us go gs m ot
      then Inr () else Inl EINVAL)"
  using valid_shape [of acl] posix_acl_valid_error [of acl] by auto

text \<open>An ACL made from a mode is valid, has the nine permission bits of that mode and nothing
  else, and reads back as them: the bits of the mode that are not permissions stay.\<close>

theorem acl_from_mode_roundtrip:
  assumes "posix_acl_from_mode True mode = Inr acl"
  shows "posix_acl_valid acl = Inr () \<and>
    posix_acl_equiv_mode acl mode_p = Inr (False, (mode_p AND NOT S_IRWXUGO) OR (mode AND S_IRWXUGO))"
proof -
  obtain uo go ot where acl: "acl = [uo, go, ot]" "acl_shape uo [] go [] [] ot"
    "mode_of (e_perm uo) (e_perm go) (e_perm ot) = mode AND S_IRWXUGO"
    using acl_shape_from_mode [OF assms] by blast
  have "posix_acl_valid acl = Inr ()"
    unfolding valid_shape using acl(1,2) by (metis append_Nil)
  then show ?thesis
    using acl acl_equiv_shape [OF acl(2)] by (simp add: class_entry_def)
qed

theorem acl_from_mode_roundtrip_witness:
  "\<exists>acl. posix_acl_from_mode True 0x1A4 = Inr acl \<and> posix_acl_equiv_mode acl 0x8000 = Inr (False, 0x81A4)"
proof -
  obtain acl where acl: "posix_acl_from_mode True 0x1A4 = Inr acl"
    by (simp add: posix_acl_from_mode_def)
  have "((0x8000 :: mode_t) AND NOT S_IRWXUGO) OR (0x1A4 AND S_IRWXUGO) = 0x81A4"
    by code_simp
  then show ?thesis
    using acl_from_mode_roundtrip [OF acl, of "0x8000"] acl by auto
qed

definition named_part :: "posix_acl \<Rightarrow> posix_acl" where
  "named_part acl = filter (\<lambda>e. e_tag e = ACL_USER \<or> e_tag e = ACL_GROUP) acl"

lemma named_part_shape:
  "acl_shape uo us go gs m ot \<Longrightarrow> named_part (uo # us @ go # gs @ m @ [ot]) = us @ gs"
  by (auto simp: named_part_def acl_shape_def plain_entry_def named_entries_def)

text \<open>Changing the mode of a file with a valid ACL succeeds and gives a valid ACL with the same
  named entries, whose permission bits are those of the new mode.\<close>

theorem acl_chmod_masq_spec:
  assumes "posix_acl_valid acl = Inr ()"
  shows "\<exists>acl' not_equiv. posix_acl_chmod_masq acl mode = Inr acl' \<and> posix_acl_valid acl' = Inr () \<and>
    named_part acl' = named_part acl \<and>
    posix_acl_equiv_mode acl' mode_p =
      Inr (not_equiv, (mode_p AND NOT S_IRWXUGO) OR (mode AND S_IRWXUGO)) \<and>
    (not_equiv \<longleftrightarrow> length acl \<noteq> 3)"
proof -
  obtain uo us go gs m ot where acl: "acl = uo # us @ go # gs @ m @ [ot]" and sh: "acl_shape uo us go gs m ot"
    using assms unfolding valid_shape by blast
  obtain uo' go' m' ot' where new:
      "with_perms (drop_bit 6 (mode AND S_IRWXU)) (drop_bit 3 (mode AND S_IRWXG)) (mode AND S_IRWXO)
         uo us go gs m ot = uo' # us @ go' # gs @ m' @ [ot']"
      "acl_shape uo' us go' gs m' ot'" "m' = [] \<longleftrightarrow> m = []"
      "mode_of (e_perm uo') (e_perm (class_entry go' m')) (e_perm ot') = mode AND S_IRWXUGO"
    using with_perms_shape [OF sh triple_bits] mode_triples by metis
  have len: "m \<noteq> [] \<longleftrightarrow> length acl \<noteq> 3"
    using sh acl by (auto simp: acl_shape_def)
  have "posix_acl_valid (uo' # us @ go' # gs @ m' @ [ot']) = Inr ()"
    unfolding valid_shape using new(2) by blast
  moreover have "posix_acl_chmod_masq acl mode = Inr (uo' # us @ go' # gs @ m' @ [ot'])"
    unfolding acl chmod_shape [OF sh] new(1) ..
  moreover have "named_part (uo' # us @ go' # gs @ m' @ [ot']) = named_part acl"
    unfolding acl named_part_shape [OF sh] named_part_shape [OF new(2)] ..
  moreover note acl_equiv_shape [OF new(2), of mode_p, unfolded new(4)]
  ultimately show ?thesis
    using len new(3) by blast
qed

theorem acl_chmod_masq_spec_witness:
  "\<exists>acl'. posix_acl_chmod_masq example_acl 0x1C0 = Inr acl' \<and> posix_acl_valid acl' = Inr () \<and>
     length (named_part acl') = 2"
proof -
  have "length (named_part example_acl) = 2"
    by code_simp
  then show ?thesis
    using acl_chmod_masq_spec [OF example_acl_valid, of "0x1C0" 0] by fastforce
qed

text \<open>Creating a file with a valid default ACL takes from the requested mode the permissions the
  ACL does not give, leaves the other bits of the mode alone, and edits the ACL as a change of
  mode to the result does: after it the ACL and the mode agree.\<close>

theorem acl_create_masq_spec:
  fixes mode :: mode_t
  assumes "posix_acl_valid acl = Inr ()" and "posix_acl_equiv_mode acl 0 = Inr (not_equiv, given)"
  defines "mode' \<equiv> mode AND (given OR NOT S_IRWXUGO)"
  shows "\<exists>acl'. posix_acl_create_masq acl mode = Inr (not_equiv, acl', mode') \<and>
    posix_acl_chmod_masq acl mode' = Inr acl' \<and> posix_acl_valid acl' = Inr () \<and>
    posix_acl_equiv_mode acl' mode' = Inr (not_equiv, mode')"
proof -
  obtain uo us go gs m ot where acl: "acl = uo # us @ go # gs @ m @ [ot]" and sh: "acl_shape uo us go gs m ot"
    using assms unfolding valid_shape by blast
  have given: "not_equiv \<longleftrightarrow> m \<noteq> []" "given = mode_of (e_perm uo) (e_perm (class_entry go m)) (e_perm ot)"
    using assms(2) acl_equiv_shape [OF sh, of 0] acl by auto
  then have mode': "mode' = created_mode (e_perm uo) (e_perm (class_entry go m)) (e_perm ot) mode"
    by (simp add: mode'_def created_mode_def)
  obtain uo' go' m' ot' where new:
      "with_perms (drop_bit 6 (mode' AND S_IRWXU)) (drop_bit 3 (mode' AND S_IRWXG)) (mode' AND S_IRWXO)
         uo us go gs m ot = uo' # us @ go' # gs @ m' @ [ot']"
      "acl_shape uo' us go' gs m' ot'" "m' = [] \<longleftrightarrow> m = []"
      "mode_of (e_perm uo') (e_perm (class_entry go' m')) (e_perm ot') = mode' AND S_IRWXUGO"
    using with_perms_shape [OF sh triple_bits] mode_triples by metis
  have "posix_acl_valid (uo' # us @ go' # gs @ m' @ [ot']) = Inr ()"
    unfolding valid_shape using new(2) by blast
  moreover have "(mode' AND NOT S_IRWXUGO) OR (mode' AND S_IRWXUGO) = mode'"
    by (rule bit_word_eqI) (auto simp: bit_simps)
  ultimately show ?thesis
    unfolding acl create_shape [OF sh] mode' [symmetric] chmod_shape [OF sh] new(1)
    using given(1) new(3,4) acl_equiv_shape [OF new(2), of mode']
    by (intro exI [of _ "uo' # us @ go' # gs @ m' @ [ot']"] conjI) simp_all
qed

theorem acl_create_masq_spec_witness:
  "\<exists>acl'. posix_acl_create_masq example_acl 0x81B6 = Inr (True, acl', 0x81A4) \<and>
     posix_acl_equiv_mode acl' 0x81A4 = Inr (True, 0x81A4)"
proof -
  have "posix_acl_equiv_mode example_acl 0 = Inr (True, 0x1EC)"
    and "(0x81B6 :: mode_t) AND (0x1EC OR NOT S_IRWXUGO) = 0x81A4"
    by code_simp+
  then show ?thesis
    using acl_create_masq_spec [OF example_acl_valid, of True "0x1EC" "0x81B6"] by auto
qed

end
