(* ===== verification/Namei.thy ===== *)
theory Namei
  imports Posix_Acl Setid_Spec
begin

text \<open>
  Who may do what to an inode: the permission checks of \<^verbatim>\<open>fs/namei.c\<close> with the macros of
  \<^verbatim>\<open>include/linux/fs.h\<close> and \<^verbatim>\<open>include/linux/stat.h\<close> they use, the ACL callback
  of \<^verbatim>\<open>fs/ext2/acl.c\<close>, and the write-access counter of an inode.

  The checks read the caller's credentials and groups and may use a capability, which marks the
  task; so they take the kernel state and return it.  The hooks of the security module and of the
  device control group are those of the board's configuration, where both are compiled out.  What
  a file system puts into its \<^verbatim>\<open>inode_operations\<close> is an argument.
\<close>

section \<open>Inodes\<close>

record timespec =
  tv_sec :: int
  tv_nsec :: u32

record inode =
  i_ino :: nat
  i_mode :: mode_t
  i_uid :: uid_t
  i_gid :: gid_t
  i_flags :: u32
  i_writecount :: u32
  i_size :: int
  i_atime :: timespec
  i_mtime :: timespec
  i_ctime :: timespec
  s_flags :: u32
  s_time_gran :: u32
  s_maxbytes :: int
  i_xattr :: xattr_inode

definition MS_RDONLY :: u32 where "MS_RDONLY = 1"
definition MS_POSIXACL :: u32 where "MS_POSIXACL = push_bit 16 1"
definition S_APPEND :: u32 where "S_APPEND = 4"
definition S_IMMUTABLE :: u32 where "S_IMMUTABLE = 8"
definition S_DEAD :: u32 where "S_DEAD = 16"
definition S_SWAPFILE :: u32 where "S_SWAPFILE = 256"

definition IS_RDONLY :: "inode \<Rightarrow> bool" where "IS_RDONLY i \<longleftrightarrow> s_flags i AND MS_RDONLY \<noteq> 0"
definition IS_POSIXACL :: "inode \<Rightarrow> bool" where "IS_POSIXACL i \<longleftrightarrow> s_flags i AND MS_POSIXACL \<noteq> 0"
definition IS_APPEND :: "inode \<Rightarrow> bool" where "IS_APPEND i \<longleftrightarrow> i_flags i AND S_APPEND \<noteq> 0"
definition IS_IMMUTABLE :: "inode \<Rightarrow> bool" where "IS_IMMUTABLE i \<longleftrightarrow> i_flags i AND S_IMMUTABLE \<noteq> 0"
definition IS_DEADDIR :: "inode \<Rightarrow> bool" where "IS_DEADDIR i \<longleftrightarrow> i_flags i AND S_DEAD \<noteq> 0"
definition IS_SWAPFILE :: "inode \<Rightarrow> bool" where "IS_SWAPFILE i \<longleftrightarrow> i_flags i AND S_SWAPFILE \<noteq> 0"

definition MAY_EXEC :: u32 where "MAY_EXEC = 1"
definition MAY_WRITE :: u32 where "MAY_WRITE = 2"
definition MAY_READ :: u32 where "MAY_READ = 4"
definition MAY_APPEND :: u32 where "MAY_APPEND = 8"
definition MAY_ACCESS :: u32 where "MAY_ACCESS = 16"

lemmas may_flags = MAY_EXEC_def MAY_WRITE_def MAY_READ_def

abbreviation current_fsuid :: "kernel \<Rightarrow> uid_t" where
  "current_fsuid k \<equiv> fsuid (current_cred k)"

section \<open>The permission checks\<close>

text \<open>\<^verbatim>\<open>if (cond) if (capable(n))\<close>: the capability is asked for only under the condition.\<close>

definition and_capable :: "security_operations \<Rightarrow> kernel \<Rightarrow> bool \<Rightarrow> nat \<Rightarrow> bool \<times> kernel" where
  "and_capable ops k cond n = (if cond then capable ops k n else (False, k))"

definition is_owner_or_cap :: "security_operations \<Rightarrow> kernel \<Rightarrow> inode \<Rightarrow> bool \<times> kernel" where
  "is_owner_or_cap ops k inode =
     (if current_fsuid k = i_uid inode then (True, k) else capable ops k CAP_FOWNER)"

definition execute_ok :: "inode \<Rightarrow> bool" where
  "execute_ok inode \<longleftrightarrow> i_mode inode AND S_IXUGO \<noteq> 0 \<or> S_ISDIR (i_mode inode)"

text \<open>The part of \<^verbatim>\<open>generic_permission\<close> from its label \<^verbatim>\<open>check_capabilities\<close> on.\<close>

definition check_capabilities ::
  "security_operations \<Rightarrow> kernel \<Rightarrow> inode \<Rightarrow> u32 \<Rightarrow> unit result \<times> kernel" where
  "check_capabilities ops k inode msk =
     (let (override, k1) = and_capable ops k (msk AND MAY_EXEC = 0 \<or> execute_ok inode) CAP_DAC_OVERRIDE
      in if override then (Inr (), k1)
         else
           let (search, k2) = and_capable ops k1
                 (msk = MAY_READ \<or> (S_ISDIR (i_mode inode) \<and> msk AND MAY_WRITE = 0)) CAP_DAC_READ_SEARCH
           in if search then (Inr (), k2) else (Inl EACCES, k2))"

definition mode_check ::
  "security_operations \<Rightarrow> kernel \<Rightarrow> inode \<Rightarrow> u32 \<Rightarrow> mode_t \<Rightarrow> unit result \<times> kernel" where
  "mode_check ops k inode msk mode =
     (if msk AND NOT (ucast mode) = 0 then (Inr (), k) else check_capabilities ops k inode msk)"

definition generic_permission ::
  "security_operations \<Rightarrow> kernel \<Rightarrow> inode \<Rightarrow> u32 \<Rightarrow> (kernel \<Rightarrow> inode \<Rightarrow> u32 \<Rightarrow> unit result) option
     \<Rightarrow> unit result \<times> kernel" where
  "generic_permission ops k inode mask0 check_acl =
     (let mode = i_mode inode;
          msk = mask0 AND (MAY_READ OR MAY_WRITE OR MAY_EXEC);
          group_check = mode_check ops k inode msk
            (if in_group_p k (i_gid inode) then drop_bit 3 mode else mode)
      in if current_fsuid k = i_uid inode then mode_check ops k inode msk (drop_bit 6 mode)
         else case check_acl of
           None \<Rightarrow> group_check
         | Some check \<Rightarrow>
             if IS_POSIXACL inode \<and> mode AND S_IRWXG \<noteq> 0
             then let error = check k inode msk
                  in if error = Inl EACCES then check_capabilities ops k inode msk
                     else if error \<noteq> Inl EAGAIN then (error, k)
                     else group_check
             else group_check)"

definition devcgroup_inode_permission :: "inode \<Rightarrow> u32 \<Rightarrow> unit result" where
  "devcgroup_inode_permission inode msk = Inr ()"

definition security_inode_permission :: "inode \<Rightarrow> u32 \<Rightarrow> unit result" where
  "security_inode_permission inode msk = Inr ()"

type_synonym permission_op = "kernel \<Rightarrow> inode \<Rightarrow> u32 \<Rightarrow> unit result \<times> kernel"

definition inode_permission ::
  "security_operations \<Rightarrow> permission_op option \<Rightarrow> kernel \<Rightarrow> inode \<Rightarrow> u32 \<Rightarrow> unit result \<times> kernel" where
  "inode_permission ops permission k inode msk =
     (let mode = i_mode inode
      in if msk AND MAY_WRITE \<noteq> 0 \<and> IS_RDONLY inode \<and> (S_ISREG mode \<or> S_ISDIR mode \<or> S_ISLNK mode)
         then (Inl EROFS, k)
         else if msk AND MAY_WRITE \<noteq> 0 \<and> IS_IMMUTABLE inode then (Inl EACCES, k)
         else
           case (case permission of Some f \<Rightarrow> f k inode msk
                 | None \<Rightarrow> generic_permission ops k inode msk None) of
             (Inl e, k1) \<Rightarrow> (Inl e, k1)
           | (Inr _, k1) \<Rightarrow>
             (case devcgroup_inode_permission inode msk of
                Inl e \<Rightarrow> (Inl e, k1)
              | Inr _ \<Rightarrow>
                (security_inode_permission inode
                   (msk AND (MAY_READ OR MAY_WRITE OR MAY_EXEC OR MAY_APPEND)), k1)))"

text \<open>
  The ACL callback of ext2.  \<open>get_acl\<close> is what \<^verbatim>\<open>ext2_get_acl\<close> reads for the access
  ACL: an error, no ACL, or an ACL.
\<close>

definition ext2_check_acl ::
  "posix_acl option result \<Rightarrow> kernel \<Rightarrow> inode \<Rightarrow> u32 \<Rightarrow> unit result" where
  "ext2_check_acl get_acl k inode msk =
     (case get_acl of
        Inl e \<Rightarrow> Inl e
      | Inr (Some acl) \<Rightarrow>
          posix_acl_permission (current_fsuid k) (in_group_p k) (i_uid inode) (i_gid inode) acl msk
      | Inr None \<Rightarrow> Inl EAGAIN)"

definition ext2_permission ::
  "security_operations \<Rightarrow> posix_acl option result \<Rightarrow> kernel \<Rightarrow> inode \<Rightarrow> u32 \<Rightarrow> unit result \<times> kernel" where
  "ext2_permission ops get_acl k inode msk =
     generic_permission ops k inode msk (Some (ext2_check_acl get_acl))"

section \<open>Removing and creating names\<close>

record dentry =
  d_inode :: "inode option"
  d_parent_ino :: nat
  d_is_root :: bool
  d_nfs_renamed :: bool

definition check_sticky :: "security_operations \<Rightarrow> kernel \<Rightarrow> inode \<Rightarrow> inode \<Rightarrow> bool \<times> kernel" where
  "check_sticky ops k dir inode =
     (if i_mode dir AND S_ISVTX = 0 then (False, k)
      else if i_uid inode = current_fsuid k then (False, k)
      else if i_uid dir = current_fsuid k then (False, k)
      else let (owner_cap, k1) = capable ops k CAP_FOWNER in (\<not> owner_cap, k1))"

definition may_delete ::
  "security_operations \<Rightarrow> permission_op option \<Rightarrow> kernel \<Rightarrow> inode \<Rightarrow> dentry \<Rightarrow> bool \<Rightarrow> unit result \<times> kernel" where
  "may_delete ops permission k dir victim isdir =
     (case d_inode victim of
        None \<Rightarrow> (Inl ENOENT, k)
      | Some inode \<Rightarrow>
        let k0 = (if d_parent_ino victim \<noteq> i_ino dir then k\<lparr>bug := True\<rparr> else k)
        in case inode_permission ops permission k0 dir (MAY_WRITE OR MAY_EXEC) of
             (Inl e, k1) \<Rightarrow> (Inl e, k1)
           | (Inr _, k1) \<Rightarrow>
             if IS_APPEND dir then (Inl EPERM, k1)
             else
               let (sticky, k2) = check_sticky ops k1 dir inode
               in if sticky \<or> IS_APPEND inode \<or> IS_IMMUTABLE inode \<or> IS_SWAPFILE inode then (Inl EPERM, k2)
                  else if isdir \<and> \<not> S_ISDIR (i_mode inode) then (Inl ENOTDIR, k2)
                  else if isdir \<and> d_is_root victim then (Inl EBUSY, k2)
                  else if \<not> isdir \<and> S_ISDIR (i_mode inode) then (Inl EISDIR, k2)
                  else if IS_DEADDIR dir then (Inl ENOENT, k2)
                  else if d_nfs_renamed victim then (Inl EBUSY, k2)
                  else (Inr (), k2))"

definition may_create ::
  "security_operations \<Rightarrow> permission_op option \<Rightarrow> kernel \<Rightarrow> inode \<Rightarrow> dentry \<Rightarrow> unit result \<times> kernel" where
  "may_create ops permission k dir child =
     (if d_inode child \<noteq> None then (Inl EEXIST, k)
      else if IS_DEADDIR dir then (Inl ENOENT, k)
      else inode_permission ops permission k dir (MAY_WRITE OR MAY_EXEC))"

section \<open>Write access\<close>

definition get_write_access :: "inode \<Rightarrow> inode result" where
  "get_write_access inode =
     (if sint (i_writecount inode) < 0 then Inl ETXTBSY
      else Inr (inode\<lparr>i_writecount := i_writecount inode + 1\<rparr>))"

definition deny_write_access :: "inode \<Rightarrow> inode result" where
  "deny_write_access inode =
     (if sint (i_writecount inode) > 0 then Inl ETXTBSY
      else Inr (inode\<lparr>i_writecount := i_writecount inode - 1\<rparr>))"

definition put_write_access :: "inode \<Rightarrow> inode" where
  "put_write_access inode = inode\<lparr>i_writecount := i_writecount inode - 1\<rparr>"

definition allow_write_access :: "inode \<Rightarrow> inode" where
  "allow_write_access inode = inode\<lparr>i_writecount := i_writecount inode + 1\<rparr>"

end
