(* ===== verification/Namei_Spec.thy ===== *)
theory Namei_Spec
  imports Namei
begin

text \<open>
  What the permission checks of \<^verbatim>\<open>fs/namei.c\<close> decide under the default security module:
  with an access ACL they follow the ACL, without one (or with the ACL that the mode stands for)
  they follow the mode, and in both cases two capabilities override them; when a name may be
  removed; and that writers and those who deny writing exclude each other.
\<close>

section \<open>Capabilities that override\<close>

definition effective :: "kernel \<Rightarrow> nat set" where
  "effective k = cap_set (cap_effective (current_cred k))"

definition cap_override :: "kernel \<Rightarrow> inode \<Rightarrow> u32 \<Rightarrow> bool" where
  "cap_override k inode msk \<longleftrightarrow>
     CAP_DAC_OVERRIDE \<in> effective k \<and> (msk AND MAY_EXEC = 0 \<or> execute_ok inode) \<or>
     CAP_DAC_READ_SEARCH \<in> effective k \<and> (msk = MAY_READ \<or> S_ISDIR (i_mode inode) \<and> msk AND MAY_WRITE = 0)"

lemma fs_caps_valid: "cap_valid CAP_DAC_OVERRIDE" "cap_valid CAP_DAC_READ_SEARCH" "cap_valid CAP_FOWNER"
  "cap_valid CAP_CHOWN" "cap_valid CAP_FSETID"
  by (simp_all add: cap_valid_def cap_numbers)

lemmas capable_fs = fs_caps_valid [THEN capable_used]

lemma effective_used [simp]: "effective (used n k) = effective k"
  by (simp add: effective_def)

lemma in_group_used [simp]: "in_group_p (used n k) = in_group_p k"
  by (simp add: in_group_p_def fun_eq_iff)

lemma check_capabilities_result:
  "fst (check_capabilities (capability_ops cfg) k inode msk) =
     (if cap_override k inode msk then Inr () else Inl EACCES)"
  by (simp add: check_capabilities_def and_capable_def capable_fs cap_override_def effective_def)

lemma check_capabilities_cred:
  "cred (current (snd (check_capabilities (capability_ops cfg) k inode msk))) = cred (current k)"
  by (simp add: check_capabilities_def and_capable_def capable_fs)

lemma mode_check_result:
  "fst (mode_check (capability_ops cfg) k inode msk mode) =
     (if msk AND NOT (ucast mode) = 0 \<or> cap_override k inode msk then Inr () else Inl EACCES)"
  by (simp add: mode_check_def check_capabilities_result)

lemma mode_check_cred:
  "cred (current (snd (mode_check (capability_ops cfg) k inode msk mode))) = cred (current k)"
  by (simp add: mode_check_def check_capabilities_cred)

lemma generic_permission_cred:
  "cred (current (snd (generic_permission (capability_ops cfg) k inode msk acl))) = cred (current k)"
  by (auto simp: generic_permission_def Let_def mode_check_cred check_capabilities_cred split: option.split)

section \<open>Requests as sets of bits\<close>

abbreviation rwx_request :: "u32 \<Rightarrow> u32" where
  "rwx_request msk \<equiv> msk AND (MAY_READ OR MAY_WRITE OR MAY_EXEC)"

lemma rwx_flags: "MAY_READ OR MAY_WRITE OR MAY_EXEC = 7"
  by (simp add: may_flags)

lemma seven_mask: "(7 :: u32) = mask 3"
  by (simp add: mask_eq_exp_minus_1)

lemma bit_u32_less: "bit (w :: u32) n \<Longrightarrow> n < 32"
  by (drule bit_imp_le_length) simp

lemma rwx_request_bits: "bit (rwx_request msk) n \<longleftrightarrow> bit msk n \<and> n < 3"
  unfolding rwx_flags seven_mask by (auto simp: bit_simps)

text \<open>The test on the mode and the test on an entry are the same one.\<close>

lemma mode_test: "msk AND NOT (ucast p :: u32) = 0 \<longleftrightarrow> acl_grants p msk"
  by (auto simp: acl_grants_def bit_eq_iff bit_and_iff bit_not_iff bit_simps)

lemma acl_grants_bits: "acl_grants p msk \<longleftrightarrow> (\<forall>n. bit msk n \<longrightarrow> bit p n)"
  by (auto simp: acl_grants_def bit_eq_iff bit_and_iff bit_simps dest: bit_u32_less)

lemma acl_grants_low:
  assumes "\<And>n. n < 3 \<Longrightarrow> bit p n = bit q n"
  shows "acl_grants p (rwx_request msk) = acl_grants q (rwx_request msk)"
  using assms unfolding acl_grants_bits rwx_request_bits by blast

lemma acl_grants_triples:
  "acl_grants (drop_bit 6 (mode AND S_IRWXU)) (rwx_request msk) = acl_grants (drop_bit 6 mode) (rwx_request msk)"
  "acl_grants (drop_bit 3 (mode AND S_IRWXG)) (rwx_request msk) = acl_grants (drop_bit 3 mode) (rwx_request msk)"
  "acl_grants (mode AND S_IRWXO) (rwx_request msk) = acl_grants mode (rwx_request msk)"
  by (rule acl_grants_low; simp add: bit_simps S_IRWX_bits)+

section \<open>The mode and the ACL\<close>

text \<open>A file for the examples, on a file system with ACLs.\<close>

definition example_inode :: "mode_t \<Rightarrow> u32 \<Rightarrow> inode" where
  "example_inode mode u = \<lparr>i_ino = 7, i_mode = mode, i_uid = u, i_gid = u, i_flags = 0, i_writecount = 0,
     i_size = 100, i_atime = \<lparr>tv_sec = 0, tv_nsec = 0\<rparr>, i_mtime = \<lparr>tv_sec = 0, tv_nsec = 0\<rparr>,
     i_ctime = \<lparr>tv_sec = 0, tv_nsec = 0\<rparr>, s_flags = MS_POSIXACL, s_time_gran = 1, s_maxbytes = 2 ^ 31 - 1,
     i_xattr = \<lparr>i_getxattr = None, i_removexattr = None\<rparr>\<rparr>"

lemma minimal_acl_permission:
  assumes "posix_acl_from_mode True mode = Inr acl" "fs \<noteq> iu"
  shows "posix_acl_permission fs grp iu ig acl (rwx_request msk) =
    access_result (acl_grants (if grp ig then drop_bit 3 mode else mode) (rwx_request msk))"
  using assms
  by (auto simp: posix_acl_from_mode_def posix_acl_permission_def acl_check_perm_result
      acl_grants_triples acl_grants_triples [unfolded drop_bit_and] access_result_def)

text \<open>For every security module, caller, inode and request, a file whose access ACL is the one
  its mode stands for is treated like a file without an ACL: the check decides the same and leaves
  the same marks on the caller.\<close>

theorem minimal_acl_transparent:
  assumes "posix_acl_from_mode True (i_mode inode) = Inr acl"
  shows "ext2_permission ops (Inr (Some acl)) k inode msk = generic_permission ops k inode msk None"
  using minimal_acl_permission [OF assms]
  by (auto simp: ext2_permission_def generic_permission_def Let_def ext2_check_acl_def mode_check_def
      mode_test access_result_def)

theorem minimal_acl_transparent_witness:
  "\<exists>acl. posix_acl_from_mode True (i_mode (example_inode 0x81A4 0)) = Inr acl \<and>
     ext2_permission (capability_ops example_config) (Inr (Some acl)) (example_kernel 5 CAP_EMPTY_SET)
       (example_inode 0x81A4 0) MAY_READ =
     generic_permission (capability_ops example_config) (example_kernel 5 CAP_EMPTY_SET)
       (example_inode 0x81A4 0) MAY_READ None"
proof -
  obtain acl where "posix_acl_from_mode True (i_mode (example_inode 0x81A4 0)) = Inr acl"
    by (simp add: posix_acl_from_mode_def)
  then show ?thesis
    using minimal_acl_transparent by blast
qed

text \<open>An ACL is in step with a mode when reading it into the mode changes nothing.\<close>

definition acl_in_step :: "posix_acl \<Rightarrow> mode_t \<Rightarrow> bool" where
  "acl_in_step acl mode \<longleftrightarrow> posix_acl_valid acl = Inr () \<and>
     (\<exists>not_equiv. posix_acl_equiv_mode acl mode = Inr (not_equiv, mode))"

lemma in_step_owner:
  assumes "acl_in_step acl mode" "fs = iu"
  shows "acl_access fs grp iu ig acl (rwx_request msk) = acl_grants (drop_bit 6 mode) (rwx_request msk)"
proof -
  obtain uo us go gs m ot where acl: "acl = uo # us @ go # gs @ m @ [ot]" and sh: "acl_shape uo us go gs m ot"
    using assms(1) unfolding acl_in_step_def valid_shape by blast
  have eq: "mode = (mode AND NOT S_IRWXUGO) OR mode_of (e_perm uo) (e_perm (class_entry go m)) (e_perm ot)"
    using assms(1) acl_equiv_shape [OF sh, of mode] unfolding acl_in_step_def acl by auto
  have "bit mode (n + 6) \<longleftrightarrow> bit (e_perm uo) n" if "n < 3" for n
    using that arg_cong [OF eq, of "\<lambda>w. bit w (n + 6)"]
    by (simp add: bit_simps S_IRWX_bits mode_of_bits)
  then have "acl_grants (drop_bit 6 mode) (rwx_request msk) = acl_grants (e_perm uo) (rwx_request msk)"
    by (intro acl_grants_low) (simp add: bit_simps add.commute)
  then show ?thesis
    using assms(2) acl_access_shape [OF sh] acl by simp
qed

lemma in_step_permission:
  assumes "acl_in_step acl (i_mode inode)" "IS_POSIXACL inode" "i_mode inode AND S_IRWXG \<noteq> 0"
  shows "fst (ext2_permission (capability_ops cfg) (Inr (Some acl)) k inode msk) =
    (if acl_access (current_fsuid k) (in_group_p k) (i_uid inode) (i_gid inode) acl (rwx_request msk) \<or>
        cap_override k inode (rwx_request msk)
     then Inr () else Inl EACCES)"
proof -
  have "posix_acl_permission (current_fsuid k) (in_group_p k) (i_uid inode) (i_gid inode) acl (rwx_request msk) =
      access_result (acl_access (current_fsuid k) (in_group_p k) (i_uid inode) (i_gid inode) acl (rwx_request msk))"
    using assms(1) valid_shape acl_permission_shape by (metis acl_in_step_def)
  then show ?thesis
    using assms(2,3) in_step_owner [OF assms(1)]
    by (simp add: ext2_permission_def generic_permission_def Let_def ext2_check_acl_def mode_check_result
        mode_test access_result_def check_capabilities_result)
qed

text \<open>C13: On a file system with ACLs, for a file whose valid access ACL is in step with its mode and
  whose group class has some permission, a request is granted exactly when the ACL grants it or one
  of the two overriding capabilities covers it; otherwise the error is EACCES.\<close>

theorem permission_follows_acl:
  assumes "acl_in_step acl (i_mode inode)" "IS_POSIXACL inode" "i_mode inode AND S_IRWXG \<noteq> 0"
  shows "fst (ext2_permission (capability_ops cfg) (Inr (Some acl)) k inode msk) =
    (if acl_access (current_fsuid k) (in_group_p k) (i_uid inode) (i_gid inode) acl (rwx_request msk) \<or>
        cap_override k inode (rwx_request msk)
     then Inr () else Inl EACCES)"
  using assms by (rule in_step_permission)

theorem permission_follows_acl_witness:
  "fst (ext2_permission (capability_ops example_config) (Inr (Some example_acl)) (example_kernel 1000 CAP_EMPTY_SET)
     (example_inode 0x81EC 0) MAY_READ) = Inr () \<and>
   fst (ext2_permission (capability_ops example_config) (Inr (Some example_acl)) (example_kernel 1000 CAP_EMPTY_SET)
     (example_inode 0x81EC 0) MAY_WRITE) = Inl EACCES"
proof -
  have "posix_acl_equiv_mode example_acl 0x81EC = Inr (True, 0x81EC)"
    by code_simp
  then have step: "acl_in_step example_acl (i_mode (example_inode 0x81EC 0))"
    using example_acl_valid by (auto simp: acl_in_step_def example_inode_def)
  have "IS_POSIXACL (example_inode 0x81EC 0)" "i_mode (example_inode 0x81EC 0) AND S_IRWXG \<noteq> 0"
    by code_simp+
  note spec = permission_follows_acl [OF step this, of example_config "example_kernel 1000 CAP_EMPTY_SET"]
  have "acl_access 1000 (in_group_p (example_kernel 1000 CAP_EMPTY_SET)) 0 0 example_acl (rwx_request MAY_READ)"
    "\<not> acl_access 1000 (in_group_p (example_kernel 1000 CAP_EMPTY_SET)) 0 0 example_acl (rwx_request MAY_WRITE)"
    by code_simp+
  moreover have "\<not> cap_override (example_kernel 1000 CAP_EMPTY_SET) i msk" for i msk
    by (simp add: cap_override_def effective_def example_frame cap_set_empty)
  ultimately show ?thesis
    by (simp add: spec example_frame) (simp add: example_inode_def)
qed

text \<open>
  When the group class of the mode is empty, the check does not look at the ACL at all.  A user
  whom the ACL names, and whom the empty mask therefore denies everything, then gets what
  everybody else gets.
\<close>

definition empty_class_acl :: posix_acl where
  "empty_class_acl =
     [\<lparr>e_tag = ACL_USER_OBJ, e_perm = 6, e_id = ACL_UNDEFINED_ID\<rparr>,
      \<lparr>e_tag = ACL_USER, e_perm = 6, e_id = 1000\<rparr>,
      \<lparr>e_tag = ACL_GROUP_OBJ, e_perm = 0, e_id = ACL_UNDEFINED_ID\<rparr>,
      \<lparr>e_tag = ACL_MASK, e_perm = 0, e_id = ACL_UNDEFINED_ID\<rparr>,
      \<lparr>e_tag = ACL_OTHER, e_perm = 4, e_id = ACL_UNDEFINED_ID\<rparr>]"

theorem empty_class_bypasses_acl:
  "acl_in_step empty_class_acl (i_mode (example_inode 0x8184 0)) \<and> IS_POSIXACL (example_inode 0x8184 0) \<and>
   posix_acl_permission 1000 (in_group_p (example_kernel 1000 CAP_EMPTY_SET)) 0 0 empty_class_acl MAY_READ = Inl EACCES \<and>
   ext2_permission (capability_ops example_config) (Inr (Some empty_class_acl)) (example_kernel 1000 CAP_EMPTY_SET)
     (example_inode 0x8184 0) MAY_READ = (Inr (), example_kernel 1000 CAP_EMPTY_SET)"
proof -
  have "posix_acl_valid empty_class_acl = Inr ()"
      "posix_acl_equiv_mode empty_class_acl 0x8184 = Inr (True, 0x8184)"
    by code_simp+
  moreover have "IS_POSIXACL (example_inode 0x8184 0)"
    by code_simp
  moreover have "posix_acl_permission 1000 (in_group_p (example_kernel 1000 CAP_EMPTY_SET)) 0 0 empty_class_acl MAY_READ = Inl EACCES"
    by code_simp
  moreover have "\<not> in_group_p (example_kernel 1000 CAP_EMPTY_SET) 0"
    by code_simp
  ultimately show ?thesis
    by (auto simp: acl_in_step_def example_inode_def ext2_permission_def generic_permission_def Let_def
        example_frame mode_check_def may_flags S_IRWXG_def)
qed

section \<open>Removing a name\<close>

lemma inode_permission_granted:
  assumes "inode_permission ops permission k inode msk = (Inr (), k')" "msk AND MAY_WRITE \<noteq> 0"
  shows "\<not> IS_IMMUTABLE inode" "S_ISDIR (i_mode inode) \<Longrightarrow> \<not> IS_RDONLY inode"
    "(case permission of Some f \<Rightarrow> f k inode msk | None \<Rightarrow> generic_permission ops k inode msk None) = (Inr (), k')"
  using assms
  by (auto simp: inode_permission_def devcgroup_inode_permission_def security_inode_permission_def Let_def
      split: if_splits prod.splits sum.splits option.splits)

text \<open>The check of the file system is the generic one or that of ext2.\<close>

definition stock_permission :: "kconfig \<Rightarrow> permission_op option \<Rightarrow> bool" where
  "stock_permission cfg permission \<longleftrightarrow>
     permission = None \<or> (\<exists>acl. permission = Some (ext2_permission (capability_ops cfg) acl))"

lemma inode_permission_cred:
  assumes "stock_permission cfg permission"
  shows "cred (current (snd (inode_permission (capability_ops cfg) permission k inode msk))) = cred (current k)"
proof -
  let ?check = "case permission of Some f \<Rightarrow> f k inode msk
    | None \<Rightarrow> generic_permission (capability_ops cfg) k inode msk None"
  have "cred (current (snd ?check)) = cred (current k)"
    using assms by (auto simp: stock_permission_def ext2_permission_def generic_permission_cred)
  then show ?thesis
    by (cases ?check) (auto simp: inode_permission_def devcgroup_inode_permission_def Let_def split: sum.split)
qed

lemma check_sticky_false:
  "fst (check_sticky (capability_ops cfg) k dir inode) \<longleftrightarrow>
     i_mode dir AND S_ISVTX \<noteq> 0 \<and> current_fsuid k \<noteq> i_uid inode \<and> current_fsuid k \<noteq> i_uid dir \<and>
     CAP_FOWNER \<notin> effective k"
  by (auto simp: check_sticky_def capable_fs effective_def)

text \<open>Whoever may remove a name has write and search permission on the directory, which is not
  immutable, append-only or on a read-only file system; the victim exists, is neither
  append-only, immutable nor a swap file, and is a directory exactly when one was to be removed;
  and in a sticky directory the caller owns the victim or the directory or has CAP_FOWNER.\<close>

theorem may_delete_safe:
  assumes "may_delete (capability_ops cfg) permission k dir victim isdir = (Inr (), k')"
    and "stock_permission cfg permission" "S_ISDIR (i_mode dir)" "d_parent_ino victim = i_ino dir"
  shows "\<exists>inode. d_inode victim = Some inode \<and>
    fst (inode_permission (capability_ops cfg) permission k dir (MAY_WRITE OR MAY_EXEC)) = Inr () \<and>
    \<not> IS_IMMUTABLE dir \<and> \<not> IS_APPEND dir \<and> \<not> IS_RDONLY dir \<and>
    \<not> IS_APPEND inode \<and> \<not> IS_IMMUTABLE inode \<and> \<not> IS_SWAPFILE inode \<and>
    (isdir \<longleftrightarrow> S_ISDIR (i_mode inode)) \<and>
    (i_mode dir AND S_ISVTX \<noteq> 0 \<longrightarrow>
       current_fsuid k \<in> {i_uid inode, i_uid dir} \<or> CAP_FOWNER \<in> effective k)"
proof -
  obtain inode where inode: "d_inode victim = Some inode"
    using assms(1) by (auto simp: may_delete_def split: option.splits)
  obtain r k1 where perm: "inode_permission (capability_ops cfg) permission k dir (MAY_WRITE OR MAY_EXEC) = (r, k1)"
    by fastforce
  obtain st k2 where sticky: "check_sticky (capability_ops cfg) k1 dir inode = (st, k2)"
    by fastforce
  note run = assms(1) [unfolded may_delete_def inode option.case Let_def assms(4), simplified, unfolded perm]
  have r: "r = Inr ()"
    using run by (cases r) auto
  have facts: "\<not> st" "\<not> IS_APPEND dir" "\<not> IS_APPEND inode" "\<not> IS_IMMUTABLE inode" "\<not> IS_SWAPFILE inode"
      "isdir \<longleftrightarrow> S_ISDIR (i_mode inode)"
    using run r sticky by (auto split: if_splits)
  have "cred (current k1) = cred (current k)"
    using inode_permission_cred [OF assms(2), of k dir "MAY_WRITE OR MAY_EXEC"] perm by simp
  then have "effective k1 = effective k" "current_fsuid k1 = current_fsuid k"
    by (simp_all add: effective_def)
  moreover have "(MAY_WRITE OR MAY_EXEC) AND MAY_WRITE \<noteq> 0"
    by code_simp
  ultimately show ?thesis
    using inode facts r perm check_sticky_false [of cfg k1 dir inode] sticky
      inode_permission_granted [OF perm [unfolded r]] assms(3) by auto
qed

lemma example_flags:
  "\<not> IS_RDONLY (example_inode m u)" "\<not> IS_IMMUTABLE (example_inode m u)" "\<not> IS_APPEND (example_inode m u)"
  "\<not> IS_SWAPFILE (example_inode m u)" "\<not> IS_DEADDIR (example_inode m u)" "i_mode (example_inode m u) = m"
  "i_uid (example_inode m u) = u" "i_gid (example_inode m u) = u" "i_ino (example_inode m u) = 7"
  by (simp_all add: example_inode_def IS_RDONLY_def IS_IMMUTABLE_def IS_APPEND_def IS_SWAPFILE_def
      IS_DEADDIR_def MS_POSIXACL_def MS_RDONLY_def)

lemma example_dir_permission:
  "inode_permission (capability_ops example_config) None (example_kernel 1000 CAP_EMPTY_SET)
     (example_inode 0x43FF 0) (MAY_WRITE OR MAY_EXEC) = (Inr (), example_kernel 1000 CAP_EMPTY_SET)"
proof -
  have "\<not> in_group_p (example_kernel 1000 CAP_EMPTY_SET) 0"
    by code_simp
  then show ?thesis
    by (simp add: inode_permission_def generic_permission_def Let_def mode_check_def example_flags
        example_frame may_flags devcgroup_inode_permission_def security_inode_permission_def)
qed

theorem may_delete_safe_witness:
  "\<exists>k'. may_delete (capability_ops example_config) None (example_kernel 1000 CAP_EMPTY_SET)
     (example_inode 0x43FF 0) \<lparr>d_inode = Some (example_inode 0x81A4 1000), d_parent_ino = 7,
       d_is_root = False, d_nfs_renamed = False\<rparr> False = (Inr (), k') \<and>
     \<not> S_ISDIR 0x81A4 \<and> current_fsuid (example_kernel 1000 CAP_EMPTY_SET) \<in> {1000, 0}"
proof -
  let ?victim = "\<lparr>d_inode = Some (example_inode 0x81A4 1000), d_parent_ino = 7,
     d_is_root = False, d_nfs_renamed = False\<rparr>"
  have run: "may_delete (capability_ops example_config) None (example_kernel 1000 CAP_EMPTY_SET)
      (example_inode 0x43FF 0) ?victim False = (Inr (), example_kernel 1000 CAP_EMPTY_SET)"
    by (simp add: may_delete_def example_dir_permission example_flags check_sticky_def example_frame
        S_ISDIR_def S_IFMT_def S_IFDIR_def)
  have "stock_permission example_config None" "S_ISDIR (i_mode (example_inode 0x43FF 0))"
      "d_parent_ino ?victim = i_ino (example_inode 0x43FF 0)"
    by (simp_all add: example_flags S_ISDIR_def S_IFMT_def S_IFDIR_def stock_permission_def)
  note safe = may_delete_safe [OF run this]
  have "i_mode (example_inode 0x43FF 0) AND S_ISVTX \<noteq> 0"
      "CAP_FOWNER \<notin> effective (example_kernel 1000 CAP_EMPTY_SET)"
    by (simp_all add: example_flags S_ISVTX_def effective_def example_frame cap_set_empty)
  with safe run show ?thesis
    by (auto simp: example_flags)
qed

section \<open>Writers and their exclusion\<close>

text \<open>
  The callers of the four operations: a writer gives back only access it got, and the counter of
  an inode starts at zero.  The state is the inode with the numbers of those who hold write access
  and of those who deny it.
\<close>

datatype access_call = Get | Put | Deny | Allow

record access_state =
  a_inode :: inode
  writers :: nat
  deniers :: nat

inductive access_step :: "access_state \<Rightarrow> access_call \<Rightarrow> access_state \<Rightarrow> bool" where
  get: "get_write_access (a_inode s) = Inr i \<Longrightarrow>
    access_step s Get (s\<lparr>a_inode := i, writers := writers s + 1\<rparr>)"
| get_busy: "get_write_access (a_inode s) = Inl e \<Longrightarrow> access_step s Get s"
| put: "writers s > 0 \<Longrightarrow>
    access_step s Put (s\<lparr>a_inode := put_write_access (a_inode s), writers := writers s - 1\<rparr>)"
| deny: "deny_write_access (a_inode s) = Inr i \<Longrightarrow>
    access_step s Deny (s\<lparr>a_inode := i, deniers := deniers s + 1\<rparr>)"
| deny_busy: "deny_write_access (a_inode s) = Inl e \<Longrightarrow> access_step s Deny s"
| allow: "deniers s > 0 \<Longrightarrow>
    access_step s Allow (s\<lparr>a_inode := allow_write_access (a_inode s), deniers := deniers s - 1\<rparr>)"

inductive access_run :: "access_state \<Rightarrow> access_call list \<Rightarrow> access_state \<Rightarrow> bool" where
  nil: "access_run s [] s"
| snoc: "access_run s cs s' \<Longrightarrow> access_step s' c s'' \<Longrightarrow> access_run s (cs @ [c]) s''"

inductive_cases access_stepE: "access_step s c s'"

definition access_ok :: "nat \<Rightarrow> access_state \<Rightarrow> bool" where
  "access_ok n s \<longleftrightarrow>
     sint (i_writecount (a_inode s)) = int (writers s) - int (deniers s) \<and>
     (writers s = 0 \<or> deniers s = 0) \<and> writers s + deniers s \<le> n"

lemma sint_u32_succ:
  fixes w :: u32
  shows "sint w < 2 ^ 31 - 1 \<Longrightarrow> sint (w + 1) = sint w + 1"
    and "- (2 ^ 31) < sint w \<Longrightarrow> sint (w - 1) = sint w - 1"
proof -
  have "- (2 ^ 31) \<le> sint w" "sint w < 2 ^ 31"
    using sint_greater_eq [of w] sint_less [of w] by simp_all
  then show "sint w < 2 ^ 31 - 1 \<Longrightarrow> sint (w + 1) = sint w + 1"
    "- (2 ^ 31) < sint w \<Longrightarrow> sint (w - 1) = sint w - 1"
    by (simp_all add: sint_word_ariths signed_take_bit_int_eq_self)
qed

lemma access_step_ok:
  assumes "access_step s c s'" "access_ok n s" "n < 2 ^ 31 - 1"
  shows "access_ok (Suc n) s'"
  using assms
proof (cases rule: access_step.cases)
  case (get i)
  then show ?thesis
    using assms sint_u32_succ(1) [of "i_writecount (a_inode s)"]
    by (auto simp: access_ok_def get_write_access_def split: if_splits)
next
  case (put)
  then show ?thesis
    using assms sint_u32_succ(2) [of "i_writecount (a_inode s)"]
    by (auto simp: access_ok_def put_write_access_def)
next
  case (deny i)
  then show ?thesis
    using assms sint_u32_succ(2) [of "i_writecount (a_inode s)"]
    by (auto simp: access_ok_def deny_write_access_def split: if_splits)
next
  case (allow)
  then show ?thesis
    using assms sint_u32_succ(1) [of "i_writecount (a_inode s)"]
    by (auto simp: access_ok_def allow_write_access_def)
qed (auto simp: access_ok_def)

lemma access_run_ok:
  assumes "access_run s cs s'" "access_ok 0 s" "length cs < 2 ^ 31"
  shows "access_ok (length cs) s'"
  using assms
proof (induction rule: access_run.induct)
  case (nil s)
  then show ?case by simp
next
  case (snoc s cs s' c s'')
  then show ?case
    using access_step_ok [of s' c s'' "length cs"] by simp
qed

text \<open>C18: As long as fewer than 2^31 calls have been made on an inode, in whatever order and with
  whatever failures, nobody holds write access while somebody denies it, and a call is refused
  exactly when the other side is there: the sign of one counter is a lock with two modes.\<close>

theorem write_access_exclusive:
  assumes "access_run \<lparr>a_inode = i, writers = 0, deniers = 0\<rparr> calls s" "i_writecount i = 0" "length calls < 2 ^ 31"
  shows "(writers s = 0 \<or> deniers s = 0) \<and>
    ((\<exists>e. get_write_access (a_inode s) = Inl e) \<longleftrightarrow> deniers s > 0) \<and>
    ((\<exists>e. deny_write_access (a_inode s) = Inl e) \<longleftrightarrow> writers s > 0)"
proof -
  have "access_ok 0 \<lparr>a_inode = i, writers = 0, deniers = 0\<rparr>"
    using assms(2) by (simp add: access_ok_def)
  with access_run_ok [OF assms(1) _ assms(3)] have "access_ok (length calls) s" .
  then show ?thesis
    by (auto simp: access_ok_def get_write_access_def deny_write_access_def)
qed

theorem write_access_exclusive_witness:
  "\<exists>s. access_run \<lparr>a_inode = example_inode 0x81A4 0, writers = 0, deniers = 0\<rparr> [Get, Deny] s \<and>
     writers s = 1 \<and> (\<exists>e. deny_write_access (a_inode s) = Inl e)"
proof -
  let ?s = "\<lparr>a_inode = (example_inode 0x81A4 0)\<lparr>i_writecount := 1\<rparr>, writers = 1, deniers = 0\<rparr>"
  have get: "access_step \<lparr>a_inode = example_inode 0x81A4 0, writers = 0, deniers = 0\<rparr> Get ?s"
    using access_step.get [of "\<lparr>a_inode = example_inode 0x81A4 0, writers = 0, deniers = 0\<rparr>"]
    by (simp add: get_write_access_def example_inode_def)
  have deny: "access_step ?s Deny ?s"
    by (rule access_step.deny_busy) (simp add: deny_write_access_def example_inode_def)
  have run: "access_run \<lparr>a_inode = example_inode 0x81A4 0, writers = 0, deniers = 0\<rparr> [Get, Deny] ?s"
    using access_run.snoc [OF access_run.snoc [OF access_run.nil get] deny] by simp
  moreover have "i_writecount (example_inode 0x81A4 0) = 0" "length [Get, Deny] < 2 ^ 31"
    by (simp_all add: example_inode_def)
  note write_access_exclusive [OF run this]
  ultimately show ?thesis
    by fastforce
qed

end
