(* ===== verification/Attr.thy ===== *)
theory Attr
  imports Namei_Spec
begin

text \<open>
  Changing the attributes of an inode: \<^verbatim>\<open>fs/attr.c\<close>, with \<^verbatim>\<open>vmtruncate\<close> of
  \<^verbatim>\<open>mm/memory.c\<close> and \<^verbatim>\<open>timespec_trunc\<close> of \<^verbatim>\<open>kernel/time.c\<close>.  An operation
  that changes the inode returns it with the outcome; the \<^verbatim>\<open>iattr\<close> that
  \<^verbatim>\<open>inode_change_ok\<close> edits is part of its result.  Quotas and the security hook on
  attributes are compiled out on the board.  The page cache is not modelled.
\<close>

section \<open>Requests\<close>

definition ATTR_MODE :: u32 where "ATTR_MODE = 0x1"
definition ATTR_UID :: u32 where "ATTR_UID = 0x2"
definition ATTR_GID :: u32 where "ATTR_GID = 0x4"
definition ATTR_SIZE :: u32 where "ATTR_SIZE = 0x8"
definition ATTR_ATIME :: u32 where "ATTR_ATIME = 0x10"
definition ATTR_MTIME :: u32 where "ATTR_MTIME = 0x20"
definition ATTR_CTIME :: u32 where "ATTR_CTIME = 0x40"
definition ATTR_ATIME_SET :: u32 where "ATTR_ATIME_SET = 0x80"
definition ATTR_MTIME_SET :: u32 where "ATTR_MTIME_SET = 0x100"
definition ATTR_FORCE :: u32 where "ATTR_FORCE = 0x200"
definition ATTR_KILL_SUID :: u32 where "ATTR_KILL_SUID = 0x800"
definition ATTR_KILL_SGID :: u32 where "ATTR_KILL_SGID = 0x1000"
definition ATTR_FILE :: u32 where "ATTR_FILE = 0x2000"
definition ATTR_KILL_PRIV :: u32 where "ATTR_KILL_PRIV = 0x4000"
definition ATTR_OPEN :: u32 where "ATTR_OPEN = 0x8000"
definition ATTR_TIMES_SET :: u32 where "ATTR_TIMES_SET = 0x10000"

lemmas attr_flags = ATTR_MODE_def ATTR_UID_def ATTR_GID_def ATTR_SIZE_def ATTR_ATIME_def ATTR_MTIME_def
  ATTR_CTIME_def ATTR_ATIME_SET_def ATTR_MTIME_SET_def ATTR_FORCE_def ATTR_KILL_SUID_def
  ATTR_KILL_SGID_def ATTR_FILE_def ATTR_KILL_PRIV_def ATTR_OPEN_def ATTR_TIMES_SET_def

record iattr =
  ia_valid :: u32
  ia_mode :: mode_t
  ia_uid :: uid_t
  ia_gid :: gid_t
  ia_size :: int
  ia_atime :: timespec
  ia_mtime :: timespec
  ia_ctime :: timespec

text \<open>The test \<^verbatim>\<open>ia_valid & flag\<close>.\<close>

definition asks :: "iattr \<Rightarrow> u32 \<Rightarrow> bool" where
  "asks attr flag \<longleftrightarrow> ia_valid attr AND flag \<noteq> 0"

text \<open>
  What the operations read of their surroundings: the time, the caller's limit on the size of
  files (\<^verbatim>\<open>RLIM_INFINITY\<close> is all ones) and the file system's method for truncation.
\<close>

record attr_env =
  kernel_time :: timespec
  rlim_fsize :: u32
  iop_truncate :: "(inode \<Rightarrow> inode) option"

section \<open>The operations\<close>

definition timespec_trunc :: "timespec \<Rightarrow> u32 \<Rightarrow> timespec" where
  "timespec_trunc t gran =
     (if gran \<le> 5000 * 1000 then t
      else if gran = 1000000000 then t\<lparr>tv_nsec := 0\<rparr>
      else t\<lparr>tv_nsec := tv_nsec t - tv_nsec t mod gran\<rparr>)"

definition current_fs_time :: "attr_env \<Rightarrow> inode \<Rightarrow> timespec" where
  "current_fs_time env inode = timespec_trunc (kernel_time env) (s_time_gran inode)"

text \<open>\<^verbatim>\<open>cond && !capable(n)\<close>.\<close>

definition lacks :: "security_operations \<Rightarrow> kernel \<Rightarrow> bool \<Rightarrow> nat \<Rightarrow> bool \<times> kernel" where
  "lacks ops k cond n = (if cond then (let (c, k1) = capable ops k n in (\<not> c, k1)) else (False, k))"

text \<open>The check for a change of the mode, which may take the set-group-id bit from the request.\<close>

definition change_mode_ok ::
  "security_operations \<Rightarrow> kernel \<Rightarrow> inode \<Rightarrow> iattr \<Rightarrow> iattr result \<times> kernel" where
  "change_mode_ok ops k inode attr =
     (let (owner, k1) = is_owner_or_cap ops k inode
      in if \<not> owner then (Inl EPERM, k1)
         else
           let (strip, k2) = lacks ops k1
                 (\<not> in_group_p k1 (if asks attr ATTR_GID then ia_gid attr else i_gid inode)) CAP_FSETID
           in (Inr (if strip then attr\<lparr>ia_mode := ia_mode attr AND NOT S_ISGID\<rparr> else attr), k2))"

definition change_times_ok ::
  "security_operations \<Rightarrow> kernel \<Rightarrow> inode \<Rightarrow> iattr \<Rightarrow> iattr result \<times> kernel" where
  "change_times_ok ops k inode attr =
     (if asks attr (ATTR_MTIME_SET OR ATTR_ATIME_SET OR ATTR_TIMES_SET)
      then let (owner, k1) = is_owner_or_cap ops k inode
           in if \<not> owner then (Inl EPERM, k1) else (Inr attr, k1)
      else (Inr attr, k))"

definition inode_change_ok ::
  "security_operations \<Rightarrow> kernel \<Rightarrow> inode \<Rightarrow> iattr \<Rightarrow> iattr result \<times> kernel" where
  "inode_change_ok ops k inode attr =
     (if asks attr ATTR_FORCE then (Inr attr, k)
      else
        let (no_chown, k1) = lacks ops k
              (asks attr ATTR_UID \<and> (current_fsuid k \<noteq> i_uid inode \<or> ia_uid attr \<noteq> i_uid inode)) CAP_CHOWN
        in if no_chown then (Inl EPERM, k1)
           else
             let (no_chgrp, k2) = lacks ops k1
                   (asks attr ATTR_GID \<and>
                    (current_fsuid k1 \<noteq> i_uid inode \<or>
                     (\<not> in_group_p k1 (ia_gid attr) \<and> ia_gid attr \<noteq> i_gid inode))) CAP_CHOWN
             in if no_chgrp then (Inl EPERM, k2)
                else
                  case (if asks attr ATTR_MODE then change_mode_ok ops k2 inode attr else (Inr attr, k2)) of
                    (Inl e, k3) \<Rightarrow> (Inl e, k3)
                  | (Inr attr1, k3) \<Rightarrow> change_times_ok ops k3 inode attr1)"

text \<open>
  \<^verbatim>\<open>vmtruncate\<close> on the size of the inode.  When the limit of the process is exceeded it
  also sends \<^verbatim>\<open>SIGXFSZ\<close>, which is the second definition.
\<close>

definition over_fsize :: "attr_env \<Rightarrow> inode \<Rightarrow> int \<Rightarrow> bool" where
  "over_fsize env inode offset \<longleftrightarrow>
     i_size inode < offset \<and> rlim_fsize env \<noteq> - 1 \<and> offset > uint (rlim_fsize env)"

definition vmtruncate :: "attr_env \<Rightarrow> inode \<Rightarrow> int \<Rightarrow> inode result" where
  "vmtruncate env inode offset =
     (if over_fsize env inode offset then Inl EFBIG
      else if i_size inode < offset \<and> offset > s_maxbytes inode then Inl EFBIG
      else if \<not> i_size inode < offset \<and> IS_SWAPFILE inode then Inl ETXTBSY
      else
        let inode1 = inode\<lparr>i_size := offset\<rparr>
        in Inr (case iop_truncate env of Some f \<Rightarrow> f inode1 | None \<Rightarrow> inode1))"

definition setattr_ids :: "iattr \<Rightarrow> inode \<Rightarrow> inode" where
  "setattr_ids attr inode =
     (let inode1 = (if asks attr ATTR_UID then inode\<lparr>i_uid := ia_uid attr\<rparr> else inode)
      in if asks attr ATTR_GID then inode1\<lparr>i_gid := ia_gid attr\<rparr> else inode1)"

definition setattr_times :: "iattr \<Rightarrow> inode \<Rightarrow> inode" where
  "setattr_times attr inode =
     (let gran = s_time_gran inode;
          inode1 = (if asks attr ATTR_ATIME then inode\<lparr>i_atime := timespec_trunc (ia_atime attr) gran\<rparr> else inode);
          inode2 = (if asks attr ATTR_MTIME then inode1\<lparr>i_mtime := timespec_trunc (ia_mtime attr) gran\<rparr> else inode1)
      in if asks attr ATTR_CTIME then inode2\<lparr>i_ctime := timespec_trunc (ia_ctime attr) gran\<rparr> else inode2)"

definition inode_setattr ::
  "attr_env \<Rightarrow> security_operations \<Rightarrow> kernel \<Rightarrow> inode \<Rightarrow> iattr \<Rightarrow> unit result \<times> inode \<times> kernel" where
  "inode_setattr env ops k inode attr =
     (case (if asks attr ATTR_SIZE \<and> ia_size attr \<noteq> i_size inode
            then vmtruncate env inode (ia_size attr) else Inr inode) of
        Inl e \<Rightarrow> (Inl e, inode, k)
      | Inr inode1 \<Rightarrow>
        let inode2 = setattr_times attr (setattr_ids attr inode1)
        in if asks attr ATTR_MODE
           then let (strip, k1) = lacks ops k (\<not> in_group_p k (i_gid inode2)) CAP_FSETID
                in (Inr (), inode2\<lparr>i_mode := (if strip then ia_mode attr AND NOT S_ISGID else ia_mode attr)\<rparr>, k1)
           else (Inr (), inode2, k))"

section \<open>\<^verbatim>\<open>notify_change\<close>\<close>

definition notify_times :: "timespec \<Rightarrow> iattr \<Rightarrow> iattr" where
  "notify_times now attr =
     (let attr1 = attr\<lparr>ia_ctime := now\<rparr>;
          attr2 = (if \<not> asks attr ATTR_ATIME_SET then attr1\<lparr>ia_atime := now\<rparr> else attr1)
      in if \<not> asks attr ATTR_MTIME_SET then attr2\<lparr>ia_mtime := now\<rparr> else attr2)"

definition notify_killpriv :: "kconfig \<Rightarrow> inode \<Rightarrow> iattr \<Rightarrow> iattr result" where
  "notify_killpriv cfg inode attr =
     (if asks attr ATTR_KILL_PRIV
      then if cap_inode_need_killpriv cfg (i_xattr inode) > 0
           then case cap_inode_killpriv cfg (i_xattr inode) of
                  Inl e \<Rightarrow> Inl e
                | Inr _ \<Rightarrow> Inr (attr\<lparr>ia_valid := ia_valid attr AND NOT ATTR_KILL_PRIV\<rparr>)
           else Inr (attr\<lparr>ia_valid := ia_valid attr AND NOT ATTR_KILL_PRIV\<rparr>)
      else Inr attr)"

text \<open>The set-id bits that the request asks to clear, turned into a change of the mode.\<close>

definition notify_suid :: "inode \<Rightarrow> iattr \<Rightarrow> iattr" where
  "notify_suid inode attr =
     (if asks attr ATTR_KILL_SUID \<and> i_mode inode AND S_ISUID \<noteq> 0
      then attr\<lparr>ia_valid := ia_valid attr OR ATTR_MODE, ia_mode := i_mode inode AND NOT S_ISUID\<rparr>
      else attr)"

definition notify_sgid :: "inode \<Rightarrow> iattr \<Rightarrow> iattr" where
  "notify_sgid inode attr =
     (if asks attr ATTR_KILL_SGID \<and> i_mode inode AND (S_ISGID OR S_IXGRP) = S_ISGID OR S_IXGRP
      then let attr1 = (if \<not> asks attr ATTR_MODE
                        then attr\<lparr>ia_valid := ia_valid attr OR ATTR_MODE, ia_mode := i_mode inode\<rparr> else attr)
           in attr1\<lparr>ia_mode := ia_mode attr1 AND NOT S_ISGID\<rparr>
      else attr)"

definition security_inode_setattr :: "iattr \<Rightarrow> unit result" where
  "security_inode_setattr attr = Inr ()"

definition vfs_dq_transfer :: "inode \<Rightarrow> iattr \<Rightarrow> bool" where
  "vfs_dq_transfer inode attr = False"

text \<open>The part after the hook, for a file system without a \<^verbatim>\<open>setattr\<close> of its own.\<close>

definition default_setattr ::
  "attr_env \<Rightarrow> security_operations \<Rightarrow> kernel \<Rightarrow> inode \<Rightarrow> iattr \<Rightarrow> unit result \<times> inode \<times> kernel" where
  "default_setattr env ops k inode attr =
     (case inode_change_ok ops k inode attr of
        (Inl e, k1) \<Rightarrow> (Inl e, inode, k1)
      | (Inr attr1, k1) \<Rightarrow>
        if (asks attr1 ATTR_UID \<and> ia_uid attr1 \<noteq> i_uid inode \<or> asks attr1 ATTR_GID \<and> ia_gid attr1 \<noteq> i_gid inode)
           \<and> vfs_dq_transfer inode attr1
        then (Inl EDQUOT, inode, k1)
        else inode_setattr env ops k1 inode attr1)"

type_synonym setattr_op = "kernel \<Rightarrow> inode \<Rightarrow> iattr \<Rightarrow> unit result \<times> inode \<times> kernel"

definition notify_change ::
  "attr_env \<Rightarrow> security_operations \<Rightarrow> kconfig \<Rightarrow> setattr_op option \<Rightarrow> kernel \<Rightarrow> inode \<Rightarrow> iattr
     \<Rightarrow> unit result \<times> inode \<times> kernel" where
  "notify_change env ops cfg setattr k inode attr0 =
     (if asks attr0 (ATTR_MODE OR ATTR_UID OR ATTR_GID OR ATTR_TIMES_SET) \<and> (IS_IMMUTABLE inode \<or> IS_APPEND inode)
      then (Inl EPERM, inode, k)
      else
        case notify_killpriv cfg inode (notify_times (current_fs_time env inode) attr0) of
          Inl e \<Rightarrow> (Inl e, inode, k)
        | Inr attr1 \<Rightarrow>
          let k1 = (if asks attr1 (ATTR_KILL_SUID OR ATTR_KILL_SGID) \<and> asks attr1 ATTR_MODE
                    then k\<lparr>bug := True\<rparr> else k);
              attr2 = notify_sgid inode (notify_suid inode attr1)
          in if ia_valid attr2 AND NOT (ATTR_KILL_SUID OR ATTR_KILL_SGID) = 0 then (Inr (), inode, k1)
             else case security_inode_setattr attr2 of
               Inl e \<Rightarrow> (Inl e, inode, k1)
             | Inr _ \<Rightarrow>
               (case setattr of
                  Some f \<Rightarrow> f k1 inode attr2
                | None \<Rightarrow> default_setattr env ops k1 inode attr2))"

end
