(* ===== verification/Open.thy ===== *)
theory Open
  imports Attr
begin

text \<open>
  The system calls of \<^verbatim>\<open>fs/open.c\<close> that check and change attributes (access, truncate,
  chmod, chown), \<^verbatim>\<open>may_open\<close> of \<^verbatim>\<open>fs/namei.c\<close> and the removal of set-id bits on a
  write of \<^verbatim>\<open>mm/filemap.c\<close>.  What the path walk, the mount, the leases and the file locks
  answer are arguments.
\<close>

record path =
  mnt_flags :: u32
  path_inode :: inode

text \<open>Answers of the mount, the leases and the locks on the inode.\<close>

record open_env =
  mnt_want_write :: "unit result"
  break_lease :: "inode \<Rightarrow> u32 \<Rightarrow> unit result"
  locks_verify :: "inode \<Rightarrow> unit result"

definition MNT_NODEV :: u32 where "MNT_NODEV = 0x02"
definition MNT_NOEXEC :: u32 where "MNT_NOEXEC = 0x04"
definition MNT_READONLY :: u32 where "MNT_READONLY = 0x40"
definition FMODE_WRITE :: u32 where "FMODE_WRITE = 2"
definition S_IWOTH :: u32 where "S_IWOTH = 2"
definition O_LARGEFILE :: u32 where "O_LARGEFILE = 0x20000"
definition AT_SYMLINK_NOFOLLOW :: u32 where "AT_SYMLINK_NOFOLLOW = 0x100"
definition MAX_NON_LFS :: int where "MAX_NON_LFS = 2 ^ 31 - 1"
definition O_TRUNC :: u32 where "O_TRUNC = 0x200"
definition O_APPEND :: u32 where "O_APPEND = 0x400"
definition O_NOATIME :: u32 where "O_NOATIME = 0x40000"

definition special_file :: "mode_t \<Rightarrow> bool" where
  "special_file m \<longleftrightarrow> S_ISCHR m \<or> S_ISBLK m \<or> S_ISFIFO m \<or> S_ISSOCK m"

definition mnt_is_readonly :: "path \<Rightarrow> bool" where
  "mnt_is_readonly p \<longleftrightarrow> mnt_flags p AND MNT_READONLY \<noteq> 0 \<or> s_flags (path_inode p) AND MS_RDONLY \<noteq> 0"

text \<open>The fields of a request that its \<^verbatim>\<open>ia_valid\<close> does not announce are never read.\<close>

definition blank_iattr :: "u32 \<Rightarrow> iattr" where
  "blank_iattr valid = \<lparr>ia_valid = valid, ia_mode = 0, ia_uid = 0, ia_gid = 0, ia_size = 0,
     ia_atime = \<lparr>tv_sec = 0, tv_nsec = 0\<rparr>, ia_mtime = \<lparr>tv_sec = 0, tv_nsec = 0\<rparr>, ia_ctime = \<lparr>tv_sec = 0, tv_nsec = 0\<rparr>\<rparr>"

section \<open>Set-id bits and writes\<close>

definition should_remove_suid :: "security_operations \<Rightarrow> kernel \<Rightarrow> inode \<Rightarrow> u32 \<times> kernel" where
  "should_remove_suid ops k inode =
     (let mode = i_mode inode;
          kill1 = (if mode AND S_ISUID \<noteq> 0 then ATTR_KILL_SUID else 0);
          kill = (if mode AND S_ISGID \<noteq> 0 \<and> mode AND S_IXGRP \<noteq> 0 then kill1 OR ATTR_KILL_SGID else kill1);
          (no_cap, k1) = lacks ops k (kill \<noteq> 0) CAP_FSETID
      in if no_cap \<and> S_ISREG mode then (kill, k1) else (0, k1))"

definition remove_suid ::
  "attr_env \<Rightarrow> security_operations \<Rightarrow> kconfig \<Rightarrow> setattr_op option \<Rightarrow> kernel \<Rightarrow> inode \<Rightarrow> u32
     \<Rightarrow> unit result \<times> inode \<times> kernel" where
  "remove_suid env ops cfg setattr k inode kill =
     notify_change env ops cfg setattr k inode (blank_iattr (ATTR_FORCE OR kill))"

definition file_remove_suid ::
  "attr_env \<Rightarrow> security_operations \<Rightarrow> kconfig \<Rightarrow> setattr_op option \<Rightarrow> kernel \<Rightarrow> inode
     \<Rightarrow> unit result \<times> inode \<times> kernel" where
  "file_remove_suid env ops cfg setattr k inode =
     (let (killsuid, k1) = should_remove_suid ops k inode
      in case (if cap_inode_need_killpriv cfg (i_xattr inode) \<noteq> 0
               then cap_inode_killpriv cfg (i_xattr inode) else Inr ()) of
           Inl e \<Rightarrow> (Inl e, inode, k1)
         | Inr _ \<Rightarrow>
             if killsuid \<noteq> 0 then remove_suid env ops cfg setattr k1 inode killsuid else (Inr (), inode, k1))"

section \<open>Truncation\<close>

definition do_truncate ::
  "attr_env \<Rightarrow> security_operations \<Rightarrow> kconfig \<Rightarrow> setattr_op option \<Rightarrow> kernel \<Rightarrow> inode \<Rightarrow> int \<Rightarrow> u32 \<Rightarrow> bool
     \<Rightarrow> unit result \<times> inode \<times> kernel" where
  "do_truncate env ops cfg setattr k inode len time_attrs has_filp =
     (if len < 0 then (Inl EINVAL, inode, k)
      else
        let valid = ATTR_SIZE OR time_attrs OR (if has_filp then ATTR_FILE else 0);
            (kill, k1) = should_remove_suid ops k inode
        in notify_change env ops cfg setattr k1 inode ((blank_iattr (valid OR kill))\<lparr>ia_size := len\<rparr>))"

text \<open>\<^verbatim>\<open>truncate\<close>; \<open>user_path\<close> is what the walk found.\<close>

definition do_sys_truncate ::
  "attr_env \<Rightarrow> open_env \<Rightarrow> security_operations \<Rightarrow> kconfig \<Rightarrow> permission_op option \<Rightarrow> setattr_op option
     \<Rightarrow> kernel \<Rightarrow> inode result \<Rightarrow> int \<Rightarrow> unit result \<times> inode option \<times> kernel" where
  "do_sys_truncate env oenv ops cfg permission setattr k user_path len =
     (if len < 0 then (Inl EINVAL, None, k)
      else case user_path of
        Inl e \<Rightarrow> (Inl e, None, k)
      | Inr inode \<Rightarrow>
        if S_ISDIR (i_mode inode) then (Inl EISDIR, Some inode, k)
        else if \<not> S_ISREG (i_mode inode) then (Inl EINVAL, Some inode, k)
        else case mnt_want_write oenv of
          Inl e \<Rightarrow> (Inl e, Some inode, k)
        | Inr _ \<Rightarrow>
          (case inode_permission ops permission k inode MAY_WRITE of
             (Inl e, k1) \<Rightarrow> (Inl e, Some inode, k1)
           | (Inr _, k1) \<Rightarrow>
             if IS_APPEND inode then (Inl EPERM, Some inode, k1)
             else case get_write_access inode of
               Inl e \<Rightarrow> (Inl e, Some inode, k1)
             | Inr inode1 \<Rightarrow>
               (case break_lease oenv inode1 FMODE_WRITE of
                  Inl e \<Rightarrow> (Inl e, Some (put_write_access inode1), k1)
                | Inr _ \<Rightarrow>
                  (case locks_verify oenv inode1 of
                     Inl e \<Rightarrow> (Inl e, Some (put_write_access inode1), k1)
                   | Inr _ \<Rightarrow>
                     (case do_truncate env ops cfg setattr k1 inode1 len 0 False of
                        (r, inode2, k2) \<Rightarrow> (r, Some (put_write_access inode2), k2))))))"

text \<open>\<^verbatim>\<open>ftruncate\<close> on an open file.\<close>

record open_file =
  f_flags :: u32
  f_mode :: u32
  file_inode :: inode

definition do_sys_ftruncate ::
  "attr_env \<Rightarrow> open_env \<Rightarrow> security_operations \<Rightarrow> kconfig \<Rightarrow> setattr_op option \<Rightarrow> kernel
     \<Rightarrow> open_file option \<Rightarrow> int \<Rightarrow> bool \<Rightarrow> unit result \<times> inode option \<times> kernel" where
  "do_sys_ftruncate env oenv ops cfg setattr k fl len small0 =
     (if len < 0 then (Inl EINVAL, None, k)
      else case fl of
        None \<Rightarrow> (Inl EBADF, None, k)
      | Some f \<Rightarrow>
        let small = (if f_flags f AND O_LARGEFILE \<noteq> 0 then False else small0);
            inode = file_inode f
        in if \<not> S_ISREG (i_mode inode) \<or> f_mode f AND FMODE_WRITE = 0 then (Inl EINVAL, Some inode, k)
           else if small \<and> len > MAX_NON_LFS then (Inl EINVAL, Some inode, k)
           else if IS_APPEND inode then (Inl EPERM, Some inode, k)
           else case locks_verify oenv inode of
             Inl e \<Rightarrow> (Inl e, Some inode, k)
           | Inr _ \<Rightarrow>
             (case do_truncate env ops cfg setattr k inode len (ATTR_MTIME OR ATTR_CTIME) True of
                (r, inode1, k1) \<Rightarrow> (r, Some inode1, k1)))"

section \<open>chmod and chown\<close>

definition chmod_common ::
  "attr_env \<Rightarrow> open_env \<Rightarrow> security_operations \<Rightarrow> kconfig \<Rightarrow> setattr_op option \<Rightarrow> kernel \<Rightarrow> inode \<Rightarrow> mode_t
     \<Rightarrow> unit result \<times> inode \<times> kernel" where
  "chmod_common env oenv ops cfg setattr k inode mode0 =
     (case mnt_want_write oenv of
        Inl e \<Rightarrow> (Inl e, inode, k)
      | Inr _ \<Rightarrow>
        let mode = (if mode0 = - 1 then i_mode inode else mode0)
        in notify_change env ops cfg setattr k inode
             ((blank_iattr (ATTR_MODE OR ATTR_CTIME))
                \<lparr>ia_mode := (mode AND S_IALLUGO) OR (i_mode inode AND NOT S_IALLUGO)\<rparr>))"

definition sys_fchmod ::
  "attr_env \<Rightarrow> open_env \<Rightarrow> security_operations \<Rightarrow> kconfig \<Rightarrow> setattr_op option \<Rightarrow> kernel \<Rightarrow> inode option \<Rightarrow> mode_t
     \<Rightarrow> unit result \<times> inode option \<times> kernel" where
  "sys_fchmod env oenv ops cfg setattr k file mode =
     (case file of
        None \<Rightarrow> (Inl EBADF, None, k)
      | Some inode \<Rightarrow>
        (case chmod_common env oenv ops cfg setattr k inode mode of (r, i, k1) \<Rightarrow> (r, Some i, k1)))"

definition sys_fchmodat ::
  "attr_env \<Rightarrow> open_env \<Rightarrow> security_operations \<Rightarrow> kconfig \<Rightarrow> setattr_op option \<Rightarrow> kernel \<Rightarrow> inode result \<Rightarrow> mode_t
     \<Rightarrow> unit result \<times> inode option \<times> kernel" where
  "sys_fchmodat env oenv ops cfg setattr k user_path mode =
     (case user_path of
        Inl e \<Rightarrow> (Inl e, None, k)
      | Inr inode \<Rightarrow>
        (case chmod_common env oenv ops cfg setattr k inode mode of (r, i, k1) \<Rightarrow> (r, Some i, k1)))"

definition chown_common ::
  "attr_env \<Rightarrow> security_operations \<Rightarrow> kconfig \<Rightarrow> setattr_op option \<Rightarrow> kernel \<Rightarrow> inode \<Rightarrow> uid_t \<Rightarrow> gid_t
     \<Rightarrow> unit result \<times> inode \<times> kernel" where
  "chown_common env ops cfg setattr k inode usr grp =
     (let attr0 = blank_iattr ATTR_CTIME;
          attr1 = (if usr \<noteq> - 1 then attr0\<lparr>ia_valid := ia_valid attr0 OR ATTR_UID, ia_uid := usr\<rparr> else attr0);
          attr2 = (if grp \<noteq> - 1 then attr1\<lparr>ia_valid := ia_valid attr1 OR ATTR_GID, ia_gid := grp\<rparr> else attr1);
          attr3 = (if \<not> S_ISDIR (i_mode inode)
                   then attr2\<lparr>ia_valid := ia_valid attr2 OR (ATTR_KILL_SUID OR ATTR_KILL_SGID OR ATTR_KILL_PRIV)\<rparr>
                   else attr2)
      in notify_change env ops cfg setattr k inode attr3)"

text \<open>\<^verbatim>\<open>chown\<close> and \<^verbatim>\<open>lchown\<close> differ in how the path walk treats a final link.\<close>

definition sys_chown ::
  "attr_env \<Rightarrow> open_env \<Rightarrow> security_operations \<Rightarrow> kconfig \<Rightarrow> setattr_op option \<Rightarrow> kernel \<Rightarrow> inode result
     \<Rightarrow> uid_t \<Rightarrow> gid_t \<Rightarrow> unit result \<times> inode option \<times> kernel" where
  "sys_chown env oenv ops cfg setattr k user_path usr grp =
     (case user_path of
        Inl e \<Rightarrow> (Inl e, None, k)
      | Inr inode \<Rightarrow>
        (case mnt_want_write oenv of
           Inl e \<Rightarrow> (Inl e, Some inode, k)
         | Inr _ \<Rightarrow>
           (case chown_common env ops cfg setattr k inode usr grp of (r, i, k1) \<Rightarrow> (r, Some i, k1))))"

definition sys_fchownat ::
  "attr_env \<Rightarrow> open_env \<Rightarrow> security_operations \<Rightarrow> kconfig \<Rightarrow> setattr_op option \<Rightarrow> kernel \<Rightarrow> (bool \<Rightarrow> inode result)
     \<Rightarrow> uid_t \<Rightarrow> gid_t \<Rightarrow> u32 \<Rightarrow> unit result \<times> inode option \<times> kernel" where
  "sys_fchownat env oenv ops cfg setattr k user_path_at usr grp flag =
     (if flag AND NOT AT_SYMLINK_NOFOLLOW \<noteq> 0 then (Inl EINVAL, None, k)
      else sys_chown env oenv ops cfg setattr k (user_path_at (flag AND AT_SYMLINK_NOFOLLOW = 0)) usr grp)"

definition sys_fchown ::
  "attr_env \<Rightarrow> open_env \<Rightarrow> security_operations \<Rightarrow> kconfig \<Rightarrow> setattr_op option \<Rightarrow> kernel \<Rightarrow> open_file option
     \<Rightarrow> uid_t \<Rightarrow> gid_t \<Rightarrow> unit result \<times> inode option \<times> kernel" where
  "sys_fchown env oenv ops cfg setattr k fl usr grp =
     (case fl of
        None \<Rightarrow> (Inl EBADF, None, k)
      | Some f \<Rightarrow> sys_chown env oenv ops cfg setattr k (Inr (file_inode f)) usr grp)"

section \<open>access\<close>

text \<open>
  \<^verbatim>\<open>faccessat\<close> runs under credentials of its own.  The path walk checks permissions on
  its way, so \<open>user_path\<close> takes and returns the state.
\<close>

definition access_cred :: "cred \<Rightarrow> cred \<Rightarrow> cred" where
  "access_cred cur c =
     (let c1 = c\<lparr>fsuid := uid c, fsgid := gid c\<rparr>
      in if issecure cur SECURE_NO_SETUID_FIXUP then c1
         else if uid c1 \<noteq> 0 then c1\<lparr>cap_effective := CAP_EMPTY_SET\<rparr>
         else c1\<lparr>cap_effective := cap_permitted c1\<rparr>)"

definition access_check ::
  "security_operations \<Rightarrow> permission_op option \<Rightarrow> kernel \<Rightarrow> path \<Rightarrow> u32 \<Rightarrow> unit result \<times> kernel" where
  "access_check ops permission k p mode =
     (let inode = path_inode p
      in if mode AND MAY_EXEC \<noteq> 0 \<and> S_ISREG (i_mode inode) \<and> mnt_flags p AND MNT_NOEXEC \<noteq> 0 then (Inl EACCES, k)
         else case inode_permission ops permission k inode (mode OR MAY_ACCESS) of
           (Inl e, k1) \<Rightarrow> (Inl e, k1)
         | (Inr _, k1) \<Rightarrow>
             if mode AND S_IWOTH = 0 \<or> special_file (i_mode inode) then (Inr (), k1)
             else if mnt_is_readonly p then (Inl EROFS, k1)
             else (Inr (), k1))"

definition sys_faccessat ::
  "security_operations \<Rightarrow> alloc_env \<Rightarrow> permission_op option \<Rightarrow> (kernel \<Rightarrow> path result \<times> kernel) \<Rightarrow> kernel \<Rightarrow> u32
     \<Rightarrow> unit result \<times> kernel" where
  "sys_faccessat ops aenv permission user_path k mode =
     (if mode AND NOT (ucast S_IRWXO) \<noteq> 0 then (Inl EINVAL, k)
      else case prepare_creds aenv k of
        None \<Rightarrow> (Inl ENOMEM, k)
      | Some (new, k1) \<Rightarrow>
        (case override_creds (access_cred (current_cred k1) new) k1 of
           (old, k2) \<Rightarrow>
           (case user_path k2 of
              (Inl e, k3) \<Rightarrow> (Inl e, revert_creds old k3)
            | (Inr p, k3) \<Rightarrow>
              (case access_check ops permission k3 p mode of
                 (r, k4) \<Rightarrow> (r, revert_creds old k4)))))"

section \<open>Opening\<close>

definition ima_path_check :: "inode \<Rightarrow> u32 \<Rightarrow> unit result" where
  "ima_path_check inode msk = Inr ()"

definition may_open_trunc ::
  "attr_env \<Rightarrow> open_env \<Rightarrow> security_operations \<Rightarrow> kconfig \<Rightarrow> setattr_op option \<Rightarrow> kernel \<Rightarrow> inode
     \<Rightarrow> unit result \<times> inode \<times> kernel" where
  "may_open_trunc env oenv ops cfg setattr k inode =
     (case get_write_access inode of
        Inl e \<Rightarrow> (Inl e, inode, k)
      | Inr inode1 \<Rightarrow>
        (case locks_verify oenv inode1 of
           Inl e \<Rightarrow> (Inl e, put_write_access inode1, k)
         | Inr _ \<Rightarrow>
           (case do_truncate env ops cfg setattr k inode1 0 (ATTR_MTIME OR ATTR_CTIME OR ATTR_OPEN) False of
              (r, inode2, k1) \<Rightarrow> (r, put_write_access inode2, k1))))"

definition may_open ::
  "attr_env \<Rightarrow> open_env \<Rightarrow> security_operations \<Rightarrow> kconfig \<Rightarrow> permission_op option \<Rightarrow> setattr_op option
     \<Rightarrow> kernel \<Rightarrow> u32 \<Rightarrow> inode option \<Rightarrow> u32 \<Rightarrow> u32 \<Rightarrow> unit result \<times> inode option \<times> kernel" where
  "may_open env oenv ops cfg permission setattr k mnt dinode acc_mode flag0 =
     (case dinode of
        None \<Rightarrow> (Inl ENOENT, None, k)
      | Some inode \<Rightarrow>
        let mode = i_mode inode;
            flag = (if special_file mode then flag0 AND NOT O_TRUNC else flag0)
        in if S_ISLNK mode then (Inl ELOOP, dinode, k)
           else if S_ISDIR mode \<and> acc_mode AND MAY_WRITE \<noteq> 0 then (Inl EISDIR, dinode, k)
           else if (S_ISBLK mode \<or> S_ISCHR mode) \<and> mnt AND MNT_NODEV \<noteq> 0 then (Inl EACCES, dinode, k)
           else case inode_permission ops permission k inode acc_mode of
             (Inl e, k1) \<Rightarrow> (Inl e, dinode, k1)
           | (Inr _, k1) \<Rightarrow>
             (case ima_path_check inode (acc_mode AND (MAY_READ OR MAY_WRITE OR MAY_EXEC)) of
                Inl e \<Rightarrow> (Inl e, dinode, k1)
              | Inr _ \<Rightarrow>
                if IS_APPEND inode \<and> flag AND FMODE_WRITE \<noteq> 0 \<and> flag AND O_APPEND = 0 then (Inl EPERM, dinode, k1)
                else if IS_APPEND inode \<and> flag AND O_TRUNC \<noteq> 0 then (Inl EPERM, dinode, k1)
                else
                  let (refused, k2) = (if flag AND O_NOATIME \<noteq> 0
                         then (case is_owner_or_cap ops k1 inode of (ok, k') \<Rightarrow> (\<not> ok, k')) else (False, k1))
                  in if refused then (Inl EPERM, dinode, k2)
                     else case break_lease oenv inode flag of
                       Inl e \<Rightarrow> (Inl e, dinode, k2)
                     | Inr _ \<Rightarrow>
                         if flag AND O_TRUNC \<noteq> 0
                         then (case may_open_trunc env oenv ops cfg setattr k2 inode of (r, i, k3) \<Rightarrow> (r, Some i, k3))
                         else (Inr (), dinode, k2)))"

end
