(* ===== verification/Open_Spec.thy ===== *)
theory Open_Spec
  imports Open
begin

text \<open>
  What attribute changes can do: what an unprivileged caller can change at all, that a change of
  owner and a write take the set-id bits away, that \<^verbatim>\<open>access\<close> answers for the real ids and
  leaves the credentials as they were, and when truncating a set-uid file fails.
\<close>

section \<open>Reading requests\<close>

lemma word_test: "(m :: 'a::len word) AND f \<noteq> 0 \<longleftrightarrow> (\<exists>n. bit m n \<and> bit f n)"
  using bit_imp_le_length by (fastforce simp: bit_eq_iff bit_and_iff)

lemma word_contains: "(m :: 'a::len word) AND f = f \<longleftrightarrow> (\<forall>n. bit f n \<longrightarrow> bit m n)"
  using bit_imp_le_length by (fastforce simp: bit_eq_iff bit_and_iff)

lemma attr_powers:
  "ATTR_MODE = 2 ^ 0" "ATTR_UID = 2 ^ 1" "ATTR_GID = 2 ^ 2" "ATTR_SIZE = 2 ^ 3" "ATTR_CTIME = 2 ^ 6"
  "ATTR_FORCE = 2 ^ 9" "ATTR_KILL_SUID = 2 ^ 11" "ATTR_KILL_SGID = 2 ^ 12" "ATTR_FILE = 2 ^ 13"
  "ATTR_KILL_PRIV = 2 ^ 14" "ATTR_TIMES_SET = 2 ^ 16"
  by (simp_all add: attr_flags)

lemma attr_bits [word_bits]:
  "bit ATTR_MODE n \<longleftrightarrow> n = 0" "bit ATTR_UID n \<longleftrightarrow> n = 1" "bit ATTR_GID n \<longleftrightarrow> n = 2"
  "bit ATTR_SIZE n \<longleftrightarrow> n = 3" "bit ATTR_CTIME n \<longleftrightarrow> n = 6" "bit ATTR_FORCE n \<longleftrightarrow> n = 9"
  "bit ATTR_KILL_SUID n \<longleftrightarrow> n = 11" "bit ATTR_KILL_SGID n \<longleftrightarrow> n = 12" "bit ATTR_FILE n \<longleftrightarrow> n = 13"
  "bit ATTR_KILL_PRIV n \<longleftrightarrow> n = 14" "bit ATTR_TIMES_SET n \<longleftrightarrow> n = 16"
  by (simp_all only: attr_powers bit_power_two) auto

lemma asks_bits:
  "asks attr ATTR_MODE \<longleftrightarrow> bit (ia_valid attr) 0" "asks attr ATTR_UID \<longleftrightarrow> bit (ia_valid attr) 1"
  "asks attr ATTR_GID \<longleftrightarrow> bit (ia_valid attr) 2" "asks attr ATTR_SIZE \<longleftrightarrow> bit (ia_valid attr) 3"
  "asks attr ATTR_FORCE \<longleftrightarrow> bit (ia_valid attr) 9"
  "asks attr ATTR_KILL_SUID \<longleftrightarrow> bit (ia_valid attr) 11" "asks attr ATTR_KILL_SGID \<longleftrightarrow> bit (ia_valid attr) 12"
  "asks attr ATTR_KILL_PRIV \<longleftrightarrow> bit (ia_valid attr) 14"
  by (simp_all add: asks_def word_test attr_bits)

lemma set_id_powers: "S_ISUID = 2 ^ 11" "S_ISGID = 2 ^ 10" "S_IXGRP = 2 ^ 3"
  by (simp_all add: S_ISUID_def S_ISGID_def S_IXGRP_def)

lemma set_id_bits [word_bits]:
  "bit S_ISUID n \<longleftrightarrow> n = 11" "bit S_ISGID n \<longleftrightarrow> n = 10" "bit S_IXGRP n \<longleftrightarrow> n = 3"
  by (simp_all only: set_id_powers bit_power_two) auto

lemma set_id_tests:
  "m AND S_ISUID \<noteq> 0 \<longleftrightarrow> bit m 11" "m AND S_ISGID \<noteq> 0 \<longleftrightarrow> bit m 10" "m AND S_IXGRP \<noteq> 0 \<longleftrightarrow> bit m 3"
  "m AND S_ISUID = 0 \<longleftrightarrow> \<not> bit m 11" "m AND S_ISGID = 0 \<longleftrightarrow> \<not> bit m 10"
  "m AND (S_ISGID OR S_IXGRP) = S_ISGID OR S_IXGRP \<longleftrightarrow> bit m 10 \<and> bit m 3"
proof -
  show "m AND S_ISUID \<noteq> 0 \<longleftrightarrow> bit m 11" "m AND S_ISGID \<noteq> 0 \<longleftrightarrow> bit m 10" "m AND S_IXGRP \<noteq> 0 \<longleftrightarrow> bit m 3"
    by (simp_all add: word_test set_id_bits)
  then show "m AND S_ISUID = 0 \<longleftrightarrow> \<not> bit m 11" "m AND S_ISGID = 0 \<longleftrightarrow> \<not> bit m 10"
    by blast+
  show "m AND (S_ISGID OR S_IXGRP) = S_ISGID OR S_IXGRP \<longleftrightarrow> bit m 10 \<and> bit m 3"
    unfolding word_contains bit_or_iff set_id_bits by auto
qed

section \<open>What the request becomes\<close>

lemma notify_times_frame [simp]:
  "ia_valid (notify_times now attr) = ia_valid attr" "ia_mode (notify_times now attr) = ia_mode attr"
  "ia_uid (notify_times now attr) = ia_uid attr" "ia_gid (notify_times now attr) = ia_gid attr"
  "ia_size (notify_times now attr) = ia_size attr"
  by (simp_all add: notify_times_def Let_def)

lemma notify_killpriv_frame:
  assumes "notify_killpriv cfg inode attr = Inr attr'"
  shows "ia_uid attr' = ia_uid attr" "ia_gid attr' = ia_gid attr" "ia_mode attr' = ia_mode attr"
    "ia_size attr' = ia_size attr" "n \<noteq> 14 \<Longrightarrow> bit (ia_valid attr') n = bit (ia_valid attr) n"
  using assms
  by (auto simp: notify_killpriv_def bit_simps attr_bits split: if_splits sum.splits dest: bit_u32_less)

text \<open>The request that reaches the file system, in terms of the one that came in.\<close>

definition killed :: "inode \<Rightarrow> iattr \<Rightarrow> iattr" where
  "killed inode attr = notify_sgid inode (notify_suid inode attr)"

lemma killed_frame:
  "ia_uid (killed inode attr) = ia_uid attr" "ia_gid (killed inode attr) = ia_gid attr"
  "ia_size (killed inode attr) = ia_size attr"
  "n \<noteq> 0 \<Longrightarrow> bit (ia_valid (killed inode attr)) n = bit (ia_valid attr) n"
  by (simp_all add: killed_def notify_sgid_def notify_suid_def Let_def bit_simps attr_bits)

lemma killed_mode:
  assumes "\<not> asks attr ATTR_MODE"
  shows "asks attr ATTR_KILL_SUID \<Longrightarrow> asks (killed inode attr) ATTR_MODE \<or> \<not> bit (i_mode inode) 11"
    "asks attr ATTR_KILL_SGID \<Longrightarrow> asks (killed inode attr) ATTR_MODE \<or> \<not> (bit (i_mode inode) 10 \<and> bit (i_mode inode) 3)"
    "asks (killed inode attr) ATTR_MODE \<Longrightarrow> asks attr ATTR_KILL_SUID \<Longrightarrow> \<not> bit (ia_mode (killed inode attr)) 11"
    "asks (killed inode attr) ATTR_MODE \<Longrightarrow> asks attr ATTR_KILL_SGID \<Longrightarrow>
       \<not> (bit (ia_mode (killed inode attr)) 10 \<and> bit (ia_mode (killed inode attr)) 3)"
    "asks (killed inode attr) ATTR_MODE \<Longrightarrow> n \<noteq> 11 \<Longrightarrow> n \<noteq> 10 \<Longrightarrow> bit (ia_mode (killed inode attr)) n = bit (i_mode inode) n"
    "asks (killed inode attr) ATTR_MODE \<Longrightarrow> bit (ia_mode (killed inode attr)) n \<Longrightarrow> bit (i_mode inode) n"
  using assms
  by (auto simp: killed_def notify_sgid_def notify_suid_def Let_def asks_bits bit_simps attr_bits set_id_tests set_id_bits
      split: if_splits dest: bit_u16_less)

section \<open>What an accepted request does to the inode\<close>

text \<open>The truncation method of a file system leaves owner, group and mode alone.\<close>

definition plain_truncate :: "attr_env \<Rightarrow> bool" where
  "plain_truncate env \<longleftrightarrow>
     (\<forall>f i. iop_truncate env = Some f \<longrightarrow>
        i_uid (f i) = i_uid i \<and> i_gid (f i) = i_gid i \<and> i_mode (f i) = i_mode i)"

lemma vmtruncate_frame:
  assumes "vmtruncate env inode n = Inr inode'" "plain_truncate env"
  shows "i_uid inode' = i_uid inode" "i_gid inode' = i_gid inode" "i_mode inode' = i_mode inode"
  using assms by (auto simp: vmtruncate_def plain_truncate_def Let_def split: if_splits option.splits)

lemma setattr_frames [simp]:
  "i_uid (setattr_times attr i) = i_uid i" "i_gid (setattr_times attr i) = i_gid i"
  "i_mode (setattr_times attr i) = i_mode i" "i_mode (setattr_ids attr i) = i_mode i"
  "i_uid (setattr_ids attr i) = (if asks attr ATTR_UID then ia_uid attr else i_uid i)"
  "i_gid (setattr_ids attr i) = (if asks attr ATTR_GID then ia_gid attr else i_gid i)"
  by (simp_all add: setattr_times_def setattr_ids_def Let_def)

lemma lacks_default:
  "cap_valid n \<Longrightarrow> lacks (capability_ops cfg) k cond n =
     (cond \<and> n \<notin> effective k, if cond then used n k else k)"
  by (simp add: lacks_def capable_used effective_def)

lemma owner_default:
  "is_owner_or_cap (capability_ops cfg) k inode =
     (current_fsuid k = i_uid inode \<or> CAP_FOWNER \<in> effective k,
      if current_fsuid k = i_uid inode then k else used CAP_FOWNER k)"
  by (simp add: is_owner_or_cap_def capable_fs effective_def)

lemma inode_setattr_result:
  assumes "inode_setattr env (capability_ops cfg) k inode attr = (r, inode', k')" "plain_truncate env"
  shows "inode' = inode \<or>
    i_uid inode' = (if asks attr ATTR_UID then ia_uid attr else i_uid inode) \<and>
    i_gid inode' = (if asks attr ATTR_GID then ia_gid attr else i_gid inode) \<and>
    i_mode inode' =
      (if asks attr ATTR_MODE
       then if \<not> in_group_p k (i_gid inode') \<and> CAP_FSETID \<notin> effective k
            then ia_mode attr AND NOT S_ISGID else ia_mode attr
       else i_mode inode)"
    and "r = Inr () \<Longrightarrow> asks attr ATTR_MODE \<Longrightarrow> i_mode inode' \<in> {ia_mode attr, ia_mode attr AND NOT S_ISGID}"
    and "\<not> asks attr ATTR_MODE \<Longrightarrow> i_mode inode' = i_mode inode"
proof -
  let ?trunc = "if asks attr ATTR_SIZE \<and> ia_size attr \<noteq> i_size inode
    then vmtruncate env inode (ia_size attr) else Inr inode"
  have fr: "i_uid i = i_uid inode \<and> i_gid i = i_gid inode \<and> i_mode i = i_mode inode" if "?trunc = Inr i" for i
    using that vmtruncate_frame [OF _ assms(2)] by (auto split: if_splits)
  note eval = assms(1) [unfolded inode_setattr_def lacks_default [OF fs_caps_valid(5)] Let_def prod.case]
  show "inode' = inode \<or>
    i_uid inode' = (if asks attr ATTR_UID then ia_uid attr else i_uid inode) \<and>
    i_gid inode' = (if asks attr ATTR_GID then ia_gid attr else i_gid inode) \<and>
    i_mode inode' =
      (if asks attr ATTR_MODE
       then if \<not> in_group_p k (i_gid inode') \<and> CAP_FSETID \<notin> effective k
            then ia_mode attr AND NOT S_ISGID else ia_mode attr
       else i_mode inode)"
  proof (cases ?trunc)
    case (Inl e)
    then show ?thesis using eval by simp
  next
    case (Inr i)
    then show ?thesis using eval fr [OF Inr] by (cases "asks attr ATTR_MODE") auto
  qed
  show "i_mode inode' \<in> {ia_mode attr, ia_mode attr AND NOT S_ISGID}" if "r = Inr ()" "asks attr ATTR_MODE"
    using eval that by (cases ?trunc) auto
  show "i_mode inode' = i_mode inode" if "\<not> asks attr ATTR_MODE"
    using eval that fr by (cases ?trunc) auto
qed

section \<open>Unprivileged callers\<close>

definition unprivileged :: "kernel \<Rightarrow> bool" where
  "unprivileged k \<longleftrightarrow> CAP_CHOWN \<notin> effective k \<and> CAP_FOWNER \<notin> effective k \<and> CAP_FSETID \<notin> effective k"

lemma used_unprivileged:
  "n \<notin> effective k \<Longrightarrow> used n k = k"
  by (simp add: used_def effective_def)

lemma change_mode_unprivileged:
  assumes "unprivileged k"
  shows "change_mode_ok (capability_ops cfg) k inode attr =
    (if current_fsuid k \<noteq> i_uid inode then Inl EPERM
     else Inr (if \<not> in_group_p k (if asks attr ATTR_GID then ia_gid attr else i_gid inode)
               then attr\<lparr>ia_mode := ia_mode attr AND NOT S_ISGID\<rparr> else attr), k)"
  using assms
  by (simp add: change_mode_ok_def owner_default lacks_default fs_caps_valid used_unprivileged unprivileged_def)

lemma change_times_unprivileged:
  assumes "unprivileged k"
  shows "\<exists>r. change_times_ok (capability_ops cfg) k inode attr = (r, k) \<and> (r = Inr attr \<or> r = Inl EPERM)"
  using assms by (simp add: change_times_ok_def owner_default used_unprivileged unprivileged_def)

text \<open>What an accepted request of an unprivileged caller looks like.\<close>

definition modest :: "kernel \<Rightarrow> inode \<Rightarrow> iattr \<Rightarrow> bool" where
  "modest k inode attr \<longleftrightarrow>
     (asks attr ATTR_UID \<longrightarrow> current_fsuid k = i_uid inode \<and> ia_uid attr = i_uid inode) \<and>
     (asks attr ATTR_GID \<longrightarrow>
        current_fsuid k = i_uid inode \<and> (in_group_p k (ia_gid attr) \<or> ia_gid attr = i_gid inode)) \<and>
     (asks attr ATTR_MODE \<longrightarrow> current_fsuid k = i_uid inode)"

lemma inode_change_unprivileged:
  assumes "inode_change_ok (capability_ops cfg) k inode attr = (Inr attr', k')"
    and "unprivileged k" "\<not> asks attr ATTR_FORCE"
  shows "k' = k \<and> modest k inode attr' \<and> (attr' = attr \<or> attr' = attr\<lparr>ia_mode := ia_mode attr AND NOT S_ISGID\<rparr>)"
proof -
  have caps: "lacks (capability_ops cfg) k cond CAP_CHOWN = (cond, k)" for cond
    using assms(2) by (simp add: lacks_default fs_caps_valid used_unprivileged unprivileged_def)
  let ?mode = "if asks attr ATTR_MODE then change_mode_ok (capability_ops cfg) k inode attr else (Inr attr, k)"
  obtain r k1 where mode: "?mode = (r, k1)"
    by fastforce
  have k1: "k1 = k"
    using mode change_mode_unprivileged [OF assms(2)] by (auto split: if_splits)
  note run = assms(1) [unfolded inode_change_ok_def caps Let_def prod.case mode k1]
  obtain attr1 where r: "r = Inr attr1"
    using run assms(3) by (cases r) (auto split: if_splits)
  have attr1: "attr1 = attr \<or> attr1 = attr\<lparr>ia_mode := ia_mode attr AND NOT S_ISGID\<rparr>"
      "asks attr ATTR_MODE \<Longrightarrow> current_fsuid k = i_uid inode"
    using mode r change_mode_unprivileged [OF assms(2)] by (auto split: if_splits)
  have same: "attr' = attr1" "k' = k"
    using run r assms(3) change_times_unprivileged [OF assms(2), of cfg inode attr1] by (auto split: if_splits)
  have "modest k inode attr"
    using run assms(3) attr1(2) by (auto simp: modest_def split: if_splits)
  then have "modest k inode attr1"
    using attr1(1) by (auto simp: modest_def asks_def)
  then show ?thesis
    using same attr1(1) by simp
qed

text \<open>How \<^verbatim>\<open>notify_change\<close> ends on a file system without its own method.\<close>

lemma kill_flags_only:
  assumes "ia_valid attr AND NOT (ATTR_KILL_SUID OR ATTR_KILL_SGID) = 0"
  shows "\<not> asks attr ATTR_MODE"
proof
  assume "asks attr ATTR_MODE"
  then have "bit (ia_valid attr AND NOT (ATTR_KILL_SUID OR ATTR_KILL_SGID)) 0"
    by (simp add: asks_bits bit_simps attr_bits)
  then show False
    using assms by simp
qed

lemma notify_change_cases:
  assumes "notify_change env ops cfg None k inode attr = (r, inode', k')"
  obtains (unchanged) e where "r = Inl e" "inode' = inode"
  | (noop) attr1 where "notify_killpriv cfg inode (notify_times (current_fs_time env inode) attr) = Inr attr1"
      "\<not> asks (killed inode attr1) ATTR_MODE" "inode' = inode"
  | (changed) attr1 k1 where "notify_killpriv cfg inode (notify_times (current_fs_time env inode) attr) = Inr attr1"
      "current k1 = current k" "default_setattr env ops k1 inode (killed inode attr1) = (r, inode', k')"
proof (cases "notify_killpriv cfg inode (notify_times (current_fs_time env inode) attr)")
  case (Inl e)
  then show thesis
    using assms unchanged by (auto simp: notify_change_def split: if_splits)
next
  case (Inr attr1)
  define k1 where "k1 = (if asks attr1 (ATTR_KILL_SUID OR ATTR_KILL_SGID) \<and> asks attr1 ATTR_MODE then k\<lparr>bug := True\<rparr> else k)"
  note run = assms [unfolded notify_change_def Inr sum.case Let_def killed_def [symmetric] k1_def [symmetric]
      security_inode_setattr_def option.case]
  have "current k1 = current k"
    by (simp add: k1_def)
  show thesis
  proof (cases "asks attr (ATTR_MODE OR ATTR_UID OR ATTR_GID OR ATTR_TIMES_SET) \<and> (IS_IMMUTABLE inode \<or> IS_APPEND inode)")
    case True
    then show thesis
      using run unchanged by auto
  next
    case False
    note run' = run [unfolded if_not_P [OF False]]
    show thesis
    proof (cases "ia_valid (killed inode attr1) AND NOT (ATTR_KILL_SUID OR ATTR_KILL_SGID) = 0")
      case True
      have "inode' = inode"
        using run' [unfolded if_P [OF True]] by simp
      then show thesis
        by (rule noop [OF Inr kill_flags_only [OF True]])
    next
      case False
      show thesis
        by (rule changed [OF Inr \<open>current k1 = current k\<close> run' [unfolded if_not_P [OF False]]])
    qed
  qed
qed

lemma default_setattr_cases:
  assumes "default_setattr env ops k inode attr = (r, inode', k')"
  obtains (refused) e where "inode_change_ok ops k inode attr = (Inl e, k')" "r = Inl e" "inode' = inode"
  | (done') attr1 k1 where "inode_change_ok ops k inode attr = (Inr attr1, k1)"
      "inode_setattr env ops k1 inode attr1 = (r, inode', k')"
  using assms by (auto simp: default_setattr_def vfs_dq_transfer_def split: prod.splits sum.splits)

lemma killpriv_killed_bits:
  assumes "notify_killpriv cfg inode (notify_times t attr) = Inr attr1" "n \<noteq> 14"
  shows "bit (ia_valid attr1) n = bit (ia_valid attr) n"
  using notify_killpriv_frame(5) [OF assms] by simp

text \<open>C19: Without CAP_CHOWN, CAP_FOWNER and CAP_FSETID, and without the kernel-internal force flag,
  no attribute change gives a file another owner; only the owner changes its group or mode, the
  group only to one the caller belongs to; and a mode that was changed has the set-group-id
  bit only if the caller belongs to the file's group.\<close>

theorem unprivileged_setattr:
  assumes "notify_change env (capability_ops cfg) cfg None k inode attr = (r, inode', k')"
    and "unprivileged k" "\<not> asks attr ATTR_FORCE" "plain_truncate env"
  shows "i_uid inode' = i_uid inode \<and>
    (i_gid inode' = i_gid inode \<or> current_fsuid k = i_uid inode \<and> in_group_p k (i_gid inode')) \<and>
    (i_mode inode' = i_mode inode \<or>
       current_fsuid k = i_uid inode \<and> (i_mode inode' AND S_ISGID \<noteq> 0 \<longrightarrow> in_group_p k (i_gid inode')))"
  using assms(1)
proof (cases rule: notify_change_cases)
  case (changed attr1 k1)
  have k1: "unprivileged k1" "current_fsuid k1 = current_fsuid k" "in_group_p k1 = in_group_p k"
    using assms(2) changed(2) by (simp_all add: unprivileged_def effective_def in_group_p_def fun_eq_iff)
  have "\<not> asks (killed inode attr1) ATTR_FORCE"
    using assms(3) killpriv_killed_bits [OF changed(1)] by (simp add: asks_bits killed_frame)
  show ?thesis
    using changed(3)
  proof (cases rule: default_setattr_cases)
    case (done' attr2 k2)
    have ok: "k2 = k1" "modest k1 inode attr2"
      using inode_change_unprivileged [OF done'(1) k1(1) \<open>\<not> asks (killed inode attr1) ATTR_FORCE\<close>] by simp_all
    have "CAP_FSETID \<notin> effective k1"
      using k1(1) by (simp add: unprivileged_def)
    then show ?thesis
      using inode_setattr_result(1) [OF done'(2) assms(4)] ok k1(2,3)
      by (auto simp: modest_def set_id_tests bit_simps set_id_bits split: if_splits)
  qed simp
qed simp_all

section \<open>Set-id bits that go\<close>

text \<open>
  A request that asks for the set-id bits to go and is carried out: neither of them is left
  (a set-group-id bit without group execution marks mandatory locking and stays).
\<close>

lemma inode_change_attr:
  assumes "inode_change_ok ops k inode attr = (Inr attr', k')"
  shows "attr' = attr \<or> attr' = attr\<lparr>ia_mode := ia_mode attr AND NOT S_ISGID\<rparr>"
proof -
  have mode: "attr1 = attr \<or> attr1 = attr\<lparr>ia_mode := ia_mode attr AND NOT S_ISGID\<rparr>"
    if "change_mode_ok ops k1 inode attr = (Inr attr1, k2)" for attr1 k1 k2
    using that by (auto simp: change_mode_ok_def Let_def split: prod.splits if_splits)
  have times: "attr2 = attr1" if "change_times_ok ops k1 inode attr1 = (Inr attr2, k2)" for attr1 attr2 k1 k2
    using that by (auto simp: change_times_ok_def split: prod.splits if_splits)
  show ?thesis
    using assms
    by (auto simp: inode_change_ok_def Let_def split: prod.splits if_splits sum.splits dest!: mode times)
qed

lemma kill_mode_set:
  assumes "m \<in> {ia_mode a, ia_mode a AND NOT S_ISGID}"
    and "a = killed inode attr \<or> a = (killed inode attr)\<lparr>ia_mode := ia_mode (killed inode attr) AND NOT S_ISGID\<rparr>"
  shows "n \<noteq> 10 \<Longrightarrow> bit m n = bit (ia_mode (killed inode attr)) n"
    "bit m 10 \<Longrightarrow> bit (ia_mode (killed inode attr)) 10"
  using assms by (auto simp: bit_simps set_id_bits dest: bit_u16_less)

lemma kill_carried_out:
  assumes "notify_change env (capability_ops cfg) cfg None k inode attr = (Inr (), inode', k')"
    and "\<not> asks attr ATTR_MODE" "plain_truncate env"
  shows "(asks attr ATTR_KILL_SUID \<longrightarrow> \<not> bit (i_mode inode') 11) \<and>
    (asks attr ATTR_KILL_SGID \<longrightarrow> \<not> (bit (i_mode inode') 10 \<and> bit (i_mode inode') 3)) \<and>
    (\<forall>n. n \<noteq> 11 \<longrightarrow> n \<noteq> 10 \<longrightarrow> bit (i_mode inode') n = bit (i_mode inode) n) \<and>
    (\<forall>n. bit (i_mode inode') n \<longrightarrow> bit (i_mode inode) n)"
  using assms(1)
proof (cases rule: notify_change_cases)
  case (unchanged e)
  then show ?thesis by simp
next
  case (noop attr1)
  note same = killpriv_killed_bits [OF noop(1)]
  have nomode: "\<not> asks attr1 ATTR_MODE"
    and kills: "asks attr1 ATTR_KILL_SUID = asks attr ATTR_KILL_SUID" "asks attr1 ATTR_KILL_SGID = asks attr ATTR_KILL_SGID"
    using assms(2) same by (simp_all add: asks_bits)
  show ?thesis
    using killed_mode(1,2) [OF nomode, of inode, unfolded kills] noop(2,3) by blast
next
  case (changed attr1 k1)
  note same = killpriv_killed_bits [OF changed(1)]
  have nomode: "\<not> asks attr1 ATTR_MODE"
    and kills: "asks attr1 ATTR_KILL_SUID = asks attr ATTR_KILL_SUID" "asks attr1 ATTR_KILL_SGID = asks attr ATTR_KILL_SGID"
    using assms(2) same by (simp_all add: asks_bits)
  show ?thesis
    using changed(3)
  proof (cases rule: default_setattr_cases)
    case (refused e)
    then show ?thesis by simp
  next
    case (done' attr2 k2)
    note attr2 = inode_change_attr [OF done'(1)]
    have asks2: "asks attr2 ATTR_MODE = asks (killed inode attr1) ATTR_MODE"
      using attr2 by (auto simp: asks_def)
    show ?thesis
    proof (cases "asks attr2 ATTR_MODE")
      case True
      note m = kill_mode_set [OF inode_setattr_result(2) [OF done'(2) assms(3) refl True] attr2]
      have sub: "bit (i_mode inode') n \<Longrightarrow> bit (ia_mode (killed inode attr1)) n" for n
        using m by (cases "n = 10") auto
      note kill = killed_mode(3-6) [OF nomode, of inode, unfolded kills asks2 [symmetric], OF True]
      show ?thesis
        using sub kill m(1) by blast
    next
      case False
      then show ?thesis
        using inode_setattr_result(3) [OF done'(2) assms(3)] asks2 killed_mode(1,2) [OF nomode, of inode] kills by metis
    qed
  qed
qed

lemma same_other_bits:
  assumes "\<forall>n. n \<noteq> 11 \<longrightarrow> n \<noteq> 10 \<longrightarrow> bit m n = bit m' n"
  shows "m AND NOT (S_ISUID OR S_ISGID) = m' AND NOT (S_ISUID OR S_ISGID)"
  by (rule bit_word_eqI) (use assms in \<open>auto simp: bit_simps set_id_bits\<close>)

lemma kill_tests:
  assumes "\<not> bit m 11" "\<not> (bit m 10 \<and> bit m 3)" "\<forall>n. n \<noteq> 11 \<longrightarrow> n \<noteq> 10 \<longrightarrow> bit m n = bit m' n"
  shows "m AND S_ISUID = 0 \<and> m AND (S_ISGID OR S_IXGRP) \<noteq> S_ISGID OR S_IXGRP \<and>
    m AND NOT (S_ISUID OR S_ISGID) = m' AND NOT (S_ISUID OR S_ISGID)"
  using assms same_other_bits [OF assms(3)] by (simp add: set_id_tests)

text \<open>C20: After a successful change of owner or group of anything but a directory, whoever made it,
  the file is neither set-uid nor set-gid (a set-gid bit without group execution is the mark
  of mandatory locking and may stay), and the rest of its mode is what it was.\<close>

theorem chown_clears_setid:
  assumes "chown_common env (capability_ops cfg) cfg None k inode usr grp = (Inr (), inode', k')"
    and "\<not> S_ISDIR (i_mode inode)" "plain_truncate env"
  shows "i_mode inode' AND S_ISUID = 0 \<and> i_mode inode' AND (S_ISGID OR S_IXGRP) \<noteq> S_ISGID OR S_IXGRP \<and>
    i_mode inode' AND NOT (S_ISUID OR S_ISGID) = i_mode inode AND NOT (S_ISUID OR S_ISGID)"
proof -
  define a where "a = blank_iattr ATTR_CTIME"
  define b where "b = (if usr \<noteq> - 1 then a\<lparr>ia_valid := ia_valid a OR ATTR_UID, ia_uid := usr\<rparr> else a)"
  define c where "c = (if grp \<noteq> - 1 then b\<lparr>ia_valid := ia_valid b OR ATTR_GID, ia_gid := grp\<rparr> else b)"
  define d where "d = c\<lparr>ia_valid := ia_valid c OR (ATTR_KILL_SUID OR ATTR_KILL_SGID OR ATTR_KILL_PRIV)\<rparr>"
  note run = assms(1) [unfolded chown_common_def Let_def if_P [OF assms(2)], folded a_def, folded b_def, folded c_def, folded d_def]
  have "\<not> asks d ATTR_MODE" "asks d ATTR_KILL_SUID" "asks d ATTR_KILL_SGID"
    by (auto simp: asks_bits d_def c_def b_def a_def blank_iattr_def bit_simps attr_bits)
  then show ?thesis
    using kill_carried_out [OF run _ assms(3)] by (intro kill_tests) auto
qed

lemma kill_nonzero: "ATTR_KILL_SUID \<noteq> 0" "ATTR_KILL_SGID \<noteq> 0" "ATTR_KILL_SUID OR ATTR_KILL_SGID \<noteq> 0"
  by (simp_all add: attr_flags)

lemma should_remove_flags:
  assumes "CAP_FSETID \<notin> effective k" "S_ISREG (i_mode inode)"
    and "should_remove_suid (capability_ops cfg) k inode = (kill, k')"
  shows "bit kill n \<longleftrightarrow> n = 11 \<and> bit (i_mode inode) 11 \<or> n = 12 \<and> bit (i_mode inode) 10 \<and> bit (i_mode inode) 3"
    "k' = k"
  using assms
  by (cases "bit (i_mode inode) 11"; cases "bit (i_mode inode) 10 \<and> bit (i_mode inode) 3";
      force simp: should_remove_suid_def Let_def lacks_default fs_caps_valid used_unprivileged set_id_tests
      bit_or_iff attr_bits kill_nonzero)+

text \<open>When a caller without CAP_FSETID writes to a regular file, a successful preparation of the
  write leaves the file neither set-uid nor set-gid, and the rest of its mode as it was.\<close>

theorem write_clears_setid:
  assumes "file_remove_suid env (capability_ops cfg) cfg None k inode = (Inr (), inode', k')"
    and "CAP_FSETID \<notin> effective k" "S_ISREG (i_mode inode)" "plain_truncate env"
  shows "i_mode inode' AND S_ISUID = 0 \<and> i_mode inode' AND (S_ISGID OR S_IXGRP) \<noteq> S_ISGID OR S_IXGRP \<and>
    i_mode inode' AND NOT (S_ISUID OR S_ISGID) = i_mode inode AND NOT (S_ISUID OR S_ISGID)"
proof -
  obtain kill k1 where kill: "should_remove_suid (capability_ops cfg) k inode = (kill, k1)"
    by fastforce
  note bits = should_remove_flags(1) [OF assms(2,3) kill]
  note run = assms(1) [unfolded file_remove_suid_def kill Let_def prod.case]
  show ?thesis
  proof (cases "kill = 0")
    case True
    then have "\<not> bit (i_mode inode) 11" "\<not> (bit (i_mode inode) 10 \<and> bit (i_mode inode) 3)"
      using bits [of 11] bits [of 12] by simp_all
    moreover have "inode' = inode"
      using run True by (auto split: sum.splits)
    ultimately show ?thesis
      using kill_tests by blast
  next
    case False
    let ?a = "blank_iattr (ATTR_FORCE OR kill)"
    have run': "notify_change env (capability_ops cfg) cfg None k1 inode ?a = (Inr (), inode', k')"
      using run False by (auto simp: remove_suid_def split: sum.splits)
    have asks: "\<not> asks ?a ATTR_MODE" "asks ?a ATTR_KILL_SUID = bit (i_mode inode) 11"
        "asks ?a ATTR_KILL_SGID = (bit (i_mode inode) 10 \<and> bit (i_mode inode) 3)"
      by (simp_all add: asks_bits blank_iattr_def bit_or_iff attr_bits bits)
    note out = kill_carried_out [OF run' asks(1) assms(4)]
    show ?thesis
    proof (rule kill_tests)
      show "\<forall>n. n \<noteq> 11 \<longrightarrow> n \<noteq> 10 \<longrightarrow> bit (i_mode inode') n = bit (i_mode inode) n"
        using out by blast
      show "\<not> bit (i_mode inode') 11" "\<not> (bit (i_mode inode') 10 \<and> bit (i_mode inode') 3)"
        using out asks by blast+
    qed
  qed
qed

section \<open>Truncating a set-uid file\<close>

lemma change_mode_refused:
  assumes "unprivileged k" "current_fsuid k \<noteq> i_uid inode" "asks attr ATTR_MODE" "\<not> asks attr ATTR_FORCE"
    "\<not> asks attr ATTR_UID" "\<not> asks attr ATTR_GID"
  shows "inode_change_ok (capability_ops cfg) k inode attr = (Inl EPERM, k)"
  using assms
  by (simp add: inode_change_ok_def lacks_default fs_caps_valid change_mode_unprivileged)

lemma truncate_setuid:
  assumes "unprivileged k" "current_fsuid k \<noteq> i_uid inode" "S_ISREG (i_mode inode)" "i_mode inode AND S_ISUID \<noteq> 0"
    and "len \<ge> 0"
  shows "\<exists>k'. do_truncate env (capability_ops cfg) cfg None k inode len 0 False = (Inl EPERM, inode, k')"
proof -
  obtain kill k1 where kill: "should_remove_suid (capability_ops cfg) k inode = (kill, k1)"
    by fastforce
  have fsetid: "CAP_FSETID \<notin> effective k"
    using assms(1) by (simp add: unprivileged_def)
  note flags = should_remove_flags [OF fsetid assms(3) kill]
  let ?attr = "(blank_iattr (ATTR_SIZE OR 0 OR 0 OR kill))\<lparr>ia_size := len\<rparr>"
  have valid: "bit (ia_valid ?attr) n \<longleftrightarrow> n = 3 \<or> bit kill n" for n
    by (auto simp: blank_iattr_def bit_simps attr_bits)
  define attr1 where "attr1 = notify_times (current_fs_time env inode) ?attr"
  have valid1: "bit (ia_valid attr1) n \<longleftrightarrow> n = 3 \<or> bit kill n" for n
    unfolding attr1_def notify_times_frame by (rule valid)
  have first: "\<not> (asks ?attr (ATTR_MODE OR ATTR_UID OR ATTR_GID OR ATTR_TIMES_SET) \<and> (IS_IMMUTABLE inode \<or> IS_APPEND inode))"
    unfolding asks_def word_test valid by (auto simp: bit_or_iff attr_bits flags(1))
  have priv: "notify_killpriv cfg inode attr1 = Inr attr1"
    by (simp add: notify_killpriv_def asks_bits valid1 flags(1))
  have suid: "bit (i_mode inode) 11"
    using assms(4) by (simp add: set_id_tests)
  have asked: "asks (killed inode attr1) ATTR_MODE" "\<not> asks (killed inode attr1) ATTR_FORCE"
      "\<not> asks (killed inode attr1) ATTR_UID" "\<not> asks (killed inode attr1) ATTR_GID"
    using killed_mode(1) [of attr1 inode] suid by (auto simp: asks_bits killed_frame valid1 flags(1))
  have quiet: "\<not> (asks attr1 (ATTR_KILL_SUID OR ATTR_KILL_SGID) \<and> asks attr1 ATTR_MODE)"
    by (simp add: asks_bits valid1 flags(1))
  have "\<not> ia_valid (killed inode attr1) AND NOT (ATTR_KILL_SUID OR ATTR_KILL_SGID) = 0"
    using kill_flags_only asked(1) by blast
  then have "notify_change env (capability_ops cfg) cfg None k inode ?attr = (Inl EPERM, inode, k)"
    unfolding notify_change_def Let_def if_not_P [OF first] attr1_def [symmetric] priv sum.case
      killed_def [symmetric] security_inode_setattr_def option.case default_setattr_def if_not_P [OF quiet]
      change_mode_refused [OF assms(1,2) asked] prod.case
    by (simp only: if_False)
  then show ?thesis
    using assms(5) kill flags(2) by (simp add: do_truncate_def)
qed

text \<open>A caller who may write to a regular set-uid file of somebody else, but has no privilege,
  cannot truncate it: the request to clear the set-uid bit that goes with the truncation is
  checked like a chmod, and the call fails with EPERM and leaves the file as it was.\<close>

theorem truncate_setuid_refused:
  assumes "unprivileged k" "current_fsuid k \<noteq> i_uid inode" "S_ISREG (i_mode inode)" "i_mode inode AND S_ISUID \<noteq> 0"
    and "stock_permission cfg permission"
    and "inode_permission (capability_ops cfg) permission k inode MAY_WRITE = (Inr (), k1)"
    and "mnt_want_write oenv = Inr ()" "\<not> IS_APPEND inode" "sint (i_writecount inode) \<ge> 0" "len \<ge> 0"
    and "\<And>i flag. break_lease oenv i flag = Inr ()" "\<And>i. locks_verify oenv i = Inr ()"
  shows "\<exists>k'. do_sys_truncate env oenv (capability_ops cfg) cfg permission None k (Inr inode) len =
    (Inl EPERM, Some inode, k')"
proof -
  let ?inode1 = "inode\<lparr>i_writecount := i_writecount inode + 1\<rparr>"
  have "cred (current k1) = cred (current k)"
    using inode_permission_cred [OF assms(5), of k inode MAY_WRITE] assms(6) by simp
  then have k1: "unprivileged k1" "current_fsuid k1 \<noteq> i_uid ?inode1"
    using assms(1,2) by (simp_all add: unprivileged_def effective_def)
  have "\<not> S_ISDIR (i_mode inode)"
    using assms(3) by (simp add: S_ISREG_def S_ISDIR_def S_IFREG_def S_IFDIR_def)
  moreover obtain k' where "do_truncate env (capability_ops cfg) cfg None k1 ?inode1 len 0 False = (Inl EPERM, ?inode1, k')"
    using truncate_setuid [OF k1, of len env cfg] assms(3,4,10) by auto
  ultimately show ?thesis
    using assms(3,6-12) by (simp add: do_sys_truncate_def get_write_access_def put_write_access_def)
qed

section \<open>access\<close>

text \<open>The checks read nothing of the caller but its file system ids, groups and effective set.\<close>

definition same_subject :: "kernel \<Rightarrow> kernel \<Rightarrow> bool" where
  "same_subject k k' \<longleftrightarrow>
     current_fsuid k = current_fsuid k' \<and> in_group_p k = in_group_p k' \<and> effective k = effective k'"

lemma override_same: "same_subject k k' \<Longrightarrow> cap_override k inode msk = cap_override k' inode msk"
  by (simp add: same_subject_def cap_override_def)

lemma generic_permission_same:
  assumes "same_subject k k'" "\<forall>check. acl = Some check \<longrightarrow> check k = check k'"
  shows "fst (generic_permission (capability_ops cfg) k inode msk acl) =
    fst (generic_permission (capability_ops cfg) k' inode msk acl)"
  using assms override_same [OF assms(1)]
  by (auto simp: generic_permission_def Let_def mode_check_result check_capabilities_result same_subject_def
      split: option.splits)

lemma inode_permission_same:
  assumes "same_subject k k'" "stock_permission cfg permission"
  shows "fst (inode_permission (capability_ops cfg) permission k inode msk) =
    fst (inode_permission (capability_ops cfg) permission k' inode msk)"
proof -
  let ?check = "\<lambda>k. case permission of Some f \<Rightarrow> f k inode msk
    | None \<Rightarrow> generic_permission (capability_ops cfg) k inode msk None"
  have "ext2_check_acl acl k = ext2_check_acl acl k'" for acl
    using assms(1) by (intro ext) (simp add: ext2_check_acl_def same_subject_def split: sum.split option.split)
  then have "fst (?check k) = fst (?check k')"
    using assms(2) generic_permission_same [OF assms(1)] by (auto simp: stock_permission_def ext2_permission_def)
  then show ?thesis
    by (cases "?check k"; cases "?check k'")
      (auto simp: inode_permission_def Let_def devcgroup_inode_permission_def security_inode_permission_def
        split: sum.splits)
qed

lemma access_check_same:
  assumes "same_subject k k'" "stock_permission cfg permission"
  shows "fst (access_check (capability_ops cfg) permission k p mode) =
    fst (access_check (capability_ops cfg) permission k' p mode)"
  using inode_permission_same [OF assms, of "path_inode p" "mode OR MAY_ACCESS"]
  by (auto simp: access_check_def Let_def split: prod.splits sum.splits)

lemma access_cred_same:
  assumes "uid c = uid c'" "gid c = gid c'" "group_info c = group_info c'" "uid c \<noteq> 0"
    and "\<not> issecure cur SECURE_NO_SETUID_FIXUP" "\<not> issecure cur' SECURE_NO_SETUID_FIXUP"
    and "current_cred k = access_cred cur c" "current_cred k' = access_cred cur' c'"
  shows "same_subject k k'"
  using assms by (auto simp: same_subject_def access_cred_def Let_def in_group_p_def effective_def fun_eq_iff)

text \<open>The state in which the check of \<^verbatim>\<open>access\<close> runs.\<close>

definition access_kernel :: "kernel \<Rightarrow> kernel" where
  "access_kernel k = k\<lparr>next_cred := next_cred k + 1,
     current := (current k)\<lparr>cred := access_cred (current_cred k) ((current_cred k)\<lparr>cred_id := next_cred k\<rparr>)\<rparr>\<rparr>"

lemma faccessat_eval:
  assumes "cred_alloc aenv"
  shows "sys_faccessat ops aenv permission (\<lambda>k. (res, k)) k mode =
    (if mode AND NOT (ucast S_IRWXO) \<noteq> 0 then (Inl EINVAL, k)
     else case res of
        Inl e \<Rightarrow> (Inl e, revert_creds (current_cred k) (access_kernel k))
      | Inr p \<Rightarrow> (case access_check ops permission (access_kernel k) p mode of
                  (r, k4) \<Rightarrow> (r, revert_creds (current_cred k) k4)))"
  using assms
  by (simp add: sys_faccessat_def prepare_creds_def override_creds_def Let_def access_kernel_def split: sum.split)


section \<open>The properties at concrete inputs\<close>

definition example_attr_env :: attr_env where
  "example_attr_env = \<lparr>kernel_time = \<lparr>tv_sec = 1000, tv_nsec = 5\<rparr>, rlim_fsize = - 1, iop_truncate = None\<rparr>"

definition example_open_env :: open_env where
  "example_open_env = \<lparr>mnt_want_write = Inr (), break_lease = (\<lambda>_ _. Inr ()), locks_verify = (\<lambda>_. Inr ())\<rparr>"

lemma example_plain: "plain_truncate example_attr_env"
  by (simp add: plain_truncate_def example_attr_env_def)

lemma example_unprivileged: "unprivileged (example_kernel u CAP_EMPTY_SET)"
  by (simp add: unprivileged_def effective_def example_frame cap_set_empty)

definition example_chmod :: iattr where
  "example_chmod = (blank_iattr (ATTR_MODE OR ATTR_CTIME))\<lparr>ia_mode := 0x85ED\<rparr>"

theorem unprivileged_setattr_witness:
  "\<exists>inode' k'. notify_change example_attr_env (capability_ops example_config) example_config None
      (example_kernel 1000 CAP_EMPTY_SET) (example_inode 0x81A4 1000) example_chmod = (Inr (), inode', k') \<and>
    i_uid inode' = 1000"
proof -
  obtain r inode' k' where run: "notify_change example_attr_env (capability_ops example_config) example_config None
      (example_kernel 1000 CAP_EMPTY_SET) (example_inode 0x81A4 1000) example_chmod = (r, inode', k')"
    using prod_cases3 by blast
  have "fst (notify_change example_attr_env (capability_ops example_config) example_config None
      (example_kernel 1000 CAP_EMPTY_SET) (example_inode 0x81A4 1000) example_chmod) = Inr ()"
    by code_simp
  moreover have "\<not> asks example_chmod ATTR_FORCE"
    by code_simp
  ultimately show ?thesis
    using unprivileged_setattr [OF run example_unprivileged _ example_plain] run by (simp add: example_flags)
qed

theorem chown_clears_setid_witness:
  "\<exists>inode' k'. chown_common example_attr_env (capability_ops example_config) example_config None
      (example_kernel 0 CAP_FULL_SET) (example_inode 0x89ED 0) 1000 (- 1) = (Inr (), inode', k') \<and>
    i_mode inode' AND S_ISUID = 0"
proof -
  obtain r inode' k' where run: "chown_common example_attr_env (capability_ops example_config) example_config None
      (example_kernel 0 CAP_FULL_SET) (example_inode 0x89ED 0) 1000 (- 1) = (r, inode', k')"
    using prod_cases3 by blast
  have "fst (chown_common example_attr_env (capability_ops example_config) example_config None
      (example_kernel 0 CAP_FULL_SET) (example_inode 0x89ED 0) 1000 (- 1)) = Inr ()"
    by code_simp
  then have run': "chown_common example_attr_env (capability_ops example_config) example_config None
      (example_kernel 0 CAP_FULL_SET) (example_inode 0x89ED 0) 1000 (- 1) = (Inr (), inode', k')"
    using run by simp
  have "\<not> S_ISDIR (i_mode (example_inode 0x89ED 0))"
    by code_simp
  then show ?thesis
    using chown_clears_setid [OF run' _ example_plain] run' by blast
qed

theorem write_clears_setid_witness:
  "\<exists>inode' k'. file_remove_suid example_attr_env (capability_ops example_config) example_config None
      (example_kernel 1000 CAP_EMPTY_SET) (example_inode 0x89FF 0) = (Inr (), inode', k') \<and>
    i_mode inode' AND S_ISUID = 0"
proof -
  obtain r inode' k' where run: "file_remove_suid example_attr_env (capability_ops example_config) example_config None
      (example_kernel 1000 CAP_EMPTY_SET) (example_inode 0x89FF 0) = (r, inode', k')"
    using prod_cases3 by blast
  have "fst (file_remove_suid example_attr_env (capability_ops example_config) example_config None
      (example_kernel 1000 CAP_EMPTY_SET) (example_inode 0x89FF 0)) = Inr ()"
    by code_simp
  then have run': "file_remove_suid example_attr_env (capability_ops example_config) example_config None
      (example_kernel 1000 CAP_EMPTY_SET) (example_inode 0x89FF 0) = (Inr (), inode', k')"
    using run by simp
  have "S_ISREG (i_mode (example_inode 0x89FF 0))"
    by code_simp
  moreover have "CAP_FSETID \<notin> effective (example_kernel 1000 CAP_EMPTY_SET)"
    using example_unprivileged by (simp add: unprivileged_def)
  ultimately show ?thesis
    using write_clears_setid [OF run' _ _ example_plain] run' by blast
qed

theorem truncate_setuid_refused_witness:
  "\<exists>k'. do_sys_truncate example_attr_env example_open_env (capability_ops example_config) example_config None None
     (example_kernel 1000 CAP_EMPTY_SET) (Inr (example_inode 0x89FF 0)) 0 = (Inl EPERM, Some (example_inode 0x89FF 0), k')"
proof -
  have "fst (inode_permission (capability_ops example_config) None (example_kernel 1000 CAP_EMPTY_SET)
      (example_inode 0x89FF 0) MAY_WRITE) = Inr ()"
    by code_simp
  then obtain k1 where perm: "inode_permission (capability_ops example_config) None (example_kernel 1000 CAP_EMPTY_SET)
      (example_inode 0x89FF 0) MAY_WRITE = (Inr (), k1)"
    by (metis prod.collapse)
  have mode: "S_ISREG (i_mode (example_inode 0x89FF 0))" "i_mode (example_inode 0x89FF 0) AND S_ISUID \<noteq> 0"
    by code_simp+
  show ?thesis
    by (rule truncate_setuid_refused [OF example_unprivileged _ mode _ perm])
      (simp_all add: example_flags example_frame example_open_env_def stock_permission_def example_inode_def IS_APPEND_def)
qed


end
