(* ===== verification/Acl_Format.thy ===== *)
theory Acl_Format
  imports Posix_Acl Commoncap
begin

text \<open>
  The two formats of an access control list outside memory: the one of the ext2 file system on
  disk (\<^verbatim>\<open>fs/ext2/acl.h\<close> and the first part of \<^verbatim>\<open>fs/ext2/acl.c\<close>), with a short form of the
  entries that name nobody, and the one of extended attributes (\<^verbatim>\<open>fs/xattr_acl.c\<close>,
  \<^verbatim>\<open>include/linux/posix_acl_xattr.h\<close>).  A value is the list of its bytes; a null pointer is \<^term>\<open>None\<close>.
  Shown here: valid lists and their images correspond one to one.
\<close>

section \<open>Little-endian fields\<close>

definition cpu_to_le16 :: "u16 \<Rightarrow> u8 list" where
  "cpu_to_le16 x = [ucast x, ucast (drop_bit 8 x)]"

definition cpu_to_le32 :: "u32 \<Rightarrow> u8 list" where
  "cpu_to_le32 x = [ucast x, ucast (drop_bit 8 x), ucast (drop_bit 16 x), ucast (drop_bit 24 x)]"

definition le16_at :: "u8 list \<Rightarrow> nat \<Rightarrow> u16" where
  "le16_at bs off = ucast (bs ! off) OR push_bit 8 (ucast (bs ! (off + 1)))"

section \<open>The format on disk\<close>

definition EXT2_ACL_VERSION :: u32 where "EXT2_ACL_VERSION = 1"

definition ext2_acl_size :: "nat \<Rightarrow> nat" where
  "ext2_acl_size n = (if n \<le> 4 then 4 + n * 4 else 4 + 4 * 4 + (n - 4) * 8)"

text \<open>The size includes the header, so it is at least 4.\<close>

definition ext2_acl_count :: "nat \<Rightarrow> int" where
  "ext2_acl_count size_in =
     (let sz = size_in - 4; s = int sz - 4 * 4
      in if s < 0 then (if sz mod 4 \<noteq> 0 then - 1 else int (sz div 4))
         else if s mod 8 \<noteq> 0 then - 1 else s div 8 + 4)"

text \<open>The cases of the two switches on the tag.\<close>

definition object_tag :: "u16 \<Rightarrow> bool" where
  "object_tag t \<longleftrightarrow> t = ACL_USER_OBJ \<or> t = ACL_GROUP_OBJ \<or> t = ACL_MASK \<or> t = ACL_OTHER"

definition named_tag :: "u16 \<Rightarrow> bool" where
  "named_tag t \<longleftrightarrow> t = ACL_USER \<or> t = ACL_GROUP"

text \<open>The loop of \<^verbatim>\<open>ext2_acl_from_disk\<close> on the bytes from \<^verbatim>\<open>value\<close> to \<^verbatim>\<open>end\<close>, with the test after it.\<close>

fun from_disk_loop :: "nat \<Rightarrow> u8 list \<Rightarrow> posix_acl result" where
  "from_disk_loop 0 value = (if value = [] then Inr [] else Inl EINVAL)"
| "from_disk_loop (Suc n) value =
     (if length value < 4 then Inl EINVAL
      else
        let tag = le16_at value 0; perm = le16_at value 2
        in if object_tag tag then
             (case from_disk_loop n (drop 4 value) of
                Inl e \<Rightarrow> Inl e
              | Inr acl \<Rightarrow> Inr (\<lparr>e_tag = tag, e_perm = perm, e_id = ACL_UNDEFINED_ID\<rparr> # acl))
           else if named_tag tag then
             (if length value < 8 then Inl EINVAL
              else case from_disk_loop n (drop 8 value) of
                Inl e \<Rightarrow> Inl e
              | Inr acl \<Rightarrow> Inr (\<lparr>e_tag = tag, e_perm = perm, e_id = le32_at value 4\<rparr> # acl))
           else Inl EINVAL)"

definition ext2_acl_from_disk :: "bool \<Rightarrow> u8 list option \<Rightarrow> posix_acl option result" where
  "ext2_acl_from_disk alloc_ok value =
     (case value of
        None \<Rightarrow> Inr None
      | Some bytes \<Rightarrow>
          if length bytes < 4 then Inl EINVAL
          else if le32_at bytes 0 \<noteq> EXT2_ACL_VERSION then Inl EINVAL
          else
            let n = ext2_acl_count (length bytes)
            in if n < 0 then Inl EINVAL
               else if n = 0 then Inr None
               else if \<not> alloc_ok then Inl ENOMEM
               else case from_disk_loop (nat n) (drop 4 bytes) of
                 Inl e \<Rightarrow> Inl e
               | Inr acl \<Rightarrow> Inr (Some acl))"

fun to_disk_loop :: "posix_acl \<Rightarrow> u8 list result" where
  "to_disk_loop [] = Inr []"
| "to_disk_loop (pa # acl) =
     (let field = cpu_to_le16 (e_tag pa) @ cpu_to_le16 (e_perm pa) @
            (if named_tag (e_tag pa) then cpu_to_le32 (e_id pa) else [])
      in if named_tag (e_tag pa) \<or> object_tag (e_tag pa) then
           (case to_disk_loop acl of Inl e \<Rightarrow> Inl e | Inr bytes \<Rightarrow> Inr (field @ bytes))
         else Inl EINVAL)"

text \<open>
  The result has the size that \<^verbatim>\<open>ext2_acl_size\<close> gives, whatever the loop has written into the
  buffer: \<^verbatim>\<open>fresh\<close> is what the allocated memory holds after the written part.
\<close>

definition ext2_acl_to_disk :: "bool \<Rightarrow> u8 list \<Rightarrow> posix_acl \<Rightarrow> u8 list result" where
  "ext2_acl_to_disk alloc_ok fresh acl =
     (if \<not> alloc_ok then Inl ENOMEM
      else case to_disk_loop acl of
        Inl e \<Rightarrow> Inl e
      | Inr bytes \<Rightarrow> Inr (take (ext2_acl_size (length acl)) (cpu_to_le32 EXT2_ACL_VERSION @ bytes @ fresh)))"

section \<open>The format of extended attributes\<close>

definition POSIX_ACL_XATTR_VERSION :: u32 where "POSIX_ACL_XATTR_VERSION = 2"

definition posix_acl_xattr_size :: "nat \<Rightarrow> nat" where
  "posix_acl_xattr_size n = 4 + n * 8"

definition posix_acl_xattr_count :: "nat \<Rightarrow> int" where
  "posix_acl_xattr_count sz =
     (if sz < 4 then - 1 else if (sz - 4) mod 8 \<noteq> 0 then - 1 else int ((sz - 4) div 8))"

text \<open>The loop over \<^verbatim>\<open>n\<close> entries, all of the same size.\<close>

fun from_xattr_loop :: "nat \<Rightarrow> u8 list \<Rightarrow> posix_acl result" where
  "from_xattr_loop 0 value = Inr []"
| "from_xattr_loop (Suc n) value =
     (let tag = le16_at value 0; perm = le16_at value 2
      in if object_tag tag \<or> named_tag tag then
           (case from_xattr_loop n (drop 8 value) of
              Inl e \<Rightarrow> Inl e
            | Inr acl \<Rightarrow> Inr (\<lparr>e_tag = tag, e_perm = perm,
                e_id = (if object_tag tag then ACL_UNDEFINED_ID else le32_at value 4)\<rparr> # acl))
         else Inl EINVAL)"

definition posix_acl_from_xattr :: "bool \<Rightarrow> u8 list option \<Rightarrow> posix_acl option result" where
  "posix_acl_from_xattr alloc_ok value =
     (case value of
        None \<Rightarrow> Inr None
      | Some bytes \<Rightarrow>
          if length bytes < 4 then Inl EINVAL
          else if le32_at bytes 0 \<noteq> POSIX_ACL_XATTR_VERSION then Inl EOPNOTSUPP
          else
            let n = posix_acl_xattr_count (length bytes)
            in if n < 0 then Inl EINVAL
               else if n = 0 then Inr None
               else if \<not> alloc_ok then Inl ENOMEM
               else case from_xattr_loop (nat n) (drop 4 bytes) of
                 Inl e \<Rightarrow> Inl e
               | Inr acl \<Rightarrow> Inr (Some acl))"

definition xattr_entry :: "posix_acl_entry \<Rightarrow> u8 list" where
  "xattr_entry pa = cpu_to_le16 (e_tag pa) @ cpu_to_le16 (e_perm pa) @ cpu_to_le32 (e_id pa)"

text \<open>The size returned and the bytes written; the buffer is given by its size or is null.\<close>

definition posix_acl_to_xattr :: "posix_acl \<Rightarrow> nat option \<Rightarrow> (nat \<times> u8 list) result" where
  "posix_acl_to_xattr acl buffer =
     (let real_size = posix_acl_xattr_size (length acl)
      in case buffer of
           None \<Rightarrow> Inr (real_size, [])
         | Some sz \<Rightarrow>
             if real_size > sz then Inl ERANGE
             else Inr (real_size, cpu_to_le32 POSIX_ACL_XATTR_VERSION @ concat (map xattr_entry acl)))"

section \<open>Fields round trip\<close>

lemma le_lengths [simp]: "length (cpu_to_le16 x) = 2" "length (cpu_to_le32 y) = 4"
  by (simp_all add: cpu_to_le16_def cpu_to_le32_def)

lemma bit_u8_less: "bit (b :: u8) n \<Longrightarrow> n < 8"
  using bit_imp_le_length [of b n] by simp

lemma bit_u8_high: "8 \<le> n \<Longrightarrow> \<not> bit (b :: u8) n"
  using bit_u8_less [of b n] by auto

lemma le16_at_encoded: "le16_at (cpu_to_le16 x @ rest) 0 = x"
  by (rule bit_word_eqI)
    (auto simp: le16_at_def cpu_to_le16_def bit_simps not_less le_add_diff_inverse2 dest: bit_u8_less)

lemma le16_at_append: "length xs = off \<Longrightarrow> le16_at (xs @ ys) off = le16_at ys 0"
  by (auto simp: le16_at_def nth_append)

lemma le32_at_encoded: "le32_at (cpu_to_le32 x @ rest) 0 = x"
proof (rule bit_word_eqI)
  fix n
  assume "n < LENGTH(32)"
  then show "bit (le32_at (cpu_to_le32 x @ rest) 0) n = bit x n"
    by (cases "24 \<le> n"; cases "16 \<le> n")
      (auto simp: le32_at_def cpu_to_le32_def bit_simps not_less dest: bit_u8_less)
qed

lemma le32_at_append: "length xs = off \<Longrightarrow> le32_at (xs @ ys) off = le32_at ys 0"
  by (auto simp: le32_at_def nth_append numeral_2_eq_2)

lemma cpu_to_le16_at: "cpu_to_le16 (le16_at bs off) = [bs ! off, bs ! (off + 1)]"
  by (auto simp: cpu_to_le16_def le16_at_def bit_simps bit_u8_high intro!: bit_word_eqI)

lemma cpu_to_le32_at: "cpu_to_le32 (le32_at bs off) = [bs ! off, bs ! (off + 1), bs ! (off + 2), bs ! (off + 3)]"
  by (auto simp: cpu_to_le32_def le32_at_def bit_simps bit_u8_high intro!: bit_word_eqI)

lemma drop_four: "4 \<le> length bs \<Longrightarrow> [bs ! 0, bs ! 1, bs ! 2, bs ! 3] @ drop 4 bs = bs"
  by (cases bs; cases "tl bs"; cases "tl (tl bs)"; cases "tl (tl (tl bs))") auto

lemma drop_eight:
  assumes "8 \<le> length bs"
  shows "[bs ! 0, bs ! 1, bs ! 2, bs ! 3] @ [bs ! 4, bs ! 5, bs ! 6, bs ! 7] @ drop 8 bs = bs"
  using assms drop_four [of bs] drop_four [of "drop 4 bs"] by simp

section \<open>Images\<close>

definition disk_entry :: "posix_acl_entry \<Rightarrow> u8 list" where
  "disk_entry pa = cpu_to_le16 (e_tag pa) @ cpu_to_le16 (e_perm pa) @
     (if named_tag (e_tag pa) then cpu_to_le32 (e_id pa) else [])"

definition disk_image :: "posix_acl \<Rightarrow> u8 list" where
  "disk_image acl = cpu_to_le32 EXT2_ACL_VERSION @ concat (map disk_entry acl)"

definition xattr_image :: "posix_acl \<Rightarrow> u8 list" where
  "xattr_image acl = cpu_to_le32 POSIX_ACL_XATTR_VERSION @ concat (map xattr_entry acl)"

text \<open>The entries that name nobody have no id.\<close>

definition plain_ids :: "posix_acl \<Rightarrow> bool" where
  "plain_ids acl \<longleftrightarrow> (\<forall>e \<in> set acl. object_tag (e_tag e) \<longrightarrow> e_id e = ACL_UNDEFINED_ID)"

lemma tag_kinds:
  "known_tag e \<longleftrightarrow> named_tag (e_tag e) \<or> object_tag (e_tag e)"
  "named_tag t \<Longrightarrow> \<not> object_tag t"
  by (auto simp: known_tag_def named_tag_def object_tag_def)

lemma to_disk_loop_known:
  "\<forall>e \<in> set acl. known_tag e \<Longrightarrow> to_disk_loop acl = Inr (concat (map disk_entry acl))"
  by (induction acl) (auto simp: tag_kinds disk_entry_def Let_def)

lemma from_disk_loop_image:
  "\<forall>e \<in> set acl. known_tag e \<Longrightarrow> plain_ids acl \<Longrightarrow>
   from_disk_loop (length acl) (concat (map disk_entry acl)) = Inr acl"
proof (induction acl)
  case Nil
  then show ?case by simp
next
  case (Cons e acl)
  let ?rest = "concat (map disk_entry acl)"
  have rec: "from_disk_loop (length acl) ?rest = Inr acl"
    using Cons by (simp add: plain_ids_def)
  have perm: "le16_at (cpu_to_le16 (e_tag e) @ cpu_to_le16 (e_perm e) @ r) 2 = e_perm e" for r
    using le16_at_append [of "cpu_to_le16 (e_tag e)" 2] le16_at_encoded by simp
  have i: "le32_at (cpu_to_le16 (e_tag e) @ cpu_to_le16 (e_perm e) @ cpu_to_le32 (e_id e) @ r) 4 = e_id e" for r
    using le32_at_append [of "cpu_to_le16 (e_tag e) @ cpu_to_le16 (e_perm e)" 4] le32_at_encoded by simp
  have "from_disk_loop (Suc (length acl)) (disk_entry e @ ?rest) = Inr (e # acl)"
    using Cons.prems
    by (auto simp: disk_entry_def [of e] Let_def le16_at_encoded perm i tag_kinds plain_ids_def rec)
  then show ?case by simp
qed

lemma from_disk_loop_inv:
  "from_disk_loop n bs = Inr acl \<Longrightarrow> to_disk_loop acl = Inr bs \<and> length acl = n \<and> plain_ids acl"
proof (induction n arbitrary: bs acl)
  case 0
  then show ?case by (auto simp: plain_ids_def split: if_splits)
next
  case (Suc n)
  let ?t = "le16_at bs 0"
  have len: "4 \<le> length bs" using Suc.prems by (auto split: if_splits)
  consider (plain) "object_tag ?t" | (named) "named_tag ?t" "\<not> object_tag ?t"
    using Suc.prems by (auto simp: Let_def split: if_splits)
  then show ?case
  proof cases
    case plain
    then obtain acl' where "from_disk_loop n (drop 4 bs) = Inr acl'"
      "acl = \<lparr>e_tag = ?t, e_perm = le16_at bs 2, e_id = ACL_UNDEFINED_ID\<rparr> # acl'"
      using Suc.prems len by (auto simp: Let_def split: if_splits sum.splits)
    then show ?thesis
      using Suc.IH [of "drop 4 bs" acl'] plain tag_kinds(2) [of ?t] drop_four [OF len]
      by (auto simp: Let_def cpu_to_le16_at plain_ids_def numeral_eq_Suc)
  next
    case named
    then obtain acl' where "from_disk_loop n (drop 8 bs) = Inr acl'" "8 \<le> length bs"
      "acl = \<lparr>e_tag = ?t, e_perm = le16_at bs 2, e_id = le32_at bs 4\<rparr> # acl'"
      using Suc.prems len by (auto simp: Let_def not_less split: if_splits sum.splits)
    then show ?thesis
      using Suc.IH [of "drop 8 bs" acl'] named drop_eight [of bs]
      by (auto simp: Let_def cpu_to_le16_at cpu_to_le32_at plain_ids_def numeral_eq_Suc)
  qed
qed

lemma count_of_size: "ext2_acl_count (ext2_acl_size n) = int n"
  by (cases "n = 4") (auto simp: ext2_acl_count_def ext2_acl_size_def Let_def)

lemma size_of_count:
  assumes "4 \<le> sz" "ext2_acl_count sz = int n"
  shows "ext2_acl_size n = sz"
proof -
  have "int (sz - 4) mod 8 = (int (sz - 4) - 16) mod 8" by presburger
  then show ?thesis
    using assms unfolding ext2_acl_count_def ext2_acl_size_def Let_def
    by (auto split: if_splits)
qed

lemma length_disk_entry: "length (disk_entry e) = (if named_tag (e_tag e) then 8 else 4)"
  by (simp add: disk_entry_def)

text \<open>A valid list has the four short entries that the size formula counts on, or has no long ones.\<close>

lemma valid_known: "posix_acl_valid acl = Inr () \<Longrightarrow> \<forall>e \<in> set acl. known_tag e"
  unfolding valid_shape using shape_known by blast

lemma length_entries_named:
  "named_entries t es \<Longrightarrow> named_tag t \<Longrightarrow> length (concat (map disk_entry es)) = 8 * length es"
  by (induction es) (auto simp: named_entries_def length_disk_entry)

lemma length_disk_image:
  assumes "posix_acl_valid acl = Inr ()"
  shows "length (disk_image acl) = ext2_acl_size (length acl)"
proof -
  obtain uo us go gs m ot where acl: "acl = uo # us @ go # gs @ m @ [ot]" and sh: "acl_shape uo us go gs m ot"
    using assms unfolding valid_shape by blast
  have "length (concat (map disk_entry us)) = 8 * length us" "length (concat (map disk_entry gs)) = 8 * length gs"
    using sh length_entries_named by (auto simp: acl_shape_def named_tag_def)
  then show ?thesis
    using sh unfolding acl
    by (auto simp: disk_image_def acl_shape_def plain_entry_def length_disk_entry named_tag_def ext2_acl_size_def)
qed

lemma to_disk_valid:
  "posix_acl_valid acl = Inr () \<Longrightarrow> ext2_acl_to_disk True fresh acl = Inr (disk_image acl)"
  using length_disk_image [of acl]
  by (simp add: ext2_acl_to_disk_def to_disk_loop_known valid_known disk_image_def)

lemma valid_not_empty: "posix_acl_valid acl = Inr () \<Longrightarrow> 0 < length acl"
  unfolding valid_shape by auto

lemma from_disk_valid:
  assumes "posix_acl_valid acl = Inr ()" "plain_ids acl"
  shows "ext2_acl_from_disk True (Some (disk_image acl)) = Inr (Some acl)"
proof -
  have "le32_at (disk_image acl) 0 = EXT2_ACL_VERSION" "4 \<le> length (disk_image acl)"
      "drop 4 (disk_image acl) = concat (map disk_entry acl)"
    by (simp_all add: disk_image_def le32_at_encoded)
  moreover have "ext2_acl_count (length (disk_image acl)) = int (length acl)"
    using length_disk_image [OF assms(1)] count_of_size by simp
  ultimately show ?thesis
    using from_disk_loop_image [OF valid_known [OF assms(1)] assms(2)] valid_not_empty [OF assms(1)]
    by (simp add: ext2_acl_from_disk_def)
qed

lemma from_disk_inv:
  assumes "ext2_acl_from_disk ok (Some bs) = Inr (Some acl)"
  shows "ext2_acl_to_disk True fresh acl = Inr bs" "plain_ids acl"
proof -
  have h: "4 \<le> length bs" "le32_at bs 0 = EXT2_ACL_VERSION" "0 \<le> ext2_acl_count (length bs)"
      "from_disk_loop (nat (ext2_acl_count (length bs))) (drop 4 bs) = Inr acl"
    using assms by (auto simp: ext2_acl_from_disk_def Let_def split: if_splits sum.splits)
  then have r: "to_disk_loop acl = Inr (drop 4 bs)" "ext2_acl_count (length bs) = int (length acl)" "plain_ids acl"
    using from_disk_loop_inv by fastforce+
  moreover have "cpu_to_le32 EXT2_ACL_VERSION = [bs ! 0, bs ! 1, bs ! 2, bs ! 3]"
    using cpu_to_le32_at [of bs 0] h(2) by (simp add: numeral_2_eq_2)
  ultimately show "ext2_acl_to_disk True fresh acl = Inr bs"
    using drop_four [OF h(1)] size_of_count [OF h(1) r(2)]
    by (simp add: ext2_acl_to_disk_def) (metis append_Cons append_Nil append_assoc append_eq_conv_conj)
  show "plain_ids acl" by fact
qed

section \<open>Attributes\<close>

lemma length_xattr_entries: "length (concat (map xattr_entry acl)) = 8 * length acl"
  by (induction acl) (auto simp: xattr_entry_def)

lemma from_xattr_loop_image:
  "\<forall>e \<in> set acl. known_tag e \<Longrightarrow> plain_ids acl \<Longrightarrow>
   from_xattr_loop (length acl) (concat (map xattr_entry acl)) = Inr acl"
proof (induction acl)
  case Nil
  then show ?case by simp
next
  case (Cons e acl)
  let ?rest = "concat (map xattr_entry acl)"
  have rec: "from_xattr_loop (length acl) ?rest = Inr acl"
    using Cons by (simp add: plain_ids_def)
  have perm: "le16_at (cpu_to_le16 (e_tag e) @ cpu_to_le16 (e_perm e) @ r) 2 = e_perm e" for r
    using le16_at_append [of "cpu_to_le16 (e_tag e)" 2] le16_at_encoded by simp
  have i: "le32_at (cpu_to_le16 (e_tag e) @ cpu_to_le16 (e_perm e) @ cpu_to_le32 (e_id e) @ r) 4 = e_id e" for r
    using le32_at_append [of "cpu_to_le16 (e_tag e) @ cpu_to_le16 (e_perm e)" 4] le32_at_encoded by simp
  have "from_xattr_loop (Suc (length acl)) (xattr_entry e @ ?rest) = Inr (e # acl)"
    using Cons.prems
    by (auto simp: xattr_entry_def [of e] Let_def le16_at_encoded perm i tag_kinds plain_ids_def rec)
  then show ?case by simp
qed

lemma from_xattr_loop_ids: "from_xattr_loop n bs = Inr acl \<Longrightarrow> plain_ids acl"
proof (induction n arbitrary: bs acl)
  case 0
  then show ?case by (simp add: plain_ids_def)
next
  case (Suc n)
  then obtain acl' where "from_xattr_loop n (drop 8 bs) = Inr acl'" "tl acl = acl'"
      "hd acl = \<lparr>e_tag = le16_at bs 0, e_perm = le16_at bs 2,
         e_id = (if object_tag (le16_at bs 0) then ACL_UNDEFINED_ID else le32_at bs 4)\<rparr>" "acl \<noteq> []"
    by (auto simp: Let_def split: if_splits sum.splits)
  then show ?case
    using Suc.IH [of "drop 8 bs" acl'] by (cases acl) (auto simp: plain_ids_def)
qed

lemma from_xattr_ids: "posix_acl_from_xattr ok v = Inr (Some acl) \<Longrightarrow> plain_ids acl"
  by (auto simp: posix_acl_from_xattr_def Let_def split: option.splits if_splits sum.splits
      dest: from_xattr_loop_ids)

lemma xattr_roundtrip:
  assumes "posix_acl_valid acl = Inr ()" "plain_ids acl"
  shows "posix_acl_to_xattr acl (Some (posix_acl_xattr_size (length acl))) =
      Inr (length (xattr_image acl), xattr_image acl)"
    and "posix_acl_from_xattr True (Some (xattr_image acl)) = Inr (Some acl)"
proof -
  have h: "le32_at (xattr_image acl) 0 = POSIX_ACL_XATTR_VERSION" "length (xattr_image acl) = 4 + 8 * length acl"
      "drop 4 (xattr_image acl) = concat (map xattr_entry acl)"
    by (simp_all add: xattr_image_def le32_at_encoded length_xattr_entries)
  show "posix_acl_to_xattr acl (Some (posix_acl_xattr_size (length acl))) =
      Inr (length (xattr_image acl), xattr_image acl)"
    using h(2) by (simp add: posix_acl_to_xattr_def posix_acl_xattr_size_def xattr_image_def Let_def)
  show "posix_acl_from_xattr True (Some (xattr_image acl)) = Inr (Some acl)"
    using h from_xattr_loop_image [OF valid_known [OF assms(1)] assms(2)] valid_not_empty [OF assms(1)]
    by (simp add: posix_acl_from_xattr_def posix_acl_xattr_count_def)
qed

section \<open>Correctness of the formats\<close>

text \<open>C17: A valid ACL has exactly one image on disk: writing it gives that image whatever the buffer held
  before, the image has the size computed from the number of entries alone, reading it gives the ACL
  back, and no other bytes read as this ACL.  The attribute made of it for a program also reads
  back as the same ACL.\<close>

theorem acl_formats_roundtrip:
  assumes "posix_acl_valid acl = Inr ()" "plain_ids acl"
  shows "\<exists>image attr.
    (\<forall>fresh. ext2_acl_to_disk True fresh acl = Inr image) \<and>
    length image = ext2_acl_size (length acl) \<and>
    ext2_acl_from_disk True (Some image) = Inr (Some acl) \<and>
    (\<forall>ok bytes. ext2_acl_from_disk ok (Some bytes) = Inr (Some acl) \<longrightarrow> bytes = image) \<and>
    posix_acl_to_xattr acl (Some (posix_acl_xattr_size (length acl))) = Inr (length attr, attr) \<and>
    posix_acl_from_xattr True (Some attr) = Inr (Some acl)"
proof (intro exI conjI allI impI)
  show "ext2_acl_to_disk True fresh acl = Inr (disk_image acl)" for fresh
    using assms(1) by (rule to_disk_valid)
  show "bytes = disk_image acl" if "ext2_acl_from_disk ok (Some bytes) = Inr (Some acl)" for ok bytes
    using from_disk_inv(1) [OF that, of "[]"] to_disk_valid [OF assms(1), of "[]"] by simp
qed (use assms length_disk_image from_disk_valid xattr_roundtrip in auto)

theorem acl_formats_roundtrip_witness:
  "\<exists>image. ext2_acl_to_disk True [] example_acl = Inr image \<and> length image = 36 \<and>
     ext2_acl_from_disk True (Some image) = Inr (Some example_acl)"
proof -
  have "plain_ids example_acl" "ext2_acl_size (length example_acl) = 36"
    by code_simp+
  then show ?thesis
    using acl_formats_roundtrip [OF example_acl_valid] by auto
qed

end
