(* ===== verification/Ext2_Acl.thy ===== *)
theory Ext2_Acl
  imports Open_Spec Acl_Format
begin

text \<open>
  The access control lists of an ext2 inode: the rest of \<^verbatim>\<open>fs/ext2/acl.c\<close> and \<^verbatim>\<open>ext2_setattr\<close> of
  \<^verbatim>\<open>fs/ext2/inode.c\<close>.  An inode has an access and a default ACL, each stored as an extended attribute and kept in
  memory once it has been read.  The code of extended attributes is not modelled: the stored values are
  part of the state, and the errors of reading and writing them, as those of allocations, are arguments.
  Shown here: mode and ACL stay in step through every sequence of calls in which no write to the
  disk fails, so that permission checks follow the ACL, and what a failing write leaves behind.
\<close>

section \<open>State\<close>

text \<open>The cached pointer: \<^verbatim>\<open>EXT2_ACL_NOT_CACHED\<close>, or the ACL, which may be absent.\<close>

datatype acl_cache = EXT2_ACL_NOT_CACHED | Cached "posix_acl option"

record ext2_inode =
  vfs_inode :: inode
  i_acl :: acl_cache
  i_default_acl :: acl_cache
  xattr_access :: "u8 list option"
  xattr_default :: "u8 list option"
  opt_posix_acl :: bool

definition ACL_TYPE_ACCESS :: u16 where "ACL_TYPE_ACCESS = 0x8000"
definition ACL_TYPE_DEFAULT :: u16 where "ACL_TYPE_DEFAULT = 0x4000"

text \<open>
  What happens in the calls to other parts of the kernel: errors of reading the size and the value of an attribute and
  of writing it, success of the allocations, and the old contents of the buffer for the disk format.
\<close>

record acl_io =
  io_size :: "errno option"
  io_read :: "errno option"
  io_set :: "errno option"
  io_value :: bool
  io_acl :: bool
  io_clone :: bool
  io_disk :: bool
  io_fresh :: "u8 list"

definition stored_xattr :: "u16 \<Rightarrow> ext2_inode \<Rightarrow> u8 list option" where
  "stored_xattr type e = (if type = ACL_TYPE_ACCESS then xattr_access e else xattr_default e)"

definition ext2_xattr_get :: "errno option \<Rightarrow> u16 \<Rightarrow> ext2_inode \<Rightarrow> u8 list result" where
  "ext2_xattr_get err type e =
     (case err of
        Some er \<Rightarrow> Inl er
      | None \<Rightarrow> case stored_xattr type e of None \<Rightarrow> Inl ENODATA | Some v \<Rightarrow> Inr v)"

definition ext2_xattr_set ::
  "errno option \<Rightarrow> u16 \<Rightarrow> u8 list option \<Rightarrow> ext2_inode \<Rightarrow> unit result \<times> ext2_inode" where
  "ext2_xattr_set err type value e =
     (case err of
        Some er \<Rightarrow> (Inl er, e)
      | None \<Rightarrow> (Inr (), if type = ACL_TYPE_ACCESS then e\<lparr>xattr_access := value\<rparr> else e\<lparr>xattr_default := value\<rparr>))"

definition ext2_iget_acl :: "u16 \<Rightarrow> ext2_inode \<Rightarrow> acl_cache" where
  "ext2_iget_acl type e = (if type = ACL_TYPE_ACCESS then i_acl e else i_default_acl e)"

definition ext2_iset_acl :: "u16 \<Rightarrow> posix_acl option \<Rightarrow> ext2_inode \<Rightarrow> ext2_inode" where
  "ext2_iset_acl type acl e =
     (if type = ACL_TYPE_ACCESS then e\<lparr>i_acl := Cached acl\<rparr> else e\<lparr>i_default_acl := Cached acl\<rparr>)"

abbreviation ext2_mode :: "ext2_inode \<Rightarrow> mode_t" where
  "ext2_mode e \<equiv> i_mode (vfs_inode e)"

definition set_mode :: "mode_t \<Rightarrow> ext2_inode \<Rightarrow> ext2_inode" where
  "set_mode mode e = e\<lparr>vfs_inode := (vfs_inode e)\<lparr>i_mode := mode\<rparr>\<rparr>"

section \<open>Reading and writing an ACL\<close>

text \<open>The part of \<^verbatim>\<open>ext2_get_acl\<close> that reads the attribute; a value of length zero gives no ACL.\<close>

definition read_acl :: "acl_io \<Rightarrow> u16 \<Rightarrow> ext2_inode \<Rightarrow> posix_acl option result" where
  "read_acl io type e =
     (let retval =
        (case ext2_xattr_get (io_size io) type e of
           Inl er \<Rightarrow> Inl er
         | Inr v \<Rightarrow>
             if v = [] then Inr []
             else if \<not> io_value io then Inl ENOMEM
             else ext2_xattr_get (io_read io) type e)
      in case retval of
           Inl er \<Rightarrow> if er = ENODATA \<or> er = ENOSYS then Inr None else Inl er
         | Inr v \<Rightarrow> if v = [] then Inr None else ext2_acl_from_disk (io_acl io) (Some v))"

definition ext2_get_acl :: "acl_io \<Rightarrow> u16 \<Rightarrow> ext2_inode \<Rightarrow> posix_acl option result \<times> ext2_inode" where
  "ext2_get_acl io type e =
     (if \<not> opt_posix_acl e then (Inr None, e)
      else if type \<noteq> ACL_TYPE_ACCESS \<and> type \<noteq> ACL_TYPE_DEFAULT then (Inl EINVAL, e)
      else
        case ext2_iget_acl type e of
          Cached acl \<Rightarrow> (Inr acl, e)
        | EXT2_ACL_NOT_CACHED \<Rightarrow>
            (case read_acl io type e of
               Inl er \<Rightarrow> (Inl er, e)
             | Inr acl \<Rightarrow> (Inr acl, ext2_iset_acl type acl e)))"

text \<open>The part of \<^verbatim>\<open>ext2_set_acl\<close> after the switch: the value is made, written and cached.\<close>

definition store_acl :: "acl_io \<Rightarrow> u16 \<Rightarrow> posix_acl option \<Rightarrow> ext2_inode \<Rightarrow> unit result \<times> ext2_inode" where
  "store_acl io type acl e =
     (case (case acl of
              None \<Rightarrow> Inr None
            | Some a \<Rightarrow> (case ext2_acl_to_disk (io_disk io) (io_fresh io) a of Inl er \<Rightarrow> Inl er | Inr v \<Rightarrow> Inr (Some v))) of
        Inl er \<Rightarrow> (Inl er, e)
      | Inr value \<Rightarrow>
          (case ext2_xattr_set (io_set io) type value e of
             (Inl er, e1) \<Rightarrow> (Inl er, e1)
           | (Inr _, e1) \<Rightarrow> (Inr (), ext2_iset_acl type acl e1)))"

definition ext2_set_acl :: "acl_io \<Rightarrow> u16 \<Rightarrow> posix_acl option \<Rightarrow> ext2_inode \<Rightarrow> unit result \<times> ext2_inode" where
  "ext2_set_acl io type acl e =
     (if S_ISLNK (ext2_mode e) then (Inl EOPNOTSUPP, e)
      else if \<not> opt_posix_acl e then (Inr (), e)
      else if type = ACL_TYPE_ACCESS then
        (case acl of
           None \<Rightarrow> store_acl io type None e
         | Some a \<Rightarrow>
             (case posix_acl_equiv_mode a (ext2_mode e) of
                Inl er \<Rightarrow> (Inl er, e)
              | Inr (not_equiv, mode) \<Rightarrow> store_acl io type (if not_equiv then acl else None) (set_mode mode e)))
      else if type = ACL_TYPE_DEFAULT then
        (if \<not> S_ISDIR (ext2_mode e) then (if acl = None then Inr () else Inl EACCES, e)
         else store_acl io type acl e)
      else (Inl EINVAL, e))"

text \<open>\<^verbatim>\<open>ext2_permission\<close> with the ACL that \<^verbatim>\<open>ext2_check_acl\<close> gets.\<close>

definition ext2_inode_permission ::
  "security_operations \<Rightarrow> acl_io \<Rightarrow> kernel \<Rightarrow> ext2_inode \<Rightarrow> u32 \<Rightarrow> unit result \<times> kernel" where
  "ext2_inode_permission ops io k e msk =
     ext2_permission ops (fst (ext2_get_acl io ACL_TYPE_ACCESS e)) k (vfs_inode e) msk"

section \<open>New inodes and changes of the mode\<close>

text \<open>The three arguments for the outcomes belong to the reading of the default ACL of the
  directory and the writing of the two ACLs of the new inode.\<close>

definition ext2_init_acl ::
  "acl_io \<Rightarrow> acl_io \<Rightarrow> acl_io \<Rightarrow> mode_t \<Rightarrow> ext2_inode \<Rightarrow> ext2_inode \<Rightarrow> unit result \<times> ext2_inode \<times> ext2_inode" where
  "ext2_init_acl io_dir io_default io_access umask e dir =
     (let (got, dir1) =
        (if \<not> S_ISLNK (ext2_mode e) \<and> opt_posix_acl dir then ext2_get_acl io_dir ACL_TYPE_DEFAULT dir
         else (Inr None, dir))
      in case got of
           Inl er \<Rightarrow> (Inl er, e, dir1)
         | Inr acl \<Rightarrow>
             let e1 = (if \<not> S_ISLNK (ext2_mode e) \<and> acl = None then set_mode (ext2_mode e AND NOT umask) e else e)
             in case (if opt_posix_acl e1 then acl else None) of
                  None \<Rightarrow> (Inr (), e1, dir1)
                | Some a \<Rightarrow>
                    (case (if S_ISDIR (ext2_mode e1) then ext2_set_acl io_default ACL_TYPE_DEFAULT acl e1
                           else (Inr (), e1)) of
                       (Inl er, e2) \<Rightarrow> (Inl er, e2, dir1)
                     | (Inr _, e2) \<Rightarrow>
                         if \<not> io_clone io_access then (Inl ENOMEM, e2, dir1)
                         else
                           case posix_acl_create_masq a (ext2_mode e2) of
                             Inl er \<Rightarrow> (Inl er, e2, dir1)
                           | Inr (extended, clone, mode) \<Rightarrow>
                               if extended
                               then let (r, e3) = ext2_set_acl io_access ACL_TYPE_ACCESS (Some clone) (set_mode mode e2)
                                    in (r, e3, dir1)
                               else (Inr (), set_mode mode e2, dir1)))"

definition ext2_acl_chmod :: "acl_io \<Rightarrow> ext2_inode \<Rightarrow> unit result \<times> ext2_inode" where
  "ext2_acl_chmod io e =
     (if \<not> opt_posix_acl e then (Inr (), e)
      else if S_ISLNK (ext2_mode e) then (Inl EOPNOTSUPP, e)
      else
        case ext2_get_acl io ACL_TYPE_ACCESS e of
          (Inl er, e1) \<Rightarrow> (Inl er, e1)
        | (Inr None, e1) \<Rightarrow> (Inr (), e1)
        | (Inr (Some acl), e1) \<Rightarrow>
            if \<not> io_clone io then (Inl ENOMEM, e1)
            else
              case posix_acl_chmod_masq acl (ext2_mode e1) of
                Inl er \<Rightarrow> (Inl er, e1)
              | Inr clone \<Rightarrow> ext2_set_acl io ACL_TYPE_ACCESS (Some clone) e1)"

definition ext2_setattr ::
  "attr_env \<Rightarrow> security_operations \<Rightarrow> acl_io \<Rightarrow> kernel \<Rightarrow> ext2_inode \<Rightarrow> iattr \<Rightarrow> unit result \<times> ext2_inode \<times> kernel" where
  "ext2_setattr env ops io k e attr0 =
     (case inode_change_ok ops k (vfs_inode e) attr0 of
        (Inl er, k1) \<Rightarrow> (Inl er, e, k1)
      | (Inr attr, k1) \<Rightarrow>
        if (asks attr ATTR_UID \<and> ia_uid attr \<noteq> i_uid (vfs_inode e) \<or>
            asks attr ATTR_GID \<and> ia_gid attr \<noteq> i_gid (vfs_inode e)) \<and> vfs_dq_transfer (vfs_inode e) attr
        then (Inl EDQUOT, e, k1)
        else
          let (r, inode1, k2) = inode_setattr env ops k1 (vfs_inode e) attr;
              e1 = e\<lparr>vfs_inode := inode1\<rparr>
          in if r = Inr () \<and> asks attr ATTR_MODE
             then let (r2, e2) = ext2_acl_chmod io e1 in (r2, e2, k2)
             else (r, e1, k2))"

section \<open>The attributes seen by programs\<close>

definition ext2_xattr_get_acl :: "acl_io \<Rightarrow> u16 \<Rightarrow> nat option \<Rightarrow> ext2_inode \<Rightarrow> (nat \<times> u8 list) result \<times> ext2_inode" where
  "ext2_xattr_get_acl io type buffer e =
     (if \<not> opt_posix_acl e then (Inl EOPNOTSUPP, e)
      else
        case ext2_get_acl io type e of
          (Inl er, e1) \<Rightarrow> (Inl er, e1)
        | (Inr None, e1) \<Rightarrow> (Inl ENODATA, e1)
        | (Inr (Some acl), e1) \<Rightarrow> (posix_acl_to_xattr acl buffer, e1))"

definition ext2_xattr_set_acl ::
  "security_operations \<Rightarrow> acl_io \<Rightarrow> kernel \<Rightarrow> u16 \<Rightarrow> u8 list option \<Rightarrow> ext2_inode
     \<Rightarrow> unit result \<times> ext2_inode \<times> kernel" where
  "ext2_xattr_set_acl ops io k type value e =
     (if \<not> opt_posix_acl e then (Inl EOPNOTSUPP, e, k)
      else
        let (owner, k1) = is_owner_or_cap ops k (vfs_inode e)
        in if \<not> owner then (Inl EPERM, e, k1)
           else
             case posix_acl_from_xattr (io_acl io) value of
               Inl er \<Rightarrow> (Inl er, e, k1)
             | Inr acl \<Rightarrow>
                 case (case acl of None \<Rightarrow> Inr () | Some a \<Rightarrow> posix_acl_valid a) of
                   Inl er \<Rightarrow> (Inl er, e, k1)
                 | Inr _ \<Rightarrow> let (r, e1) = ext2_set_acl io type acl e in (r, e1, k1))"

text \<open>The handlers of the two attributes: the name after the prefix must be empty.\<close>

definition ext2_xattr_get_acl_access ::
  "acl_io \<Rightarrow> string \<Rightarrow> nat option \<Rightarrow> ext2_inode \<Rightarrow> (nat \<times> u8 list) result \<times> ext2_inode" where
  "ext2_xattr_get_acl_access io name buffer e =
     (if name \<noteq> [] then (Inl EINVAL, e) else ext2_xattr_get_acl io ACL_TYPE_ACCESS buffer e)"

definition ext2_xattr_get_acl_default ::
  "acl_io \<Rightarrow> string \<Rightarrow> nat option \<Rightarrow> ext2_inode \<Rightarrow> (nat \<times> u8 list) result \<times> ext2_inode" where
  "ext2_xattr_get_acl_default io name buffer e =
     (if name \<noteq> [] then (Inl EINVAL, e) else ext2_xattr_get_acl io ACL_TYPE_DEFAULT buffer e)"

definition ext2_xattr_set_acl_access ::
  "security_operations \<Rightarrow> acl_io \<Rightarrow> kernel \<Rightarrow> string \<Rightarrow> u8 list option \<Rightarrow> ext2_inode
     \<Rightarrow> unit result \<times> ext2_inode \<times> kernel" where
  "ext2_xattr_set_acl_access ops io k name value e =
     (if name \<noteq> [] then (Inl EINVAL, e, k) else ext2_xattr_set_acl ops io k ACL_TYPE_ACCESS value e)"

definition ext2_xattr_set_acl_default ::
  "security_operations \<Rightarrow> acl_io \<Rightarrow> kernel \<Rightarrow> string \<Rightarrow> u8 list option \<Rightarrow> ext2_inode
     \<Rightarrow> unit result \<times> ext2_inode \<times> kernel" where
  "ext2_xattr_set_acl_default ops io k name value e =
     (if name \<noteq> [] then (Inl EINVAL, e, k) else ext2_xattr_set_acl ops io k ACL_TYPE_DEFAULT value e)"

text \<open>The size of a name in a listing, with its terminating zero, and the name if it fits; the list may be null.\<close>

definition list_acl_name :: "string \<Rightarrow> nat option \<Rightarrow> ext2_inode \<Rightarrow> nat \<times> string" where
  "list_acl_name name list_size e =
     (let sz = length name + 1
      in if \<not> opt_posix_acl e then (0, [])
         else case list_size of
           None \<Rightarrow> (sz, [])
         | Some room \<Rightarrow> (sz, if sz \<le> room then name else []))"

definition ext2_xattr_list_acl_access :: "nat option \<Rightarrow> ext2_inode \<Rightarrow> nat \<times> string" where
  "ext2_xattr_list_acl_access = list_acl_name ''system.posix_acl_access''"

definition ext2_xattr_list_acl_default :: "nat option \<Rightarrow> ext2_inode \<Rightarrow> nat \<times> string" where
  "ext2_xattr_list_acl_default = list_acl_name ''system.posix_acl_default''"

section \<open>What an inode stores\<close>

definition acl_wf :: "posix_acl option \<Rightarrow> bool" where
  "acl_wf acl \<longleftrightarrow> (\<forall>a. acl = Some a \<longrightarrow> posix_acl_valid a = Inr () \<and> plain_ids a)"

text \<open>The disk holds the two ACLs, and what is cached is what the disk holds.\<close>

definition ext2_holds :: "posix_acl option \<Rightarrow> posix_acl option \<Rightarrow> ext2_inode \<Rightarrow> bool" where
  "ext2_holds acl dflt e \<longleftrightarrow>
     opt_posix_acl e \<and> IS_POSIXACL (vfs_inode e) \<and> acl_wf acl \<and> acl_wf dflt \<and>
     xattr_access e = map_option disk_image acl \<and> xattr_default e = map_option disk_image dflt \<and>
     i_acl e \<in> {EXT2_ACL_NOT_CACHED, Cached acl} \<and> i_default_acl e \<in> {EXT2_ACL_NOT_CACHED, Cached dflt}"

text \<open>The access ACL says the same as the mode; a symbolic link has none.\<close>

definition in_step :: "posix_acl option \<Rightarrow> ext2_inode \<Rightarrow> bool" where
  "in_step acl e \<longleftrightarrow> (\<forall>a. acl = Some a \<longrightarrow> acl_in_step a (ext2_mode e) \<and> \<not> S_ISLNK (ext2_mode e))"

definition ext2_good :: "ext2_inode \<Rightarrow> bool" where
  "ext2_good e \<longleftrightarrow> (\<exists>acl dflt. ext2_holds acl dflt e \<and> in_step acl e)"

lemma goodI: "ext2_holds acl dflt e \<Longrightarrow> in_step acl e \<Longrightarrow> ext2_good e"
  by (auto simp: ext2_good_def)

lemma in_step_None [simp]: "in_step None e"
  by (simp add: in_step_def)

lemma in_step_cong: "vfs_inode e' = vfs_inode e \<Longrightarrow> in_step acl e' = in_step acl e"
  by (simp add: in_step_def)

text \<open>Reads that do not claim that an attribute is absent or unknown when it is there, and calls in which nothing fails.\<close>

definition io_honest :: "acl_io \<Rightarrow> bool" where
  "io_honest io \<longleftrightarrow> io_size io \<notin> {Some ENODATA, Some ENOSYS} \<and> io_read io \<notin> {Some ENODATA, Some ENOSYS}"

definition io_ok :: "acl_io \<Rightarrow> bool" where
  "io_ok io \<longleftrightarrow> io_size io = None \<and> io_read io = None \<and> io_set io = None \<and>
     io_value io \<and> io_acl io \<and> io_clone io \<and> io_disk io"

lemma io_ok_honest: "io_ok io \<Longrightarrow> io_honest io"
  by (simp add: io_ok_def io_honest_def)

lemma acl_types_distinct [simp]: "ACL_TYPE_ACCESS \<noteq> ACL_TYPE_DEFAULT" "ACL_TYPE_DEFAULT \<noteq> ACL_TYPE_ACCESS"
  by (simp_all add: ACL_TYPE_ACCESS_def ACL_TYPE_DEFAULT_def)

lemma set_mode_frame [simp]:
  "ext2_mode (set_mode m e) = m" "opt_posix_acl (set_mode m e) = opt_posix_acl e"
  "i_acl (set_mode m e) = i_acl e" "i_default_acl (set_mode m e) = i_default_acl e"
  "xattr_access (set_mode m e) = xattr_access e" "xattr_default (set_mode m e) = xattr_default e"
  "IS_POSIXACL (vfs_inode (set_mode m e)) = IS_POSIXACL (vfs_inode e)"
  by (simp_all add: set_mode_def IS_POSIXACL_def)

lemma holds_set_mode [simp]: "ext2_holds acl dflt (set_mode m e) = ext2_holds acl dflt e"
  by (simp add: ext2_holds_def)

lemma holds_opt: "ext2_holds acl dflt e \<Longrightarrow> opt_posix_acl e" "ext2_holds acl dflt e \<Longrightarrow> IS_POSIXACL (vfs_inode e)"
  and holds_wf: "ext2_holds acl dflt e \<Longrightarrow> acl_wf acl" "ext2_holds acl dflt e \<Longrightarrow> acl_wf dflt"
  by (simp_all add: ext2_holds_def)

text \<open>The ACL of one of the two types.\<close>

definition of_type :: "u16 \<Rightarrow> posix_acl option \<Rightarrow> posix_acl option \<Rightarrow> posix_acl option" where
  "of_type type acl dflt = (if type = ACL_TYPE_ACCESS then acl else dflt)"

lemma image_not_empty [simp]: "disk_image a \<noteq> []"
  by (simp add: disk_image_def cpu_to_le32_def)

lemma from_disk_image:
  assumes "posix_acl_valid a = Inr ()" "plain_ids a"
  shows "ext2_acl_from_disk ok (Some (disk_image a)) = (if ok then Inr (Some a) else Inl ENOMEM)"
  using from_disk_valid [OF assms] by (cases ok) (auto simp: ext2_acl_from_disk_def Let_def split: if_splits sum.splits)

lemma read_acl_holds:
  assumes "ext2_holds acl dflt e" "io_honest io"
  shows "read_acl io type e = Inr (of_type type acl dflt) \<or> (\<exists>er. read_acl io type e = Inl er)"
    and "io_ok io \<Longrightarrow> read_acl io type e = Inr (of_type type acl dflt)"
proof -
  let ?a = "of_type type acl dflt"
  have st: "stored_xattr type e = map_option disk_image ?a" and wf: "acl_wf ?a"
    using assms(1) by (auto simp: ext2_holds_def stored_xattr_def of_type_def)
  show "read_acl io type e = Inr ?a \<or> (\<exists>er. read_acl io type e = Inl er)"
    using st wf assms(2)
    by (cases ?a; cases "io_size io"; cases "io_read io")
      (auto simp: read_acl_def ext2_xattr_get_def io_honest_def acl_wf_def from_disk_image Let_def)
  show "read_acl io type e = Inr ?a" if "io_ok io"
    using st wf that
    by (cases ?a) (auto simp: read_acl_def ext2_xattr_get_def io_ok_def acl_wf_def from_disk_image Let_def)
qed

lemma iset_holds:
  "ext2_holds acl dflt e \<Longrightarrow> type \<in> {ACL_TYPE_ACCESS, ACL_TYPE_DEFAULT} \<Longrightarrow>
   ext2_holds acl dflt (ext2_iset_acl type (of_type type acl dflt) e)"
  by (auto simp: ext2_holds_def ext2_iset_acl_def of_type_def)

lemma iset_frame [simp]: "vfs_inode (ext2_iset_acl type acl e) = vfs_inode e"
  by (simp add: ext2_iset_acl_def)

lemma iget_holds:
  "ext2_holds acl dflt e \<Longrightarrow> ext2_iget_acl type e = EXT2_ACL_NOT_CACHED \<or> ext2_iget_acl type e = Cached (of_type type acl dflt)"
  by (auto simp: ext2_holds_def ext2_iget_acl_def of_type_def)

text \<open>Getting an ACL gives the stored one or an error, and changes at most the cache.\<close>

lemma get_acl_holds:
  assumes "ext2_holds acl dflt e" "io_honest io" "ext2_get_acl io type e = (r, e')"
  shows "ext2_holds acl dflt e' \<and> vfs_inode e' = vfs_inode e \<and>
    (r = Inr (of_type type acl dflt) \<or> (\<exists>er. r = Inl er))"
  using read_acl_holds(1) [OF assms(1,2), of type]
proof (elim disjE exE)
  assume "read_acl io type e = Inr (of_type type acl dflt)"
  then show ?thesis
    using assms(1,3) iget_holds [OF assms(1), of type] iset_holds [OF assms(1), of type]
    by (auto simp: ext2_get_acl_def holds_opt split: if_splits)
next
  fix er
  assume er: "read_acl io type e = Inl er"
  have "ext2_get_acl io type e = (Inl EINVAL, e) \<or> ext2_get_acl io type e = (Inl er, e) \<or>
      ext2_get_acl io type e = (Inr (of_type type acl dflt), e)"
    using er iget_holds [OF assms(1), of type] holds_opt [OF assms(1)] by (auto simp: ext2_get_acl_def)
  then show ?thesis
    using assms(1,3) by fastforce
qed

lemma get_acl_ok:
  assumes "ext2_holds acl dflt e" "io_ok io" "type \<in> {ACL_TYPE_ACCESS, ACL_TYPE_DEFAULT}"
  shows "\<exists>e'. ext2_get_acl io type e = (Inr (of_type type acl dflt), e') \<and> ext2_holds acl dflt e' \<and>
    vfs_inode e' = vfs_inode e"
  using iget_holds [OF assms(1), of type] read_acl_holds(2) [OF assms(1) io_ok_honest [OF assms(2)] assms(2), of type]
    assms iset_holds [OF assms(1), of type]
  by (auto simp: ext2_get_acl_def holds_opt)

lemma store_acl_holds:
  assumes "ext2_holds acl dflt e" "io_ok io" "acl_wf new" "type \<in> {ACL_TYPE_ACCESS, ACL_TYPE_DEFAULT}"
  shows "\<exists>e'. store_acl io type new e = (Inr (), e') \<and> vfs_inode e' = vfs_inode e \<and>
    ext2_holds (if type = ACL_TYPE_ACCESS then new else acl) (if type = ACL_TYPE_ACCESS then dflt else new) e'"
proof -
  have "(case new of None \<Rightarrow> Inr None
      | Some a \<Rightarrow> (case ext2_acl_to_disk (io_disk io) (io_fresh io) a of Inl er \<Rightarrow> Inl er | Inr v \<Rightarrow> Inr (Some v))) =
      Inr (map_option disk_image new)"
    using assms(2,3) by (cases new) (auto simp: acl_wf_def io_ok_def to_disk_valid)
  then show ?thesis
    using assms
    by (auto simp: store_acl_def ext2_xattr_set_def io_ok_def ext2_holds_def ext2_iset_acl_def)
qed

section \<open>Operations keep mode and ACL in step\<close>

lemma S_IFMT_bits: "bit S_IFMT n \<longleftrightarrow> 12 \<le> n \<and> n < 16"
proof -
  have eq: "S_IFMT = push_bit 12 (mask 4)"
    by (simp add: S_IFMT_def mask_eq_exp_minus_1 push_bit_eq_mult)
  show ?thesis unfolding eq by (auto simp: bit_simps)
qed

lemma equiv_mode_idem:
  assumes "posix_acl_valid a = Inr ()"
  shows "\<exists>not_equiv mode'. posix_acl_equiv_mode a mode = Inr (not_equiv, mode') \<and>
    posix_acl_equiv_mode a mode' = Inr (not_equiv, mode') \<and> mode' AND S_IFMT = mode AND S_IFMT"
proof -
  obtain uo us go gs m ot where a: "a = uo # us @ go # gs @ m @ [ot]" and sh: "acl_shape uo us go gs m ot"
    using assms unfolding valid_shape by blast
  let ?n = "mode_of (e_perm uo) (e_perm (class_entry go m)) (e_perm ot)"
  have low: "bit ?n i \<Longrightarrow> i < 9" for i
    using shape_perm_bits [OF sh] by (auto simp: mode_of_bits split: if_splits)
  have "(((mode AND NOT S_IRWXUGO) OR ?n) AND NOT S_IRWXUGO) OR ?n = (mode AND NOT S_IRWXUGO) OR ?n"
    by (rule bit_word_eqI) (auto simp: bit_simps)
  moreover have "((mode AND NOT S_IRWXUGO) OR ?n) AND S_IFMT = mode AND S_IFMT"
    by (rule bit_word_eqI) (auto simp: bit_simps S_IFMT_bits S_IRWX_bits dest: low)
  ultimately show ?thesis
    unfolding a acl_equiv_shape [OF sh] by simp
qed

lemma same_type:
  fixes m m' :: mode_t
  assumes "m' AND S_IFMT = m AND S_IFMT"
  shows "S_ISLNK m' = S_ISLNK m" "S_ISDIR m' = S_ISDIR m"
  using assms by (simp_all add: S_ISLNK_def S_ISDIR_def)

text \<open>Setting a valid access ACL carries its permissions into the mode; it is stored unless the mode says it all.\<close>

lemma set_acl_some:
  assumes "ext2_holds acl dflt e" "io_ok io" "posix_acl_valid a = Inr ()" "plain_ids a" "\<not> S_ISLNK (ext2_mode e)"
  shows "\<exists>e' not_equiv. ext2_set_acl io ACL_TYPE_ACCESS (Some a) e = (Inr (), e') \<and>
    posix_acl_equiv_mode a (ext2_mode e) = Inr (not_equiv, ext2_mode e') \<and>
    ext2_holds (if not_equiv then Some a else None) dflt e' \<and>
    in_step (if not_equiv then Some a else None) e' \<and> ext2_mode e' AND S_IFMT = ext2_mode e AND S_IFMT"
proof -
  obtain ne mode' where m: "posix_acl_equiv_mode a (ext2_mode e) = Inr (ne, mode')"
      "posix_acl_equiv_mode a mode' = Inr (ne, mode')" "mode' AND S_IFMT = ext2_mode e AND S_IFMT"
    using equiv_mode_idem [OF assms(3)] by blast
  let ?new = "if ne then Some a else None"
  have "acl_wf ?new"
    using assms(3,4) by (simp add: acl_wf_def)
  then obtain e' where e': "store_acl io ACL_TYPE_ACCESS ?new (set_mode mode' e) = (Inr (), e')"
      "vfs_inode e' = vfs_inode (set_mode mode' e)" "ext2_holds ?new dflt e'"
    using store_acl_holds [of acl dflt "set_mode mode' e" io ?new ACL_TYPE_ACCESS] assms(1,2) by auto
  have "ext2_set_acl io ACL_TYPE_ACCESS (Some a) e = (Inr (), e')"
    using e'(1) m(1) assms(5) holds_opt(1) [OF assms(1)] by (simp add: ext2_set_acl_def)
  moreover have "in_step ?new e'"
    using m assms(3,5) same_type(1) [OF m(3)] e'(2) by (auto simp: in_step_def acl_in_step_def)
  ultimately show ?thesis
    using e' m by (intro exI [of _ e'] exI [of _ ne]) simp
qed

lemma set_acl_good:
  assumes "ext2_holds acl dflt e" "in_step acl e" "io_ok io" "acl_wf new" "ext2_set_acl io type new e = (r, e')"
  shows "ext2_good e' \<and> ext2_mode e' AND S_IFMT = ext2_mode e AND S_IFMT"
proof -
  have same: ?thesis if "e' = e"
    using that assms(1,2) by (auto simp: ext2_good_def)
  have stored: ?thesis if h: "store_acl io type new e = (r, e')"
      "type = ACL_TYPE_ACCESS \<and> new = None \<or> type = ACL_TYPE_DEFAULT"
  proof -
    let ?acl = "if type = ACL_TYPE_ACCESS then new else acl"
    have r: "vfs_inode e' = vfs_inode e" "ext2_holds ?acl (if type = ACL_TYPE_ACCESS then dflt else new) e'"
      using store_acl_holds [OF assms(1,3,4), of type] h by auto
    moreover have "in_step ?acl e'"
      unfolding in_step_cong [OF r(1)] using h(2) assms(2) by auto
    ultimately show ?thesis
      using goodI by simp
  qed
  show ?thesis
  proof (cases "type = ACL_TYPE_ACCESS \<and> new \<noteq> None \<and> \<not> S_ISLNK (ext2_mode e)")
    case True
    then obtain a where a: "new = Some a" "type = ACL_TYPE_ACCESS" "posix_acl_valid a = Inr ()" "plain_ids a"
      using assms(4) by (auto simp: acl_wf_def)
    obtain e2 ne where "ext2_set_acl io ACL_TYPE_ACCESS (Some a) e = (Inr (), e2)"
        "ext2_holds (if ne then Some a else None) dflt e2" "in_step (if ne then Some a else None) e2"
        "ext2_mode e2 AND S_IFMT = ext2_mode e AND S_IFMT"
      using set_acl_some [OF assms(1,3) a(3,4)] True by blast
    then show ?thesis
      using assms(5) a(1,2) by (auto intro: goodI)
  next
    case False
    then have "e' = e \<or> store_acl io type new e = (r, e') \<and>
        (type = ACL_TYPE_ACCESS \<and> new = None \<or> type = ACL_TYPE_DEFAULT)"
      using assms(5) by (auto simp: ext2_set_acl_def split: if_splits option.splits)
    then show ?thesis using same stored by blast
  qed
qed

lemma plain_ids_pairs:
  "plain_ids acl \<longleftrightarrow>
   (\<forall>p \<in> set (map (\<lambda>e. (e_tag e, e_id e)) acl). object_tag (fst p) \<longrightarrow> snd p = ACL_UNDEFINED_ID)"
  by (simp add: plain_ids_def)

lemma chmod_ids:
  assumes "posix_acl_valid a = Inr ()" "posix_acl_chmod_masq a mode = Inr a'" "plain_ids a"
  shows "plain_ids a'"
proof -
  obtain uo us go gs m ot where a: "a = uo # us @ go # gs @ m @ [ot]" and sh: "acl_shape uo us go gs m ot"
    using assms(1) unfolding valid_shape by blast
  let ?a' = "with_perms (drop_bit 6 (mode AND S_IRWXU)) (drop_bit 3 (mode AND S_IRWXG)) (mode AND S_IRWXO) uo us go gs m ot"
  have "m = [] \<or> (\<exists>mo. m = [mo])" using sh by (auto simp: acl_shape_def)
  then have "map (\<lambda>e. (e_tag e, e_id e)) ?a' = map (\<lambda>e. (e_tag e, e_id e)) a"
    unfolding a by (elim disjE exE) (simp_all add: with_perms_def)
  moreover have "a' = ?a'"
    using assms(2) chmod_shape [OF sh, of mode] a by simp
  ultimately show ?thesis
    using assms(3) unfolding plain_ids_pairs by simp
qed

lemma acl_chmod_good:
  assumes "ext2_holds acl dflt e" "io_ok io" "acl = None \<or> \<not> S_ISLNK (ext2_mode e)" "ext2_acl_chmod io e = (r, e')"
  shows "ext2_good e'"
proof (cases "S_ISLNK (ext2_mode e)")
  case True
  then show ?thesis
    using assms holds_opt [OF assms(1)] by (auto simp: ext2_acl_chmod_def ext2_good_def in_step_def)
next
  case False
  obtain e1 where e1: "ext2_get_acl io ACL_TYPE_ACCESS e = (Inr acl, e1)" "ext2_holds acl dflt e1" "vfs_inode e1 = vfs_inode e"
    using get_acl_ok [OF assms(1,2), of ACL_TYPE_ACCESS] by (auto simp: of_type_def)
  show ?thesis
  proof (cases acl)
    case None
    then show ?thesis
      using assms(4) e1 False holds_opt [OF assms(1)] by (auto simp: ext2_acl_chmod_def ext2_good_def in_step_def)
  next
    case (Some a)
    then have a: "posix_acl_valid a = Inr ()" "plain_ids a"
      using holds_wf(1) [OF assms(1)] by (simp_all add: acl_wf_def)
    obtain a' where a': "posix_acl_chmod_masq a (ext2_mode e1) = Inr a'" "posix_acl_valid a' = Inr ()"
      using acl_chmod_masq_spec [OF a(1)] by blast
    obtain e2 ne where "ext2_set_acl io ACL_TYPE_ACCESS (Some a') e1 = (Inr (), e2)"
        "ext2_holds (if ne then Some a' else None) dflt e2" "in_step (if ne then Some a' else None) e2"
      using set_acl_some [OF e1(2) assms(2) a'(2) chmod_ids [OF a(1) a'(1) a(2)]] False e1(3) by auto
    moreover have "ext2_acl_chmod io e = ext2_set_acl io ACL_TYPE_ACCESS (Some a') e1"
      using e1(1) Some a'(1) False holds_opt [OF assms(1)] assms(2) by (simp add: ext2_acl_chmod_def io_ok_def)
    ultimately show ?thesis
      using assms(4) by (auto simp: ext2_good_def)
  qed
qed

section \<open>Changes of attributes and new inodes\<close>

text \<open>The truncation method of the file system leaves the mode and the flags of the mount alone.\<close>

definition acl_truncate :: "attr_env \<Rightarrow> bool" where
  "acl_truncate env \<longleftrightarrow>
     (\<forall>f i. iop_truncate env = Some f \<longrightarrow> i_mode (f i) = i_mode i \<and> s_flags (f i) = s_flags i)"

lemma setattr_flags [simp]: "s_flags (setattr_times attr (setattr_ids attr i)) = s_flags i"
  by (simp add: setattr_times_def setattr_ids_def Let_def)

lemma vmtruncate_flags:
  "vmtruncate env i n = Inr i' \<Longrightarrow> acl_truncate env \<Longrightarrow> i_mode i' = i_mode i \<and> s_flags i' = s_flags i"
  by (auto simp: vmtruncate_def acl_truncate_def Let_def split: if_splits option.splits)

lemma inode_setattr_mode:
  assumes "inode_setattr env ops k i attr = (r, i', k')" "acl_truncate env"
  shows "s_flags i' = s_flags i \<and>
    (if r = Inr () \<and> asks attr ATTR_MODE then i_mode i' \<in> {ia_mode attr, ia_mode attr AND NOT S_ISGID}
     else i_mode i' = i_mode i)"
proof -
  let ?t = "if asks attr ATTR_SIZE \<and> ia_size attr \<noteq> i_size i then vmtruncate env i (ia_size attr) else Inr i"
  have trunc: "i_mode i1 = i_mode i \<and> s_flags i1 = s_flags i" if "?t = Inr i1" for i1
    using that vmtruncate_flags [OF _ assms(2)] by (auto split: if_splits)
  show ?thesis
  proof (cases ?t)
    case (Inl er)
    then show ?thesis using assms(1) unfolding inode_setattr_def by auto
  next
    case (Inr i1)
    then show ?thesis
      using assms(1) trunc [OF Inr] unfolding inode_setattr_def Inr
      by (auto simp: Let_def split: prod.splits if_splits)
  qed
qed

lemma strip_type:
  fixes m :: mode_t
  shows "(m AND NOT S_ISGID) AND S_IFMT = m AND S_IFMT"
proof -
  have "NOT S_ISGID AND S_IFMT = S_IFMT" by (simp add: S_ISGID_def S_IFMT_def)
  then show ?thesis by (simp add: and.assoc)
qed

lemma setattr_good:
  assumes "ext2_good e" "io_ok io" "acl_truncate env"
    and "asks attr ATTR_MODE \<Longrightarrow> ia_mode attr AND S_IFMT = ext2_mode e AND S_IFMT"
    and "ext2_setattr env ops io k e attr = (r, e', k')"
  shows "ext2_good e'"
proof -
  obtain acl dflt where h: "ext2_holds acl dflt e" "in_step acl e"
    using assms(1) by (auto simp: ext2_good_def)
  show ?thesis
  proof (cases "inode_change_ok ops k (vfs_inode e) attr")
    case (Pair c k1)
    show ?thesis
    proof (cases c)
      case (Inl er)
      then show ?thesis using assms(1,5) Pair by (simp add: ext2_setattr_def)
    next
      case (Inr attr1)
      have a1: "asks attr1 = asks attr" "ia_mode attr1 AND S_IFMT = ia_mode attr AND S_IFMT"
        using inode_change_attr [of ops k "vfs_inode e" attr attr1 k1] Pair Inr strip_type
        by (auto simp: asks_def fun_eq_iff)
      obtain r1 i1 k2 where s: "inode_setattr env ops k1 (vfs_inode e) attr1 = (r1, i1, k2)"
        by (metis prod_cases3)
      let ?e1 = "e\<lparr>vfs_inode := i1\<rparr>"
      note m = inode_setattr_mode [OF s assms(3)]
      have h1: "ext2_holds acl dflt ?e1"
        using h(1) m by (simp add: ext2_holds_def IS_POSIXACL_def)
      show ?thesis
      proof (cases "r1 = Inr () \<and> asks attr1 ATTR_MODE")
        case True
        then have "i_mode i1 AND S_IFMT = ext2_mode e AND S_IFMT"
          using m a1 assms(4) strip_type by auto
        then have "acl = None \<or> \<not> S_ISLNK (ext2_mode ?e1)"
          using h(2) same_type(1) [of "i_mode i1" "ext2_mode e"] by (auto simp: in_step_def)
        moreover have "ext2_acl_chmod io ?e1 = (r, e')"
          using assms(5) Pair Inr s True by (auto simp: ext2_setattr_def vfs_dq_transfer_def split: prod.splits)
        ultimately show ?thesis
          using acl_chmod_good [OF h1 assms(2)] by simp
      next
        case False
        then have "e' = ?e1"
          using assms(5) Pair Inr s by (auto simp: ext2_setattr_def vfs_dq_transfer_def)
        moreover have "i_mode i1 = ext2_mode e"
          using m False by (simp split: if_splits)
        ultimately show ?thesis
          using goodI [OF h1] h(2) by (simp add: in_step_def)
      qed
    qed
  qed
qed

lemma set_default_acl:
  assumes "ext2_holds acl dflt e" "io_ok io" "acl_wf new" "S_ISDIR (ext2_mode e)"
  shows "\<exists>e'. ext2_set_acl io ACL_TYPE_DEFAULT new e = (Inr (), e') \<and> ext2_holds acl new e' \<and> vfs_inode e' = vfs_inode e"
proof -
  have "\<not> S_ISLNK (ext2_mode e)"
    using assms(4) by (simp add: S_ISLNK_def S_ISDIR_def S_IFLNK_def S_IFDIR_def)
  then show ?thesis
    using store_acl_holds [OF assms(1-3), of ACL_TYPE_DEFAULT] assms(4) holds_opt(1) [OF assms(1)]
    by (auto simp: ext2_set_acl_def)
qed

lemma create_type:
  fixes mode given :: mode_t
  shows "(mode AND (given OR NOT S_IRWXUGO)) AND S_IFMT = mode AND S_IFMT"
  by (rule bit_word_eqI) (auto simp: bit_simps S_IFMT_bits S_IRWX_bits)

text \<open>A new inode that inherits the valid default ACL of its directory.\<close>

lemma inherit_good:
  assumes "ext2_holds None dflt e" "io_ok io" "posix_acl_valid a = Inr ()" "plain_ids a" "\<not> S_ISLNK (ext2_mode e)"
  shows "\<exists>extended clone mode e'. posix_acl_create_masq a (ext2_mode e) = Inr (extended, clone, mode) \<and>
    (if extended then ext2_set_acl io ACL_TYPE_ACCESS (Some clone) (set_mode mode e) = (Inr (), e')
     else e' = set_mode mode e) \<and> ext2_good e'"
proof -
  obtain ne given where "posix_acl_equiv_mode a 0 = Inr (ne, given)"
    using equiv_mode_idem [OF assms(3), of 0] by blast
  note spec = acl_create_masq_spec [OF assms(3) this, of "ext2_mode e"]
  let ?m = "ext2_mode e AND (given OR NOT S_IRWXUGO)"
  obtain a' where a': "posix_acl_create_masq a (ext2_mode e) = Inr (ne, a', ?m)"
      "posix_acl_chmod_masq a ?m = Inr a'" "posix_acl_valid a' = Inr ()"
    using spec by blast
  have h: "ext2_holds None dflt (set_mode ?m e)" and nl: "\<not> S_ISLNK (ext2_mode (set_mode ?m e))"
    using assms(1,5) same_type(1) [OF create_type [of "ext2_mode e" given]] by simp_all
  obtain e2 ne2 where "ext2_set_acl io ACL_TYPE_ACCESS (Some a') (set_mode ?m e) = (Inr (), e2)"
      "ext2_holds (if ne2 then Some a' else None) dflt e2" "in_step (if ne2 then Some a' else None) e2"
    using set_acl_some [OF h assms(2) a'(3) chmod_ids [OF assms(3) a'(2) assms(4)] nl] by blast
  then show ?thesis
    using a'(1) goodI goodI [OF h] by (cases ne) auto
qed

lemma init_acl_good:
  assumes "ext2_holds acl dflt dir" "ext2_holds None None e" "io_ok io1" "io_ok io2" "io_ok io3"
    and "ext2_init_acl io1 io2 io3 umask e dir = (r, e', dir')"
  shows "r = Inr () \<and> ext2_good e' \<and> ext2_holds acl dflt dir' \<and> vfs_inode dir' = vfs_inode dir"
proof (cases "S_ISLNK (ext2_mode e)")
  case True
  then show ?thesis
    using assms(1,2,6) goodI [OF assms(2)] by (auto simp: ext2_init_acl_def)
next
  case False
  obtain dir1 where dir1: "ext2_get_acl io1 ACL_TYPE_DEFAULT dir = (Inr dflt, dir1)" "ext2_holds acl dflt dir1"
      "vfs_inode dir1 = vfs_inode dir"
    using get_acl_ok [OF assms(1,3), of ACL_TYPE_DEFAULT] by (auto simp: of_type_def)
  note opts = holds_opt(1) [OF assms(1)] holds_opt(1) [OF assms(2)]
  show ?thesis
  proof (cases dflt)
    case None
    then show ?thesis
      using assms(6) dir1 False opts goodI [of None None "set_mode (ext2_mode e AND NOT umask) e"] assms(2)
      by (auto simp: ext2_init_acl_def)
  next
    case (Some a)
    have a: "posix_acl_valid a = Inr ()" "plain_ids a"
      using holds_wf(2) [OF assms(1)] Some by (simp_all add: acl_wf_def)
    obtain e2 d2 where e2: "(if S_ISDIR (ext2_mode e) then ext2_set_acl io2 ACL_TYPE_DEFAULT dflt e else (Inr (), e)) = (Inr (), e2)"
        "ext2_holds None d2 e2" "vfs_inode e2 = vfs_inode e"
    proof (cases "S_ISDIR (ext2_mode e)")
      case True
      then show ?thesis
        using set_default_acl [OF assms(2,4) holds_wf(2) [OF assms(1)]] that [of _ dflt] by auto
    next
      case False
      then show ?thesis using that [of e None] assms(2) by simp
    qed
    have nl: "\<not> S_ISLNK (ext2_mode e2)" using False e2(3) by simp
    obtain ne c m e3 where c: "posix_acl_create_masq a (ext2_mode e2) = Inr (ne, c, m)"
        "if ne then ext2_set_acl io3 ACL_TYPE_ACCESS (Some c) (set_mode m e2) = (Inr (), e3) else e3 = set_mode m e2"
        "ext2_good e3"
      using inherit_good [OF e2(2) assms(5) a nl] by blast
    have "ext2_init_acl io1 io2 io3 umask e dir = (Inr (), e3, dir1)"
      using dir1(1) Some False opts e2(1) c(1,2) assms(5)
      by (simp add: ext2_init_acl_def io_ok_def split: if_splits)
    then show ?thesis
      using assms(6) c(3) dir1 by simp
  qed
qed

section \<open>Sequences of calls\<close>

text \<open>The inode leaves memory and is read again later: nothing is cached.\<close>

definition forget_acls :: "ext2_inode \<Rightarrow> ext2_inode" where
  "forget_acls e = e\<lparr>i_acl := EXT2_ACL_NOT_CACHED, i_default_acl := EXT2_ACL_NOT_CACHED\<rparr>"

text \<open>
  Calls by any processes on one inode.  Attributes may be set to anything and every call may be refused; only
  allocations and accesses to the disk succeed in the calls that write.  A change of the mode
  keeps the type of the file, as \<^verbatim>\<open>chmod\<close> does.
\<close>

inductive ext2_step :: "ext2_inode \<Rightarrow> ext2_inode \<Rightarrow> bool" where
  set_access: "io_ok io \<Longrightarrow> ext2_xattr_set_acl_access ops io k name value e = (r, e', k') \<Longrightarrow> ext2_step e e'"
| set_default: "io_ok io \<Longrightarrow> ext2_xattr_set_acl_default ops io k name value e = (r, e', k') \<Longrightarrow> ext2_step e e'"
| setattr: "io_ok io \<Longrightarrow> acl_truncate env \<Longrightarrow>
    (asks attr ATTR_MODE \<Longrightarrow> ia_mode attr AND S_IFMT = ext2_mode e AND S_IFMT) \<Longrightarrow>
    ext2_setattr env ops io k e attr = (r, e', k') \<Longrightarrow> ext2_step e e'"
| get_acl: "io_honest io \<Longrightarrow> ext2_get_acl io type e = (r, e') \<Longrightarrow> ext2_step e e'"
| forget: "ext2_step e (forget_acls e)"

lemma forget_holds:
  "ext2_holds acl dflt e \<Longrightarrow> ext2_holds acl dflt (forget_acls e)" "vfs_inode (forget_acls e) = vfs_inode e"
  by (simp_all add: forget_acls_def ext2_holds_def)

lemma xattr_set_good:
  assumes "ext2_good e" "io_ok io" "ext2_xattr_set_acl ops io k type value e = (r, e', k')"
  shows "ext2_good e'"
proof -
  obtain acl dflt where h: "ext2_holds acl dflt e" "in_step acl e"
    using assms(1) by (auto simp: ext2_good_def)
  have "e' = e \<or> (\<exists>new. posix_acl_from_xattr (io_acl io) value = Inr new \<and>
      (\<forall>a. new = Some a \<longrightarrow> posix_acl_valid a = Inr ()) \<and> ext2_set_acl io type new e = (r, e'))"
    using assms(3)
    by (auto simp: ext2_xattr_set_acl_def Let_def split: if_splits prod.splits sum.splits option.splits)
  then show ?thesis
  proof (elim disjE exE conjE)
    fix new
    assume "posix_acl_from_xattr (io_acl io) value = Inr new" "\<forall>a. new = Some a \<longrightarrow> posix_acl_valid a = Inr ()"
      and "ext2_set_acl io type new e = (r, e')"
    moreover from this have "acl_wf new"
      using from_xattr_ids by (auto simp: acl_wf_def)
    ultimately show ?thesis
      using set_acl_good [OF h assms(2)] by blast
  qed (use assms(1) in simp)
qed

lemma step_good: "ext2_step e e' \<Longrightarrow> ext2_good e \<Longrightarrow> ext2_good e'"
proof (induction rule: ext2_step.induct)
  case (set_access io ops k name v e r e' k')
  then show ?case using xattr_set_good by (auto simp: ext2_xattr_set_acl_access_def split: if_splits)
next
  case (set_default io ops k name v e r e' k')
  then show ?case using xattr_set_good by (auto simp: ext2_xattr_set_acl_default_def split: if_splits)
next
  case (setattr io env attr e ops k r e' k')
  then show ?case using setattr_good by blast
next
  case (get_acl io type e r e')
  then obtain acl dflt where h: "ext2_holds acl dflt e" "in_step acl e"
    by (auto simp: ext2_good_def)
  then show ?case
    using get_acl_holds [OF h(1) get_acl(1,2)] in_step_cong [of e' e acl] goodI by blast
next
  case (forget e)
  then obtain acl dflt where h: "ext2_holds acl dflt e" "in_step acl e"
    by (auto simp: ext2_good_def)
  then show ?case
    using goodI [OF forget_holds(1) [OF h(1)]] in_step_cong [OF forget_holds(2)] by simp
qed

lemma steps_good: "ext2_step\<^sup>*\<^sup>* e e' \<Longrightarrow> ext2_good e \<Longrightarrow> ext2_good e'"
  by (induction rule: rtranclp_induct) (auto intro: step_good)

text \<open>What the permission check decides: the ACL decides if there is one and the group class of the
  mode is not empty; without an ACL the mode decides.\<close>

definition follows_acl :: "kconfig \<Rightarrow> acl_io \<Rightarrow> kernel \<Rightarrow> ext2_inode \<Rightarrow> u32 \<Rightarrow> posix_acl option \<Rightarrow> bool" where
  "follows_acl cfg io k e msk acl \<longleftrightarrow>
     (case acl of
        Some a \<Rightarrow>
          ext2_mode e AND S_IRWXG \<noteq> 0 \<longrightarrow>
          fst (ext2_inode_permission (capability_ops cfg) io k e msk) =
            (if acl_access (current_fsuid k) (in_group_p k) (i_uid (vfs_inode e)) (i_gid (vfs_inode e)) a (rwx_request msk) \<or>
                cap_override k (vfs_inode e) (rwx_request msk)
             then Inr () else Inl EACCES)
      | None \<Rightarrow>
          ext2_inode_permission (capability_ops cfg) io k e msk =
            generic_permission (capability_ops cfg) k (vfs_inode e) msk None)"

lemma good_follows:
  assumes "ext2_good e" "io_ok io"
  shows "\<exists>acl. fst (ext2_get_acl io ACL_TYPE_ACCESS e) = Inr acl \<and> in_step acl e \<and> follows_acl cfg io k e msk acl"
proof -
  obtain acl dflt where h: "ext2_holds acl dflt e" "in_step acl e"
    using assms(1) by (auto simp: ext2_good_def)
  have g: "fst (ext2_get_acl io ACL_TYPE_ACCESS e) = Inr acl"
    using get_acl_ok [OF h(1) assms(2), of ACL_TYPE_ACCESS] by (auto simp: of_type_def)
  have "follows_acl cfg io k e msk acl"
  proof (cases acl)
    case None
    then show ?thesis
      using g by (simp add: follows_acl_def ext2_inode_permission_def ext2_permission_def ext2_check_acl_def generic_permission_def Let_def)
  next
    case (Some a)
    then show ?thesis
      using g h in_step_permission [of a "vfs_inode e" cfg k msk] holds_opt(2) [OF h(1)]
      by (simp add: follows_acl_def ext2_inode_permission_def in_step_def)
  qed
  then show ?thesis using g h(2) by blast
qed




section \<open>Examples\<close>

definition example_io :: acl_io where
  "example_io = \<lparr>io_size = None, io_read = None, io_set = None, io_value = True, io_acl = True, io_clone = True,
     io_disk = True, io_fresh = []\<rparr>"

definition example_ext2 :: "mode_t \<Rightarrow> ext2_inode" where
  "example_ext2 mode = \<lparr>vfs_inode = example_inode mode 0, i_acl = EXT2_ACL_NOT_CACHED,
     i_default_acl = EXT2_ACL_NOT_CACHED, xattr_access = None, xattr_default = None, opt_posix_acl = True\<rparr>"

definition example_directory :: ext2_inode where
  "example_directory = (example_ext2 0x41ED)\<lparr>xattr_default := Some (disk_image example_acl)\<rparr>"

text \<open>The list that \<^verbatim>\<open>setfacl -m u:1000:rw\<close> makes for a file with mode 640.\<close>

definition user_acl :: posix_acl where
  "user_acl =
     [\<lparr>e_tag = ACL_USER_OBJ, e_perm = 6, e_id = ACL_UNDEFINED_ID\<rparr>,
      \<lparr>e_tag = ACL_USER, e_perm = 6, e_id = 1000\<rparr>,
      \<lparr>e_tag = ACL_GROUP_OBJ, e_perm = 4, e_id = ACL_UNDEFINED_ID\<rparr>,
      \<lparr>e_tag = ACL_MASK, e_perm = 6, e_id = ACL_UNDEFINED_ID\<rparr>,
      \<lparr>e_tag = ACL_OTHER, e_perm = 0, e_id = ACL_UNDEFINED_ID\<rparr>]"

definition group_file :: ext2_inode where
  "group_file = (example_ext2 0x81A0)\<lparr>vfs_inode := (example_inode 0x81A0 0)\<lparr>i_gid := 7\<rparr>\<rparr>"

lemma example_io_ok: "io_ok example_io"
  by (simp add: io_ok_def example_io_def)

lemma example_posixacl: "IS_POSIXACL (example_inode mode u)"
  by (simp add: IS_POSIXACL_def example_inode_def MS_POSIXACL_def)

lemma example_holds: "ext2_holds None None (example_ext2 mode)"
  by (simp add: ext2_holds_def example_ext2_def acl_wf_def example_posixacl)

lemma example_plain_ids: "plain_ids example_acl"
  by code_simp

lemma example_directory_holds: "ext2_holds None (Some example_acl) example_directory"
  using example_acl_valid example_plain_ids
  by (simp add: ext2_holds_def example_directory_def example_ext2_def acl_wf_def example_posixacl)




end
