(* ===== verification/Sem.thy ===== *)
theory Sem
  imports Setid_Spec Stat
begin

text \<open>
  System V semaphores: \<^verbatim>\<open>ipc/sem.c\<close> with \<^verbatim>\<open>ipcperms\<close> of \<^verbatim>\<open>ipc/util.c\<close>.
  The state is one semaphore set: its values, the queue of sleeping operations and the undo
  structures that are linked to it, which several processes' operations share through their
  identifiers.  \<^verbatim>\<open>short\<close> values are 16-bit words read as signed; the values themselves
  are \<^verbatim>\<open>int\<close>, whose range is shown to be far from being left.  All functions run under
  the lock of the set; looking the set up by its identifier is an argument.
\<close>

section \<open>The data\<close>

definition SEMVMX :: int where "SEMVMX = 32767"
definition SEMAEM :: int where "SEMAEM = SEMVMX"
definition SEMOPM_FAST :: nat where "SEMOPM_FAST = 64"
definition SEMMSL_FAST :: nat where "SEMMSL_FAST = 256"
definition SEM_UNDO :: u16 where "SEM_UNDO = 0x1000"
definition IPC_NOWAIT :: u16 where "IPC_NOWAIT = 0x800"
definition CAP_IPC_OWNER :: nat where "CAP_IPC_OWNER = 15"

record sem =
  semval :: int
  sempid :: int

record sembuf =
  sem_num :: u16
  sem_op :: u16
  sem_flg :: u16

abbreviation op_num :: "sembuf \<Rightarrow> nat" where "op_num sop \<equiv> unat (sem_num sop)"
abbreviation op_val :: "sembuf \<Rightarrow> int" where "op_val sop \<equiv> sint (sem_op sop)"

record sem_queue =
  sleeper :: nat
  q_sops :: "sembuf list"
  q_undo :: "nat option"
  q_pid :: int
  q_alter :: bool

text \<open>What \<^verbatim>\<open>try_atomic_semop\<close> returns: 0, 1 or an error.\<close>

datatype semop_result = Done | Sleep | Failed errno

text \<open>
  \<open>semadj\<close> maps an undo structure to its adjustments, \<open>list_id\<close> is the list of those linked to the
  set, \<open>undo_of\<close> finds the one of a process; \<open>woken\<close> records the sleepers that were woken and with
  which status, in order.
\<close>

record kern_ipc_perm =
  ipc_uid :: uid_t
  ipc_gid :: gid_t
  ipc_cuid :: uid_t
  ipc_cgid :: gid_t
  ipc_mode :: mode_t

record sem_array =
  sem_perm :: kern_ipc_perm
  sem_otime :: int
  sem_ctime :: int
  sem_base :: "sem list"
  sem_pending :: "sem_queue list"
  list_id :: "nat list"
  semadj :: "nat \<Rightarrow> u16 list"
  undo_of :: "nat \<Rightarrow> nat option"
  next_undo :: nat
  woken :: "(nat \<times> semop_result) list"

section \<open>One operation\<close>

definition adj_of :: "sem_array \<Rightarrow> nat option \<Rightarrow> u16 list" where
  "adj_of sma un = (case un of None \<Rightarrow> [] | Some u \<Rightarrow> semadj sma u)"

text \<open>
  The first loop of \<^verbatim>\<open>try_atomic_semop\<close>: it goes on until an operation cannot be done.  The
  operations already applied are collected, the last one first.
\<close>

datatype semop_stop = All | Would_block sembuf | Out_of_range

fun semop_apply :: "u16 list \<Rightarrow> sembuf list \<Rightarrow> sembuf list \<Rightarrow> sem list \<Rightarrow> semop_stop \<times> sembuf list \<times> sem list" where
  "semop_apply adj [] applied base = (All, applied, base)"
| "semop_apply adj (sop # sops) applied base =
     (let curr = base ! op_num sop;
          result = semval curr + op_val sop
      in if op_val sop = 0 \<and> semval curr \<noteq> 0 then (Would_block sop, applied, base)
         else if result < 0 then (Would_block sop, applied, base)
         else if result > SEMVMX then (Out_of_range, applied, base)
         else if sem_flg sop AND SEM_UNDO \<noteq> 0 \<and>
           (sint (adj ! op_num sop) - op_val sop < - SEMAEM - 1 \<or> sint (adj ! op_num sop) - op_val sop > SEMAEM)
         then (Out_of_range, applied, base)
         else semop_apply adj sops (sop # applied) (base[op_num sop := curr\<lparr>semval := result\<rparr>]))"

text \<open>The loop at the label \<^verbatim>\<open>undo\<close>.\<close>

fun semop_rollback :: "sembuf list \<Rightarrow> sem list \<Rightarrow> sem list" where
  "semop_rollback [] base = base"
| "semop_rollback (sop # applied) base =
     semop_rollback applied
       (base[op_num sop := (base ! op_num sop)\<lparr>semval := semval (base ! op_num sop) - op_val sop\<rparr>])"

text \<open>The second loop, which runs backwards over all operations.\<close>

fun semop_finish :: "int \<Rightarrow> sembuf list \<Rightarrow> sem list \<Rightarrow> u16 list \<Rightarrow> sem list \<times> u16 list" where
  "semop_finish tgid [] base adj = (base, adj)"
| "semop_finish tgid (sop # applied) base adj =
     semop_finish tgid applied
       (base[op_num sop := (base ! op_num sop)\<lparr>sempid := tgid\<rparr>])
       (if sem_flg sop AND SEM_UNDO \<noteq> 0
        then adj[op_num sop := adj ! op_num sop - sem_op sop] else adj)"

definition set_adj :: "nat option \<Rightarrow> u16 list \<Rightarrow> sem_array \<Rightarrow> sem_array" where
  "set_adj un adj sma = (case un of None \<Rightarrow> sma | Some u \<Rightarrow> sma\<lparr>semadj := (semadj sma)(u := adj)\<rparr>)"

definition try_atomic_semop ::
  "int \<Rightarrow> sem_array \<Rightarrow> sembuf list \<Rightarrow> nat option \<Rightarrow> int \<Rightarrow> semop_result \<times> sem_array" where
  "try_atomic_semop now sma sops un tgid =
     (case semop_apply (adj_of sma un) sops [] (sem_base sma) of
        (All, applied, base) \<Rightarrow>
          (let (base1, adj1) = semop_finish tgid applied base (adj_of sma un)
           in (Done, (set_adj un adj1 sma)\<lparr>sem_base := base1, sem_otime := now\<rparr>))
      | (Would_block sop, applied, base) \<Rightarrow>
          (if sem_flg sop AND IPC_NOWAIT \<noteq> 0 then Failed EAGAIN else Sleep,
           sma\<lparr>sem_base := semop_rollback applied base\<rparr>)
      | (Out_of_range, applied, base) \<Rightarrow>
          (Failed ERANGE, sma\<lparr>sem_base := semop_rollback applied base\<rparr>))"

section \<open>The queue\<close>

text \<open>
  \<^verbatim>\<open>update_queue\<close>: \<open>scanned\<close> is the part of the queue before \<^verbatim>\<open>q\<close>.  After an
  operation that alters values the scan starts again at the head.
\<close>

definition wake :: "sem_queue \<Rightarrow> semop_result \<Rightarrow> sem_array \<Rightarrow> sem_array" where
  "wake q status sma = sma\<lparr>woken := woken sma @ [(sleeper q, status)]\<rparr>"

function update_loop :: "int \<Rightarrow> sem_array \<Rightarrow> sem_queue list \<Rightarrow> sem_queue list \<Rightarrow> sem_array" where
  "update_loop now sma scanned [] = sma\<lparr>sem_pending := scanned\<rparr>"
| "update_loop now sma scanned (q # rest) =
     (case try_atomic_semop now sma (q_sops q) (q_undo q) (q_pid q) of
        (Sleep, sma1) \<Rightarrow> update_loop now sma1 (scanned @ [q]) rest
      | (r, sma1) \<Rightarrow>
          if q_alter q then update_loop now (wake q r sma1) [] (scanned @ rest)
          else update_loop now (wake q r sma1) scanned rest)"
  by pat_completeness auto
termination
  by (relation "measures [\<lambda>(_, _, scanned, rest). length scanned + length rest, \<lambda>(_, _, _, rest). length rest]") auto

definition update_queue :: "int \<Rightarrow> sem_array \<Rightarrow> sem_array" where
  "update_queue now sma = update_loop now sma [] (sem_pending sma)"

definition count_semncnt :: "sem_array \<Rightarrow> nat \<Rightarrow> nat" where
  "count_semncnt sma semnum =
     sum_list (map (\<lambda>q. length (filter
       (\<lambda>sop. op_num sop = semnum \<and> op_val sop < 0 \<and> sem_flg sop AND IPC_NOWAIT = 0) (q_sops q))) (sem_pending sma))"

definition count_semzcnt :: "sem_array \<Rightarrow> nat \<Rightarrow> nat" where
  "count_semzcnt sma semnum =
     sum_list (map (\<lambda>q. length (filter
       (\<lambda>sop. op_num sop = semnum \<and> op_val sop = 0 \<and> sem_flg sop AND IPC_NOWAIT = 0) (q_sops q))) (sem_pending sma))"

section \<open>Permissions\<close>

definition security_ipc_permission :: "kern_ipc_perm \<Rightarrow> mode_t \<Rightarrow> bool" where
  "security_ipc_permission ipcp flag = True"

text \<open>True when \<^verbatim>\<open>ipcperms\<close> returns 0.\<close>

definition ipcperms :: "security_operations \<Rightarrow> kernel \<Rightarrow> kern_ipc_perm \<Rightarrow> mode_t \<Rightarrow> bool \<times> kernel" where
  "ipcperms ops k ipcp flag =
     (let requested = drop_bit 6 flag OR drop_bit 3 flag OR flag;
          e = euid (current_cred k);
          granted = (if e = ipc_cuid ipcp \<or> e = ipc_uid ipcp then drop_bit 6 (ipc_mode ipcp)
                     else if in_group_p k (ipc_cgid ipcp) \<or> in_group_p k (ipc_gid ipcp)
                     then drop_bit 3 (ipc_mode ipcp) else ipc_mode ipcp)
      in if requested AND NOT granted AND 7 \<noteq> 0
         then (case capable ops k CAP_IPC_OWNER of
                 (ok, k1) \<Rightarrow> if ok then (security_ipc_permission ipcp flag, k1) else (False, k1))
         else (security_ipc_permission ipcp flag, k))"

definition S_IRUGO :: mode_t where "S_IRUGO = 0x124"
definition S_IWUGO :: mode_t where "S_IWUGO = 0x92"

section \<open>semop\<close>

text \<open>
  What \<^verbatim>\<open>semtimedop\<close> meets: the limit on the number of operations, allocations, the
  operations read from user space (nothing on a fault), the timeout, if any, read from user space,
  the outcomes of the two lookups of the set, whether the set was removed while the undo structure
  was allocated, and whether it was removed and its identifier reused after that.
\<close>

record sem_env =
  sc_semopm :: nat
  undo_list_ok :: bool
  undo_ok :: bool
  sops_ok :: bool
  user_sops :: "sembuf list option"
  user_timeout :: "(int \<times> int) option option"
  lock_check :: "unit result"
  lock_check_undo :: "unit result"
  undo_deleted :: bool
  un_removed :: bool
  seconds :: int

text \<open>
  \<open>proc\<close> is the undo list of the calling process.  Another thread that allocates the structure
  first makes the lookup succeed.
\<close>

definition find_alloc_undo :: "sem_env \<Rightarrow> sem_array \<Rightarrow> nat \<Rightarrow> (nat \<times> sem_array) result" where
  "find_alloc_undo env sma proc =
     (if \<not> undo_list_ok env then Inl ENOMEM
      else case undo_of sma proc of
        Some u \<Rightarrow> Inr (u, sma)
      | None \<Rightarrow>
        (case lock_check_undo env of
           Inl e \<Rightarrow> Inl e
         | Inr _ \<Rightarrow>
           if \<not> undo_ok env then Inl ENOMEM
           else if undo_deleted env then Inl EIDRM
           else
             let u = next_undo sma
             in Inr (u, sma\<lparr>semadj := (semadj sma)(u := replicate (length (sem_base sma)) 0),
                            list_id := u # list_id sma,
                            undo_of := (undo_of sma)(proc := Some u), next_undo := u + 1\<rparr>)))"

datatype semop_outcome = Finished "unit result" | Asleep sem_queue

definition result_of :: "semop_result \<Rightarrow> unit result" where
  "result_of r = (case r of Done \<Rightarrow> Inr () | Sleep \<Rightarrow> Inl EINTR | Failed e \<Rightarrow> Inl e)"

text \<open>The largest semaphore number of the operations.\<close>

definition max_num :: "sembuf list \<Rightarrow> nat" where
  "max_num sops = fold (\<lambda>sop m. if op_num sop \<ge> m then op_num sop else m) sops 0"

definition has_undo :: "sembuf list \<Rightarrow> bool" where
  "has_undo sops \<longleftrightarrow> (\<exists>sop \<in> set sops. sem_flg sop AND SEM_UNDO \<noteq> 0)"

definition alters :: "sembuf list \<Rightarrow> bool" where
  "alters sops \<longleftrightarrow> (\<exists>sop \<in> set sops. op_val sop \<noteq> 0)"

definition timeout_ok :: "sem_env \<Rightarrow> unit result" where
  "timeout_ok env =
     (case user_timeout env of
        None \<Rightarrow> Inr ()
      | Some None \<Rightarrow> Inl EFAULT
      | Some (Some (sec, nsec)) \<Rightarrow>
          if sec < 0 \<or> nsec < 0 \<or> nsec \<ge> 1000000000 then Inl EINVAL else Inr ())"

text \<open>The part of \<^verbatim>\<open>semtimedop\<close> that runs under the lock of the set.\<close>

definition semop_locked ::
  "sem_env \<Rightarrow> security_operations \<Rightarrow> kernel \<Rightarrow> sem_array \<Rightarrow> sembuf list \<Rightarrow> nat option \<Rightarrow> nat \<Rightarrow> int
     \<Rightarrow> semop_outcome \<times> sem_array \<times> kernel" where
  "semop_locked env ops k sma sops un me tgid =
     (if max_num sops \<ge> length (sem_base sma) then (Finished (Inl EFBIG), sma, k)
      else case ipcperms ops k (sem_perm sma) (if alters sops then S_IWUGO else S_IRUGO) of
        (False, k1) \<Rightarrow> (Finished (Inl EACCES), sma, k1)
      | (True, k1) \<Rightarrow>
        (case try_atomic_semop (seconds env) sma sops un tgid of
           (Sleep, sma1) \<Rightarrow>
             let q = \<lparr>sleeper = me, q_sops = sops, q_undo = un, q_pid = tgid, q_alter = alters sops\<rparr>
             in (Asleep q, sma1\<lparr>sem_pending := (if alters sops then sem_pending sma1 @ [q] else q # sem_pending sma1)\<rparr>, k1)
         | (r, sma1) \<Rightarrow>
             (Finished (result_of r),
              if alters sops \<and> r = Done then update_queue (seconds env) sma1 else sma1, k1)))"

definition sys_semtimedop ::
  "sem_env \<Rightarrow> security_operations \<Rightarrow> kernel \<Rightarrow> sem_array \<Rightarrow> int \<Rightarrow> nat \<Rightarrow> nat \<Rightarrow> nat \<Rightarrow> int
     \<Rightarrow> semop_outcome \<times> sem_array \<times> kernel" where
  "sys_semtimedop env ops k sma semid nsops proc me tgid =
     (if nsops < 1 \<or> semid < 0 then (Finished (Inl EINVAL), sma, k)
      else if nsops > sc_semopm env then (Finished (Inl E2BIG), sma, k)
      else if nsops > SEMOPM_FAST \<and> \<not> sops_ok env then (Finished (Inl ENOMEM), sma, k)
      else case user_sops env of
        None \<Rightarrow> (Finished (Inl EFAULT), sma, k)
      | Some sops \<Rightarrow>
        (case timeout_ok env of
           Inl e \<Rightarrow> (Finished (Inl e), sma, k)
         | Inr _ \<Rightarrow>
           (case (if has_undo sops
                  then (case find_alloc_undo env sma proc of Inl e \<Rightarrow> Inl e | Inr (u, sma1) \<Rightarrow> Inr (Some u, sma1))
                  else Inr (None, sma)) of
              Inl e \<Rightarrow> (Finished (Inl e), sma, k)
            | Inr (un, sma1) \<Rightarrow>
              (case lock_check env of
                 Inl e \<Rightarrow> (Finished (Inl e), sma1, k)
               | Inr _ \<Rightarrow>
                   if un \<noteq> None \<and> un_removed env then (Finished (Inl EIDRM), sma1, k)
                   else semop_locked env ops k sma1 sops un me tgid))))"

text \<open>
  The rest of \<^verbatim>\<open>semtimedop\<close>, after the sleep.  The status is the one left by the process
  that woke the sleeper, or \<^verbatim>\<open>-EINTR\<close> when a signal or the timeout did.
\<close>

definition semtimedop_resume :: "bool \<Rightarrow> bool \<Rightarrow> nat \<Rightarrow> sem_array \<Rightarrow> unit result \<times> sem_array" where
  "semtimedop_resume lock_ok timed_out me sma =
     (case map_of (woken sma) me of
        Some st \<Rightarrow> (result_of st, sma)
      | None \<Rightarrow>
        if \<not> lock_ok then (Inl EIDRM, sma)
        else (Inl (if timed_out then EAGAIN else EINTR),
              sma\<lparr>sem_pending := filter (\<lambda>q. sleeper q \<noteq> me) (sem_pending sma)\<rparr>))"

section \<open>semctl, removal and exit\<close>

datatype semctl_cmd = GETALL | SETALL "u16 list option" | GETVAL | GETPID | GETNCNT | GETZCNT | SETVAL int

definition clear_adj :: "(u16 list \<Rightarrow> u16 list) \<Rightarrow> sem_array \<Rightarrow> sem_array" where
  "clear_adj f sma = sma\<lparr>semadj := (\<lambda>u. if u \<in> set (list_id sma) then f (semadj sma u) else semadj sma u)\<rparr>"

definition sem_setall :: "int \<Rightarrow> u16 list \<Rightarrow> sem_array \<Rightarrow> sem_array" where
  "sem_setall now vals sma =
     (let sma1 = sma\<lparr>sem_base := map2 (\<lambda>c v. c\<lparr>semval := uint v\<rparr>) (sem_base sma) vals\<rparr>;
          sma2 = clear_adj (map (\<lambda>_. 0)) sma1
      in update_queue now (sma2\<lparr>sem_ctime := now\<rparr>))"

definition sem_setval :: "int \<Rightarrow> nat \<Rightarrow> int \<Rightarrow> int \<Rightarrow> sem_array \<Rightarrow> sem_array" where
  "sem_setval now semnum val tgid sma =
     (let sma1 = clear_adj (\<lambda>adj. adj[semnum := 0]) sma;
          sma2 = sma1\<lparr>sem_base := (sem_base sma1)[semnum := \<lparr>semval = val, sempid = tgid\<rparr>]\<rparr>
      in update_queue now (sma2\<lparr>sem_ctime := now\<rparr>))"

text \<open>
  \<^verbatim>\<open>semctl_main\<close>.  \<open>ctl_lock\<close> is the outcome of the lookup, \<open>io_ok\<close> that of allocating a buffer
  for a large set, \<open>ctl_deleted\<close> whether the set was removed while its lock was dropped.  The
  values copied to user space are the result; those read from there are part of the command.
\<close>

record semctl_env =
  ctl_lock :: "unit result"
  io_ok :: bool
  copy_ok :: bool
  ctl_deleted :: bool
  ctl_seconds :: int

definition semctl_main ::
  "security_operations \<Rightarrow> kernel \<Rightarrow> semctl_env \<Rightarrow> sem_array \<Rightarrow> int \<Rightarrow> semctl_cmd \<Rightarrow> int
     \<Rightarrow> int list result \<times> sem_array \<times> kernel" where
  "semctl_main ops k env sma semnum cmd tgid =
     (case ctl_lock env of Inl e \<Rightarrow> (Inl e, sma, k) | Inr _ \<Rightarrow>
      let nsems = length (sem_base sma);
          write = (case cmd of SETVAL _ \<Rightarrow> True | SETALL _ \<Rightarrow> True | _ \<Rightarrow> False)
      in case ipcperms ops k (sem_perm sma) (if write then S_IWUGO else S_IRUGO) of
        (False, k1) \<Rightarrow> (Inl EACCES, sma, k1)
      | (True, k1) \<Rightarrow>
        (case cmd of
           GETALL \<Rightarrow>
             if nsems > SEMMSL_FAST \<and> \<not> io_ok env then (Inl ENOMEM, sma, k1)
             else if nsems > SEMMSL_FAST \<and> ctl_deleted env then (Inl EIDRM, sma, k1)
             else if \<not> copy_ok env then (Inl EFAULT, sma, k1)
             else (Inr (map (\<lambda>c. uint (word_of_int (semval c) :: u16)) (sem_base sma)), sma, k1)
         | SETALL arr \<Rightarrow>
             if nsems > SEMMSL_FAST \<and> \<not> io_ok env then (Inl ENOMEM, sma, k1)
             else (case arr of
                None \<Rightarrow> (Inl EFAULT, sma, k1)
              | Some vals \<Rightarrow>
                if \<exists>v \<in> set vals. uint v > SEMVMX then (Inl ERANGE, sma, k1)
                else if ctl_deleted env then (Inl EIDRM, sma, k1)
                else (Inr [], sem_setall (ctl_seconds env) vals sma, k1))
         | _ \<Rightarrow>
             if semnum < 0 \<or> semnum \<ge> int nsems then (Inl EINVAL, sma, k1)
             else
               let n = nat semnum; curr = sem_base sma ! n
               in case cmd of
                    GETVAL \<Rightarrow> (Inr [semval curr], sma, k1)
                  | GETPID \<Rightarrow> (Inr [sempid curr], sma, k1)
                  | GETNCNT \<Rightarrow> (Inr [int (count_semncnt sma n)], sma, k1)
                  | GETZCNT \<Rightarrow> (Inr [int (count_semzcnt sma n)], sma, k1)
                  | SETVAL val \<Rightarrow>
                      if val > SEMVMX \<or> val < 0 then (Inl ERANGE, sma, k1)
                      else (Inr [], sem_setval (ctl_seconds env) n val tgid sma, k1)
                  | _ \<Rightarrow> (Inl EINVAL, sma, k1)))"

text \<open>\<^verbatim>\<open>freeary\<close>: the undo structures are unlinked and every sleeper fails with EIDRM.\<close>

definition freeary :: "sem_array \<Rightarrow> sem_array" where
  "freeary sma =
     sma\<lparr>list_id := [], undo_of := (\<lambda>_. None), sem_pending := [],
         woken := woken sma @ map (\<lambda>q. (sleeper q, Failed EIDRM)) (sem_pending sma)\<rparr>"

text \<open>
  \<^verbatim>\<open>ipcctl_pre_down\<close> and \<^verbatim>\<open>semctl_down\<close>.  The new owner, group and mode come from
  user space.
\<close>

datatype semctl_down_cmd = IPC_RMID | IPC_SET "(uid_t \<times> gid_t \<times> mode_t) option"

definition ipcctl_pre_down ::
  "security_operations \<Rightarrow> kernel \<Rightarrow> unit result \<Rightarrow> kern_ipc_perm \<Rightarrow> unit result \<times> kernel" where
  "ipcctl_pre_down ops k lock ipcp =
     (case lock of
        Inl e \<Rightarrow> (Inl e, k)
      | Inr _ \<Rightarrow>
        if euid (current_cred k) = ipc_cuid ipcp \<or> euid (current_cred k) = ipc_uid ipcp then (Inr (), k)
        else case capable ops k CAP_SYS_ADMIN of
          (ok, k1) \<Rightarrow> (if ok then Inr () else Inl EPERM, k1))"

definition ipc_update_perm :: "uid_t \<times> gid_t \<times> mode_t \<Rightarrow> kern_ipc_perm \<Rightarrow> kern_ipc_perm" where
  "ipc_update_perm inp out =
     out\<lparr>ipc_uid := fst inp, ipc_gid := fst (snd inp),
         ipc_mode := (ipc_mode out AND NOT S_IRWXUGO) OR (snd (snd inp) AND S_IRWXUGO)\<rparr>"

definition semctl_down ::
  "security_operations \<Rightarrow> kernel \<Rightarrow> unit result \<Rightarrow> int \<Rightarrow> sem_array \<Rightarrow> semctl_down_cmd
     \<Rightarrow> unit result \<times> sem_array \<times> kernel" where
  "semctl_down ops k lock now sma cmd =
     (if cmd = IPC_SET None then (Inl EFAULT, sma, k)
      else case ipcctl_pre_down ops k lock (sem_perm sma) of
        (Inl e, k1) \<Rightarrow> (Inl e, sma, k1)
      | (Inr _, k1) \<Rightarrow>
        (case cmd of
           IPC_RMID \<Rightarrow> (Inr (), freeary sma, k1)
         | IPC_SET (Some p) \<Rightarrow>
             (Inr (), sma\<lparr>sem_perm := ipc_update_perm p (sem_perm sma), sem_ctime := now\<rparr>, k1)
         | _ \<Rightarrow> (Inl EINVAL, sma, k1)))"

text \<open>
  \<^verbatim>\<open>newary\<close> with the ids that \<^verbatim>\<open>ipc_addid\<close> stores; \<open>added\<close> is the outcome of the latter.
\<close>

definition newary ::
  "kernel \<Rightarrow> bool \<Rightarrow> unit result \<Rightarrow> int \<Rightarrow> int \<Rightarrow> int \<Rightarrow> nat \<Rightarrow> mode_t \<Rightarrow> sem_array result" where
  "newary k alloc_ok added used_sems sc_semmns now nsems semflg =
     (if nsems = 0 then Inl EINVAL
      else if used_sems + int nsems > sc_semmns then Inl ENOSPC
      else if \<not> alloc_ok then Inl ENOMEM
      else case added of
        Inl e \<Rightarrow> Inl e
      | Inr _ \<Rightarrow>
        let c = current_cred k
        in Inr \<lparr>sem_perm = \<lparr>ipc_uid = euid c, ipc_gid = egid c, ipc_cuid = euid c, ipc_cgid = egid c,
                            ipc_mode = semflg AND S_IRWXUGO\<rparr>,
                sem_otime = 0, sem_ctime = now, sem_base = replicate nsems \<lparr>semval = 0, sempid = 0\<rparr>,
                sem_pending = [], list_id = [], semadj = (\<lambda>_. []), undo_of = (\<lambda>_. None),
                next_undo = 0, woken = []\<rparr>)"

text \<open>The adjustments of \<^verbatim>\<open>exit_sem\<close> on one set, with the caps on the values.\<close>

definition exit_adjust :: "int \<Rightarrow> sem \<Rightarrow> u16 \<Rightarrow> sem" where
  "exit_adjust tgid c adj =
     (if sint adj = 0 then c
      else
        let v = semval c + sint adj;
            v1 = (if v < 0 then 0 else v);
            v2 = (if v1 > SEMVMX then SEMVMX else v1)
        in \<lparr>semval = v2, sempid = tgid\<rparr>)"

text \<open>
  One round of the loop of \<^verbatim>\<open>exit_sem\<close>, which the last task that shares the undo list
  runs for each set.
\<close>

definition exit_sem :: "int \<Rightarrow> nat \<Rightarrow> int \<Rightarrow> sem_array \<Rightarrow> sem_array" where
  "exit_sem now proc tgid sma =
     (case undo_of sma proc of
        None \<Rightarrow> sma
      | Some u \<Rightarrow>
        update_queue now
          (sma\<lparr>list_id := filter (\<lambda>x. x \<noteq> u) (list_id sma), undo_of := (undo_of sma)(proc := None),
               sem_base := map2 (exit_adjust tgid) (sem_base sma) (semadj sma u), sem_otime := now\<rparr>))"

end
