(* ===== verification/Sem_Spec.thy ===== *)
theory Sem_Spec
  imports Sem "HOL-Library.Sublist"
begin

text \<open>
  What the semaphore calls promise: operations are all or nothing, values stay within bounds, no
  operation that could be done is left sleeping, and the adjustments at exit undo what was done.
\<close>

section \<open>One operation\<close>

text \<open>The total change of semaphore \<open>i\<close> by a list of operations.\<close>

definition moved :: "nat \<Rightarrow> sembuf list \<Rightarrow> int" where
  "moved i sops = sum_list (map op_val (filter (\<lambda>sop. op_num sop = i) sops))"

lemma moved_simps [simp]:
  "moved i [] = 0"
  "moved i (sop # sops) = (if op_num sop = i then op_val sop else 0) + moved i sops"
  "moved i (xs @ ys) = moved i xs + moved i ys"
  "moved i (rev xs) = moved i xs"
  by (simp_all add: moved_def rev_map [symmetric] rev_filter [symmetric] sum_list_rev)

text \<open>Whether the \<open>n\<close>-th operation can be done once those before it are.\<close>

definition admissible :: "u16 list \<Rightarrow> sem list \<Rightarrow> sembuf list \<Rightarrow> nat \<Rightarrow> bool" where
  "admissible adj base sops n \<longleftrightarrow>
     (let sop = sops ! n; i = op_num sop; v = semval (base ! i) + moved i (take n sops)
      in (op_val sop = 0 \<longrightarrow> v = 0) \<and> 0 \<le> v + op_val sop \<and> v + op_val sop \<le> SEMVMX \<and>
         (sem_flg sop AND SEM_UNDO \<noteq> 0 \<longrightarrow>
            - SEMAEM - 1 \<le> sint (adj ! i) - op_val sop \<and> sint (adj ! i) - op_val sop \<le> SEMAEM))"

definition nums_ok :: "nat \<Rightarrow> sembuf list \<Rightarrow> bool" where
  "nums_ok n sops \<longleftrightarrow> (\<forall>sop \<in> set sops. op_num sop < n)"

lemma nums_ok_simps [simp]:
  "nums_ok n []" "nums_ok n (sop # sops) \<longleftrightarrow> op_num sop < n \<and> nums_ok n sops"
  "nums_ok n (xs @ ys) \<longleftrightarrow> nums_ok n xs \<and> nums_ok n ys" "nums_ok n (rev xs) \<longleftrightarrow> nums_ok n xs"
  by (auto simp: nums_ok_def)

text \<open>Values shifted by what a list of operations moves.\<close>

definition shifted :: "(nat \<Rightarrow> int) \<Rightarrow> sem list \<Rightarrow> sem list" where
  "shifted d base = map (\<lambda>i. (base ! i)\<lparr>semval := semval (base ! i) + d i\<rparr>) [0..<length base]"

lemma shifted_length [simp]: "length (shifted d base) = length base"
  by (simp add: shifted_def)

lemma shifted_nth [simp]:
  "i < length base \<Longrightarrow> shifted d base ! i = (base ! i)\<lparr>semval := semval (base ! i) + d i\<rparr>"
  by (simp add: shifted_def)

lemma shifted_zero [simp]: "shifted (\<lambda>_. 0) base = base"
  by (rule nth_equalityI) simp_all

lemma shifted_shifted [simp]: "shifted d (shifted e base) = shifted (\<lambda>i. e i + d i) base"
  by (rule nth_equalityI) simp_all

lemma shifted_update:
  "n < length base \<Longrightarrow>
   base[n := (base ! n)\<lparr>semval := semval (base ! n) + v\<rparr>] = shifted (\<lambda>i. if n = i then v else 0) base"
  by (rule nth_equalityI) (auto simp: nth_list_update)

lemma rollback_shifted:
  "nums_ok (length base) ops \<Longrightarrow> semop_rollback ops base = shifted (\<lambda>i. - moved i ops) base"
proof (induction ops arbitrary: base)
  case (Cons sop ops)
  let ?base = "base[op_num sop := (base ! op_num sop)\<lparr>semval := semval (base ! op_num sop) + - op_val sop\<rparr>]"
  have "?base = shifted (\<lambda>i. if op_num sop = i then - op_val sop else 0) base"
    using Cons.prems by (intro shifted_update) simp
  moreover have "semop_rollback ops ?base = shifted (\<lambda>i. - moved i ops) ?base"
    using Cons.prems by (intro Cons.IH) simp
  ultimately show ?case
    by (auto intro!: arg_cong2 [of _ _ _ _ shifted])
qed simp

lemma admissible_Cons_0:
  "admissible adj base (sop # sops) 0 \<longleftrightarrow>
     \<not> (op_val sop = 0 \<and> semval (base ! op_num sop) \<noteq> 0) \<and> \<not> semval (base ! op_num sop) + op_val sop < 0 \<and>
     \<not> semval (base ! op_num sop) + op_val sop > SEMVMX \<and>
     \<not> (sem_flg sop AND SEM_UNDO \<noteq> 0 \<and>
        (sint (adj ! op_num sop) - op_val sop < - SEMAEM - 1 \<or> sint (adj ! op_num sop) - op_val sop > SEMAEM))"
  by (auto simp: admissible_def Let_def)

lemma admissible_Cons_Suc:
  assumes "nums_ok (length base) (sop # sops)" "n < length sops"
  shows "admissible adj base (sop # sops) (Suc n) \<longleftrightarrow>
    admissible adj (base[op_num sop := (base ! op_num sop)\<lparr>semval := semval (base ! op_num sop) + op_val sop\<rparr>]) sops n"
proof -
  have "op_num (sops ! n) < length base"
    using assms by (auto simp: nums_ok_def)
  moreover have "base[op_num sop := (base ! op_num sop)\<lparr>semval := semval (base ! op_num sop) + op_val sop\<rparr>] =
      shifted (\<lambda>i. if op_num sop = i then op_val sop else 0) base"
    using assms by (intro shifted_update) simp
  ultimately show ?thesis
    by (simp add: admissible_def Let_def add.assoc)
qed

text \<open>
  The first loop applies a prefix of admissible operations, and stops early exactly at one that is
  not.
\<close>

lemma semop_apply_spec:
  assumes "nums_ok (length base) sops" "semop_apply adj sops applied base = (st, applied', base')"
  shows "\<exists>n \<le> length sops. applied' = rev (take n sops) @ applied \<and>
    base' = shifted (\<lambda>i. moved i (take n sops)) base \<and> (\<forall>j < n. admissible adj base sops j) \<and>
    (st = All \<longleftrightarrow> n = length sops) \<and> (n < length sops \<longrightarrow> \<not> admissible adj base sops n)"
  using assms
proof (induction sops arbitrary: applied base)
  case (Cons sop sops)
  let ?base = "base[op_num sop := (base ! op_num sop)\<lparr>semval := semval (base ! op_num sop) + op_val sop\<rparr>]"
  show ?case
  proof (cases "admissible adj base (sop # sops) 0")
    case True
    then have "semop_apply adj sops (sop # applied) ?base = (st, applied', base')"
      using Cons.prems(2) unfolding admissible_Cons_0 by (simp only: semop_apply.simps Let_def if_False)
    moreover have "nums_ok (length ?base) sops"
      using Cons.prems(1) by simp
    ultimately obtain n where n: "n \<le> length sops" "applied' = rev (take n sops) @ sop # applied"
      "base' = shifted (\<lambda>i. moved i (take n sops)) ?base" "\<forall>j < n. admissible adj ?base sops j"
      "st = All \<longleftrightarrow> n = length sops" "n < length sops \<longrightarrow> \<not> admissible adj ?base sops n"
      using Cons.IH by blast
    have base: "?base = shifted (\<lambda>i. if op_num sop = i then op_val sop else 0) base"
      using Cons.prems(1) by (intro shifted_update) simp
    have "\<forall>j < Suc n. admissible adj base (sop # sops) j"
      using True n(1,4) admissible_Cons_Suc [OF Cons.prems(1)] by (auto simp: less_Suc_eq_0_disj)
    moreover have "base' = shifted (\<lambda>i. moved i (take (Suc n) (sop # sops))) base"
      using n(3) unfolding base by simp
    moreover have "n < length sops \<longrightarrow> \<not> admissible adj base (sop # sops) (Suc n)"
      using n(6) admissible_Cons_Suc [OF Cons.prems(1)] by blast
    ultimately show ?thesis
      using n(1,2,5) by (intro exI [of _ "Suc n"]) simp
  next
    case False
    then have "st \<noteq> All \<and> applied' = applied \<and> base' = base"
      using Cons.prems(2) unfolding admissible_Cons_0 semop_apply.simps Let_def
      by (metis prod.inject semop_stop.distinct(1,3))
    then show ?thesis
      using False by (intro exI [of _ 0]) simp
  qed
qed simp

text \<open>The second loop changes no value.\<close>

lemma map_semval_sempid: "map semval (base[n := (base ! n)\<lparr>sempid := t\<rparr>]) = map semval base"
  by (cases "n < length base") (auto simp: nth_list_update intro!: nth_equalityI)

lemma semop_finish_base:
  "semop_finish tgid ops base adj = (base', adj') \<Longrightarrow>
   map semval base' = map semval base \<and> length adj' = length adj"
proof (induction ops arbitrary: base adj)
  case (Cons sop ops)
  show ?case
    using Cons.IH [OF Cons.prems [unfolded semop_finish.simps]] by (simp add: map_semval_sempid)
qed simp

text \<open>It records in the undo structure what the operations with SEM_UNDO moved.\<close>

definition undo_moved :: "nat \<Rightarrow> sembuf list \<Rightarrow> u16" where
  "undo_moved i sops = sum_list (map sem_op (filter (\<lambda>sop. op_num sop = i \<and> sem_flg sop AND SEM_UNDO \<noteq> 0) sops))"

lemma undo_moved_simps [simp]:
  "undo_moved i [] = 0"
  "undo_moved i (sop # sops) =
     (if op_num sop = i \<and> sem_flg sop AND SEM_UNDO \<noteq> 0 then sem_op sop else 0) + undo_moved i sops"
  "undo_moved i (rev xs) = undo_moved i xs"
  by (simp_all add: undo_moved_def rev_map [symmetric] rev_filter [symmetric] sum_list_rev)

lemma semop_finish_adj:
  assumes "semop_finish tgid ops base adj = (base', adj')" "i < length adj"
  shows "adj' ! i = adj ! i - undo_moved i ops"
  using assms
proof (induction ops arbitrary: base adj)
  case (Cons sop ops)
  let ?adj = "if sem_flg sop AND SEM_UNDO \<noteq> 0 then adj[op_num sop := adj ! op_num sop - sem_op sop] else adj"
  have "adj' ! i = ?adj ! i - undo_moved i ops"
    using Cons.prems(2) by (intro Cons.IH [OF Cons.prems(1) [unfolded semop_finish.simps]]) simp
  then show ?case
    using Cons.prems(2) by (auto simp: nth_list_update)
qed simp

lemma set_adj_frame [simp]:
  "sem_pending (set_adj un adj sma) = sem_pending sma" "woken (set_adj un adj sma) = woken sma"
  "list_id (set_adj un adj sma) = list_id sma" "undo_of (set_adj un adj sma) = undo_of sma"
  "next_undo (set_adj un adj sma) = next_undo sma" "sem_perm (set_adj un adj sma) = sem_perm sma"
  "sem_ctime (set_adj un adj sma) = sem_ctime sma"
  by (simp_all add: set_adj_def split: option.splits)

lemma semadj_set_adj:
  "semadj (set_adj un adj sma) u = (if un = Some u then adj else semadj sma u)"
  by (simp add: set_adj_def split: option.splits)

lemma try_atomic_semop_frame:
  assumes "try_atomic_semop now sma sops un tgid = (r, sma')"
  shows "sem_pending sma' = sem_pending sma" "woken sma' = woken sma" "list_id sma' = list_id sma"
    "undo_of sma' = undo_of sma" "next_undo sma' = next_undo sma" "sem_perm sma' = sem_perm sma"
    "length (semadj sma' u) = length (semadj sma u)" "un \<noteq> Some u \<Longrightarrow> semadj sma' u = semadj sma u"
  using assms unfolding try_atomic_semop_def
  by (auto simp: semadj_set_adj adj_of_def split: prod.splits semop_stop.splits dest!: semop_finish_base)

lemma try_atomic_semop_spec:
  assumes "try_atomic_semop now sma sops un tgid = (r, sma')" "nums_ok (length (sem_base sma)) sops"
  shows "r = Done \<longleftrightarrow> (\<forall>n < length sops. admissible (adj_of sma un) (sem_base sma) sops n)"
    and "r \<noteq> Done \<Longrightarrow> sma' = sma"
    and "r = Done \<Longrightarrow> map semval (sem_base sma') = map semval (shifted (\<lambda>i. moved i sops) (sem_base sma))"
    and "r = Done \<Longrightarrow> i < length (adj_of sma un) \<Longrightarrow> adj_of sma' un ! i = adj_of sma un ! i - undo_moved i sops"
proof -
  obtain st applied base where a: "semop_apply (adj_of sma un) sops [] (sem_base sma) = (st, applied, base)"
    by (cases "semop_apply (adj_of sma un) sops [] (sem_base sma)") auto
  obtain n where n: "n \<le> length sops" "applied = rev (take n sops)"
    "base = shifted (\<lambda>i. moved i (take n sops)) (sem_base sma)"
    "\<forall>j < n. admissible (adj_of sma un) (sem_base sma) sops j" "st = All \<longleftrightarrow> n = length sops"
    "n < length sops \<longrightarrow> \<not> admissible (adj_of sma un) (sem_base sma) sops n"
    using semop_apply_spec [OF assms(2) a] by auto
  obtain base1 adj1 where f: "semop_finish tgid applied base (adj_of sma un) = (base1, adj1)"
    by (cases "semop_finish tgid applied base (adj_of sma un)") auto
  have ok: "nums_ok (length (sem_base sma)) (take n sops)"
    using assms(2) by (auto simp: nums_ok_def dest: in_set_takeD)
  have "nums_ok (length base) (rev (take n sops))"
    using ok n(3) by simp
  then have roll: "semop_rollback applied base = sem_base sma"
    using n(2,3) rollback_shifted [of base] by simp
  have r: "r = Done \<longleftrightarrow> st = All"
    using assms(1) unfolding try_atomic_semop_def a
    by (auto simp: f split: semop_stop.splits if_splits)
  have fin: "sma' = (set_adj un adj1 sma)\<lparr>sem_base := base1, sem_otime := now\<rparr>" if "r = Done"
    using assms(1) that r unfolding try_atomic_semop_def a prod.case by (simp only: f semop_stop.case) simp
  show "r = Done \<longleftrightarrow> (\<forall>n < length sops. admissible (adj_of sma un) (sem_base sma) sops n)"
    using r n(1,4,5,6) le_neq_implies_less by blast
  show "r \<noteq> Done \<Longrightarrow> sma' = sma"
    using assms(1) r unfolding try_atomic_semop_def a by (auto simp: roll split: semop_stop.splits)
  show "r = Done \<Longrightarrow> map semval (sem_base sma') = map semval (shifted (\<lambda>i. moved i sops) (sem_base sma))"
    using fin r n(3,5) semop_finish_base [OF f] by simp
  show "r = Done \<Longrightarrow> i < length (adj_of sma un) \<Longrightarrow> adj_of sma' un ! i = adj_of sma un ! i - undo_moved i sops"
    using fin r n(2,5) semop_finish_adj [OF f] by (cases un) (simp_all add: adj_of_def semadj_set_adj)
qed

lemma try_atomic_semop_length:
  assumes "try_atomic_semop now sma sops un tgid = (r, sma')" "nums_ok (length (sem_base sma)) sops"
  shows "length (sem_base sma') = length (sem_base sma)"
  using try_atomic_semop_spec(2,3) [OF assms] by (metis length_map shifted_length)

text \<open>The outcome depends on the values and the undo structure only.\<close>

lemma semop_apply_cong:
  assumes "map semval base1 = map semval base2" "nums_ok (length base1) sops"
  shows "fst (semop_apply adj sops ap1 base1) = fst (semop_apply adj sops ap2 base2)"
  using assms
proof (induction sops arbitrary: ap1 ap2 base1 base2)
  case (Cons sop sops)
  let ?i = "op_num sop"
  have len: "length base1 = length base2"
    using Cons.prems(1) by (rule map_eq_imp_length_eq)
  have i: "?i < length base1"
    using Cons.prems(2) by simp
  then have v: "semval (base1 ! ?i) = semval (base2 ! ?i)"
    using Cons.prems(1) len by (metis nth_map)
  have "map semval (base1[?i := (base1 ! ?i)\<lparr>semval := w\<rparr>]) = map semval (base2[?i := (base2 ! ?i)\<lparr>semval := w\<rparr>])" for w
    using Cons.prems(1) by (simp add: map_update)
  moreover have "nums_ok (length (base1[?i := x])) sops" for x
    using Cons.prems(2) by simp
  ultimately have "fst (semop_apply adj sops (sop # ap1) (base1[?i := (base1 ! ?i)\<lparr>semval := w\<rparr>])) =
      fst (semop_apply adj sops (sop # ap2) (base2[?i := (base2 ! ?i)\<lparr>semval := w\<rparr>]))" for w
    using Cons.IH by blast
  then show ?case
    by (simp only: semop_apply.simps Let_def v fst_conv if_distrib [of fst])
qed simp

lemma try_atomic_semop_fst:
  "fst (try_atomic_semop now sma sops un tgid) =
     (case fst (semop_apply (adj_of sma un) sops [] (sem_base sma)) of
        All \<Rightarrow> Done
      | Would_block sop \<Rightarrow> if sem_flg sop AND IPC_NOWAIT \<noteq> 0 then Failed EAGAIN else Sleep
      | Out_of_range \<Rightarrow> Failed ERANGE)"
  by (simp add: try_atomic_semop_def split: prod.splits semop_stop.splits)

lemma try_atomic_semop_cong:
  assumes "map semval (sem_base sma1) = map semval (sem_base sma2)" "adj_of sma1 un = adj_of sma2 un"
    "nums_ok (length (sem_base sma1)) sops"
  shows "fst (try_atomic_semop now sma1 sops un tgid) = fst (try_atomic_semop now' sma2 sops un tgid')"
  unfolding try_atomic_semop_fst using assms semop_apply_cong [OF assms(1,3)] by metis

text \<open>Operations that alter nothing leave values and undo structures alone.\<close>

lemma not_alters_moved:
  assumes "\<not> alters sops"
  shows "moved i sops = 0" "undo_moved i sops = 0"
proof -
  have "op_val sop = 0 \<and> sem_op sop = 0" if "sop \<in> set sops" for sop
    using assms that unfolding alters_def by (metis sint_0 signed_word_eqI)
  then show "moved i sops = 0" "undo_moved i sops = 0"
    by (induction sops) simp_all
qed

lemma try_not_alters:
  assumes "try_atomic_semop now sma sops un tgid = (r, sma')" "nums_ok (length (sem_base sma)) sops"
    "\<not> alters sops"
  shows "map semval (sem_base sma') = map semval (sem_base sma)" "semadj sma' u = semadj sma u"
proof -
  show "map semval (sem_base sma') = map semval (sem_base sma)"
    using try_atomic_semop_spec(2,3) [OF assms(1,2)] not_alters_moved [OF assms(3)] by (cases "r = Done") simp_all
  show "semadj sma' u = semadj sma u"
  proof (cases "r = Done \<and> un = Some u")
    case True
    then have "semadj sma' u ! i = semadj sma u ! i" if "i < length (semadj sma u)" for i
      using try_atomic_semop_spec(4) [OF assms(1,2), of i] that not_alters_moved [OF assms(3)]
      by (simp add: adj_of_def)
    then show ?thesis
      using try_atomic_semop_frame(7) [OF assms(1)] by (intro nth_equalityI) simp_all
  next
    case False
    then show ?thesis
      using try_atomic_semop_spec(2) [OF assms(1,2)] try_atomic_semop_frame(8) [OF assms(1)] by blast
  qed
qed

text \<open>
  C23: semop is all or nothing.  The operations are done exactly when each is admissible after those
  before it; then every semaphore has moved by the sum of its operations, and the undo structure
  records what those with SEM_UNDO moved, modulo 2^16.  Otherwise the set is left as it was.
\<close>

theorem semop_atomic:
  assumes "nums_ok (length (sem_base sma)) sops" "try_atomic_semop now sma sops un tgid = (r, sma')"
  shows "(r = Done \<longleftrightarrow> (\<forall>n < length sops. admissible (adj_of sma un) (sem_base sma) sops n)) \<and>
    (r \<noteq> Done \<longrightarrow> sma' = sma) \<and>
    (r = Done \<longrightarrow>
      (\<forall>i < length (sem_base sma). semval (sem_base sma' ! i) = semval (sem_base sma ! i) + moved i sops) \<and>
      (\<forall>i < length (adj_of sma un). adj_of sma' un ! i = adj_of sma un ! i - undo_moved i sops))"
proof -
  note spec = try_atomic_semop_spec [OF assms(2,1)]
  have "semval (sem_base sma' ! i) = semval (sem_base sma ! i) + moved i sops"
    if "r = Done" "i < length (sem_base sma)" for i
  proof -
    have "map semval (sem_base sma') ! i = map semval (shifted (\<lambda>i. moved i sops) (sem_base sma)) ! i"
      using spec(3) [OF that(1)] by simp
    then show ?thesis
      using that(2) try_atomic_semop_length [OF assms(2,1)] by simp
  qed
  then show ?thesis
    using spec(1,2,4) by blast
qed

text \<open>A small set, with an undo structure for process 7.\<close>

definition example_set :: "int list \<Rightarrow> sem_queue list \<Rightarrow> sem_array" where
  "example_set vals qs =
     \<lparr>sem_perm = \<lparr>ipc_uid = 0, ipc_gid = 0, ipc_cuid = 0, ipc_cgid = 0, ipc_mode = 0x1B6\<rparr>,
      sem_otime = 0, sem_ctime = 0, sem_base = map (\<lambda>v. \<lparr>semval = v, sempid = 0\<rparr>) vals,
      sem_pending = qs, list_id = [0], semadj = (\<lambda>_. map (\<lambda>_. 0) vals), undo_of = (\<lambda>p. if p = 7 then Some 0 else None),
      next_undo = 1, woken = []\<rparr>"

definition op :: "u16 \<Rightarrow> u16 \<Rightarrow> u16 \<Rightarrow> sembuf" where
  "op n v flg = \<lparr>sem_num = n, sem_op = v, sem_flg = flg\<rparr>"

theorem semop_atomic_witness:
  "map semval (sem_base (snd (try_atomic_semop 0 (example_set [2, 0] []) [op 0 (-1) 0, op 1 3 SEM_UNDO] (Some 0) 5))) = [1, 3] \<and>
   snd (try_atomic_semop 0 (example_set [2, 0] []) [op 1 3 0, op 0 (-3) 0] None 5) = example_set [2, 0] []"
proof -
  let ?s = "example_set [2, 0] []"
  have len: "length (sem_base ?s) = 2" "map semval (sem_base ?s) = [2, 0]"
    by (simp_all add: example_set_def)
  have ok: "nums_ok (length (sem_base ?s)) [op 0 (-1) 0, op 1 3 SEM_UNDO]"
    "nums_ok (length (sem_base ?s)) [op 1 3 0, op 0 (-3) 0]"
    by (simp_all add: len op_def)
  let ?t = "try_atomic_semop 0 ?s [op 0 (-1) 0, op 1 3 SEM_UNDO] (Some 0) 5"
  let ?t' = "try_atomic_semop 0 ?s [op 1 3 0, op 0 (-3) 0] None 5"
  have runs: "fst ?t = Done" "fst ?t' = Sleep" "length (sem_base (snd ?t)) = 2"
    "moved 0 [op 0 (-1) 0, op 1 3 SEM_UNDO] = -1" "moved 1 [op 0 (-1) 0, op 1 3 SEM_UNDO] = 3"
    by code_simp+
  have "\<forall>i < 2. semval (sem_base (snd ?t) ! i) = semval (sem_base ?s ! i) + moved i [op 0 (-1) 0, op 1 3 SEM_UNDO]"
    using semop_atomic [OF ok(1) prod.collapse [symmetric], of 0 "Some 0" 5] runs(1) len(1) by simp
  moreover have "semval (sem_base ?s ! 0) = 2" "semval (sem_base ?s ! 1) = 0"
    by (simp_all add: example_set_def)
  ultimately have "map semval (sem_base (snd ?t)) = [1, 3]"
    using runs(3-5) by (intro nth_equalityI) (auto simp: less_2_cases_iff)
  moreover have "snd ?t' = ?s"
    using semop_atomic [OF ok(2) prod.collapse [symmetric], of 0 None 5] runs(2) by simp
  ultimately show ?thesis
    by simp
qed

section \<open>The queue\<close>

text \<open>A queue entry that has to sleep on; the time and the caller play no part.\<close>

definition asleep :: "sem_array \<Rightarrow> sem_queue \<Rightarrow> bool" where
  "asleep sma q \<longleftrightarrow> fst (try_atomic_semop 0 sma (q_sops q) (q_undo q) (q_pid q)) = Sleep"

definition queue_ok :: "nat \<Rightarrow> sem_queue \<Rightarrow> bool" where
  "queue_ok n q \<longleftrightarrow> nums_ok n (q_sops q) \<and> q_alter q = alters (q_sops q)"

lemma asleep_cong:
  assumes "map semval (sem_base sma1) = map semval (sem_base sma2)" "adj_of sma1 (q_undo q) = adj_of sma2 (q_undo q)"
    "queue_ok (length (sem_base sma1)) q" "asleep sma1 q"
  shows "asleep sma2 q"
  using assms try_atomic_semop_cong [OF assms(1,2)] unfolding asleep_def queue_ok_def by metis

lemma adj_of_cong: "(\<And>u. semadj sma1 u = semadj sma2 u) \<Longrightarrow> adj_of sma1 un = adj_of sma2 un"
  by (simp add: adj_of_def split: option.splits)

lemma adj_of_fields [simp]:
  "adj_of (sma\<lparr>sem_pending := qs\<rparr>) un = adj_of sma un" "adj_of (sma\<lparr>woken := w\<rparr>) un = adj_of sma un"
  "adj_of (sma\<lparr>sem_perm := p\<rparr>) un = adj_of sma un" "adj_of (sma\<lparr>sem_ctime := t\<rparr>) un = adj_of sma un"
  by (rule adj_of_cong, simp)+

lemma wake_frame [simp]:
  "sem_base (wake q st sma) = sem_base sma" "semadj (wake q st sma) = semadj sma"
  "list_id (wake q st sma) = list_id sma" "undo_of (wake q st sma) = undo_of sma"
  "next_undo (wake q st sma) = next_undo sma" "sem_perm (wake q st sma) = sem_perm sma"
  "woken (wake q st sma) = woken sma @ [(sleeper q, st)]" "sem_pending (wake q st sma) = sem_pending sma"
  by (simp_all add: wake_def)

text \<open>The three ways the scan goes on, and induction over them.\<close>

lemma update_loop_Cons:
  assumes "try_atomic_semop now sma (q_sops q) (q_undo q) (q_pid q) = (r, sma1)"
  shows "update_loop now sma scanned (q # rest) =
    (if r = Sleep then update_loop now sma1 (scanned @ [q]) rest
     else if q_alter q then update_loop now (wake q r sma1) [] (scanned @ rest)
     else update_loop now (wake q r sma1) scanned rest)"
  using assms by (cases r) simp_all

declare update_loop.simps(2) [simp del]

lemma update_loop_induct [case_names Nil Sleep Alter Keep]:
  assumes Nil: "\<And>sma scanned. P sma scanned []"
    and Sleep: "\<And>sma scanned q rest sma1.
      try_atomic_semop now sma (q_sops q) (q_undo q) (q_pid q) = (Sleep, sma1) \<Longrightarrow>
      P sma1 (scanned @ [q]) rest \<Longrightarrow> P sma scanned (q # rest)"
    and Alter: "\<And>sma scanned q rest r sma1.
      try_atomic_semop now sma (q_sops q) (q_undo q) (q_pid q) = (r, sma1) \<Longrightarrow> r \<noteq> Sleep \<Longrightarrow> q_alter q \<Longrightarrow>
      P (wake q r sma1) [] (scanned @ rest) \<Longrightarrow> P sma scanned (q # rest)"
    and Keep: "\<And>sma scanned q rest r sma1.
      try_atomic_semop now sma (q_sops q) (q_undo q) (q_pid q) = (r, sma1) \<Longrightarrow> r \<noteq> Sleep \<Longrightarrow> \<not> q_alter q \<Longrightarrow>
      P (wake q r sma1) scanned rest \<Longrightarrow> P sma scanned (q # rest)"
  shows "P sma scanned rest"
proof (induction "length scanned + length rest" arbitrary: sma scanned rest rule: less_induct)
  case outer: less
  then show ?case
  proof (induction rest arbitrary: sma scanned)
    case (Cons q rest)
    obtain r sma1 where t: "try_atomic_semop now sma (q_sops q) (q_undo q) (q_pid q) = (r, sma1)"
      by (cases "try_atomic_semop now sma (q_sops q) (q_undo q) (q_pid q)") auto
    have shorter: "P sma' [] (scanned @ rest)" "P sma' scanned rest" for sma'
      using Cons.prems by simp_all
    have "P sma1 (scanned @ [q]) rest"
      using Cons.prems by (intro Cons.IH) simp
    then show ?case
      using t shorter Sleep Alter Keep by metis
  qed (rule Nil)
qed

text \<open>What single operations keep, the scan keeps.\<close>

lemma update_loop_invariant:
  assumes "P sma"
    and "\<And>sma q r sma1. q \<in> set scanned \<union> set rest \<Longrightarrow> P sma \<Longrightarrow>
      try_atomic_semop now sma (q_sops q) (q_undo q) (q_pid q) = (r, sma1) \<Longrightarrow> P sma1"
    and wake: "\<And>sma q st. P sma \<Longrightarrow> P (wake q st sma)" and pending: "\<And>sma qs. P sma \<Longrightarrow> P (sma\<lparr>sem_pending := qs\<rparr>)"
  shows "P (update_loop now sma scanned rest)"
  using assms(1,2)
proof (induction sma scanned rest rule: update_loop_induct [where now = now])
  case (Sleep sma scanned q rest sma1)
  have "P sma1"
    using Sleep.prems Sleep.hyps(1) by (metis Un_iff list.set_intros(1))
  then show ?case
    using Sleep.IH Sleep.prems(2) by (simp add: update_loop_Cons [OF Sleep.hyps(1)])
next
  case (Alter sma scanned q rest r sma1)
  have "P (wake q r sma1)"
    using wake Alter.prems Alter.hyps(1) by (metis Un_iff list.set_intros(1))
  then have "P (update_loop now (wake q r sma1) [] (scanned @ rest))"
    by (rule Alter.IH) (rule Alter.prems(2), auto)
  then show ?case
    using Alter.hyps(2,3) by (simp add: update_loop_Cons [OF Alter.hyps(1)])
next
  case (Keep sma scanned q rest r sma1)
  have "P (wake q r sma1)"
    using wake Keep.prems Keep.hyps(1) by (metis Un_iff list.set_intros(1))
  then have "P (update_loop now (wake q r sma1) scanned rest)"
    by (rule Keep.IH) (rule Keep.prems(2), auto)
  then show ?case
    using Keep.hyps(2,3) by (simp add: update_loop_Cons [OF Keep.hyps(1)])
qed (simp add: pending)

lemma update_loop_length:
  assumes "\<forall>q \<in> set scanned \<union> set rest. queue_ok (length (sem_base sma)) q"
  shows "length (sem_base (update_loop now sma scanned rest)) = length (sem_base sma)"
proof (rule update_loop_invariant [where P = "\<lambda>s. length (sem_base s) = length (sem_base sma)"])
  fix s q r s1
  assume "q \<in> set scanned \<union> set rest" "length (sem_base s) = length (sem_base sma)"
    "try_atomic_semop now s (q_sops q) (q_undo q) (q_pid q) = (r, s1)"
  then show "length (sem_base s1) = length (sem_base sma)"
    using assms try_atomic_semop_length unfolding queue_ok_def by metis
qed simp_all

lemma update_loop_asleep:
  assumes "\<forall>q \<in> set scanned \<union> set rest. queue_ok (length (sem_base sma)) q" "\<forall>q \<in> set scanned. asleep sma q"
  shows "\<forall>q \<in> set (sem_pending (update_loop now sma scanned rest)). asleep (update_loop now sma scanned rest) q"
  using assms
proof (induction sma scanned rest rule: update_loop_induct [where now = now])
  case (Nil sma scanned)
  have "asleep (sma\<lparr>sem_pending := scanned\<rparr>) q" if "q \<in> set scanned" for q
    by (rule asleep_cong [of sma]) (use that Nil.prems in simp_all)
  then show ?case
    by simp
next
  case (Sleep sma scanned q rest sma1)
  have ok: "nums_ok (length (sem_base sma)) (q_sops q)"
    using Sleep.prems(1) by (simp add: queue_ok_def)
  have eq: "sma1 = sma"
    using try_atomic_semop_spec(2) [OF Sleep.hyps(1) ok] by simp
  have "asleep sma q"
    using Sleep.hyps(1) try_atomic_semop_cong [OF refl refl ok] unfolding asleep_def by (metis fst_conv)
  then show ?case
    using Sleep.prems Sleep.IH by (simp add: update_loop_Cons [OF Sleep.hyps(1)] eq)
next
  case (Alter sma scanned q rest r sma1)
  have "length (sem_base sma1) = length (sem_base sma)"
    using try_atomic_semop_length [OF Alter.hyps(1)] Alter.prems(1) by (simp add: queue_ok_def)
  then show ?case
    using Alter.prems Alter.IH Alter.hyps(2,3) by (simp add: update_loop_Cons [OF Alter.hyps(1)] ball_Un)
next
  case (Keep sma scanned q rest r sma1)
  have ok: "nums_ok (length (sem_base sma)) (q_sops q)" "\<not> alters (q_sops q)"
    using Keep.prems(1) Keep.hyps(3) by (simp_all add: queue_ok_def)
  note same = try_not_alters [OF Keep.hyps(1) ok]
  have len: "length (sem_base sma1) = length (sem_base sma)"
    using try_atomic_semop_length [OF Keep.hyps(1) ok(1)] .
  have adj: "adj_of sma un = adj_of (wake q r sma1) un" for un
    using same(2) by (intro adj_of_cong) simp
  have "\<forall>q' \<in> set scanned. asleep (wake q r sma1) q'"
  proof
    fix q' assume "q' \<in> set scanned"
    then have "asleep sma q'" "queue_ok (length (sem_base sma)) q'"
      using Keep.prems by simp_all
    with same(1) adj show "asleep (wake q r sma1) q'"
      by (metis asleep_cong wake_frame(1))
  qed
  then show ?case
    using Keep.prems(1) Keep.IH Keep.hyps(2,3) by (simp add: update_loop_Cons [OF Keep.hyps(1)] len)
qed

text \<open>Entries left the queue \<open>q0\<close>, giving \<open>qs\<close>, and were woken after those of \<open>w0\<close>.\<close>

definition drained :: "sem_queue list \<Rightarrow> (nat \<times> semop_result) list \<Rightarrow> sem_queue list \<Rightarrow> (nat \<times> semop_result) list \<Rightarrow> bool" where
  "drained q0 w0 qs w \<longleftrightarrow> subseq qs q0 \<and>
     (\<exists>ws. w = w0 @ ws \<and> (\<forall>x \<in> set ws. snd x \<noteq> Sleep) \<and>
       mset (map fst ws) + mset (map sleeper qs) = mset (map sleeper q0))"

lemma drained_step:
  assumes "drained (xs @ ys) (w0 @ [(sleeper q, r)]) qs w" "r \<noteq> Sleep"
  shows "drained (xs @ q # ys) w0 qs w"
proof -
  obtain ws where ws: "subseq qs (xs @ ys)" "w = (w0 @ [(sleeper q, r)]) @ ws" "\<forall>x \<in> set ws. snd x \<noteq> Sleep"
    "mset (map fst ws) + mset (map sleeper qs) = mset (map sleeper (xs @ ys))"
    using assms(1) unfolding drained_def by blast
  have "subseq (xs @ ys) (xs @ q # ys)"
    by (intro list_emb_append_mono) auto
  then have "subseq qs (xs @ q # ys)"
    using ws(1) subseq_order.order_trans by blast
  then show ?thesis
    unfolding drained_def using ws(2-4) assms(2) by (intro conjI exI [of _ "(sleeper q, r) # ws"]) simp_all
qed

lemma update_loop_queue:
  "drained (scanned @ rest) (woken sma) (sem_pending (update_loop now sma scanned rest))
     (woken (update_loop now sma scanned rest))"
proof (induction sma scanned rest rule: update_loop_induct [where now = now])
  case (Nil sma scanned)
  then show ?case
    by (simp add: drained_def)
next
  case (Sleep sma scanned q rest sma1)
  then show ?case
    by (simp add: update_loop_Cons [OF Sleep.hyps(1)] try_atomic_semop_frame(2) [OF Sleep.hyps(1)])
next
  case (Alter sma scanned q rest r sma1)
  show ?case
    using drained_step [OF Alter.IH [simplified] Alter.hyps(2)] Alter.hyps(2,3)
    by (simp add: update_loop_Cons [OF Alter.hyps(1)] try_atomic_semop_frame(2) [OF Alter.hyps(1)])
next
  case (Keep sma scanned q rest r sma1)
  show ?case
    using drained_step [OF Keep.IH [simplified] Keep.hyps(2)] Keep.hyps(2,3)
    by (simp add: update_loop_Cons [OF Keep.hyps(1)] try_atomic_semop_frame(2) [OF Keep.hyps(1)])
qed

text \<open>
  C24: update_queue wakes all it can.  Afterwards no operation left in the queue can be done, the
  queue keeps its order, and exactly the entries that left it were woken, each once and with a
  result.
\<close>

theorem update_queue_complete:
  assumes "\<forall>q \<in> set (sem_pending sma). queue_ok (length (sem_base sma)) q"
  shows "(\<forall>q \<in> set (sem_pending (update_queue now sma)). asleep (update_queue now sma) q) \<and>
    subseq (sem_pending (update_queue now sma)) (sem_pending sma) \<and>
    (\<exists>ws. woken (update_queue now sma) = woken sma @ ws \<and> (\<forall>w \<in> set ws. snd w \<noteq> Sleep) \<and>
      mset (map fst ws) + mset (map sleeper (sem_pending (update_queue now sma))) =
        mset (map sleeper (sem_pending sma)))"
proof -
  have "drained (sem_pending sma) (woken sma) (sem_pending (update_queue now sma)) (woken (update_queue now sma))"
    using update_loop_queue [of "[]" "sem_pending sma" sma now] unfolding update_queue_def by simp
  moreover have "\<forall>q \<in> set (sem_pending (update_queue now sma)). asleep (update_queue now sma) q"
    using update_loop_asleep [of "[]" "sem_pending sma" sma now] assms unfolding update_queue_def by simp
  ultimately show ?thesis
    unfolding drained_def by blast
qed

definition example_sleeper :: "nat \<Rightarrow> sembuf list \<Rightarrow> sem_queue" where
  "example_sleeper me sops = \<lparr>sleeper = me, q_sops = sops, q_undo = None, q_pid = 5, q_alter = alters sops\<rparr>"

theorem update_queue_complete_witness:
  "(let s = update_queue 0 (example_set [1] [example_sleeper 10 [op 0 0 0], example_sleeper 11 [op 0 (-2) 0], example_sleeper 12 [op 0 (-1) 0]])
    in map sleeper (sem_pending s) = [11] \<and> (\<forall>q \<in> set (sem_pending s). asleep s q) \<and> map fst (woken s) = [12, 10])"
proof -
  let ?s = "example_set [1] [example_sleeper 10 [op 0 0 0], example_sleeper 11 [op 0 (-2) 0], example_sleeper 12 [op 0 (-1) 0]]"
  have "\<forall>q \<in> set (sem_pending ?s). queue_ok (length (sem_base ?s)) q"
    by (simp add: example_set_def example_sleeper_def queue_ok_def op_def)
  note spec = update_queue_complete [OF this, of 0]
  have "map sleeper (sem_pending (update_queue 0 ?s)) = [11]" "map fst (woken (update_queue 0 ?s)) = [12, 10]"
    by code_simp+
  then show ?thesis
    using spec unfolding Let_def by blast
qed

section \<open>Runs of calls\<close>

definition vals_ok :: "sem_array \<Rightarrow> bool" where
  "vals_ok sma \<longleftrightarrow> (\<forall>c \<in> set (sem_base sma). 0 \<le> semval c \<and> semval c \<le> SEMVMX)"

text \<open>The undo structure that an entry refers to, if any, covers the whole set.\<close>

definition undo_live :: "sem_array \<Rightarrow> nat \<Rightarrow> bool" where
  "undo_live sma u \<longleftrightarrow> u < next_undo sma \<and> length (semadj sma u) = length (sem_base sma)"

definition sem_wf :: "sem_array \<Rightarrow> bool" where
  "sem_wf sma \<longleftrightarrow> vals_ok sma \<and>
     (\<forall>q \<in> set (sem_pending sma). queue_ok (length (sem_base sma)) q \<and>
        (has_undo (q_sops q) \<longrightarrow> q_undo q \<noteq> None) \<and> (\<forall>u. q_undo q = Some u \<longrightarrow> undo_live sma u)) \<and>
     (\<forall>p u. undo_of sma p = Some u \<longrightarrow> u \<in> set (list_id sma) \<and> (\<forall>p'. undo_of sma p' = Some u \<longrightarrow> p' = p)) \<and>
     (\<forall>u \<in> set (list_id sma). undo_live sma u)"

definition none_ready :: "sem_array \<Rightarrow> bool" where
  "none_ready sma \<longleftrightarrow> (\<forall>q \<in> set (sem_pending sma). asleep sma q)"

lemma semop_apply_vals:
  assumes "\<forall>c \<in> set base. 0 \<le> semval c \<and> semval c \<le> SEMVMX" "semop_apply adj sops applied base = (st, applied', base')"
  shows "\<forall>c \<in> set base'. 0 \<le> semval c \<and> semval c \<le> SEMVMX"
  using assms
proof (induction sops arbitrary: applied base)
  case (Cons sop sops)
  show ?case
  proof (cases "admissible adj base (sop # sops) 0")
    case True
    let ?c = "(base ! op_num sop)\<lparr>semval := semval (base ! op_num sop) + op_val sop\<rparr>"
    have "semop_apply adj sops (sop # applied) (base[op_num sop := ?c]) = (st, applied', base')"
      using True Cons.prems(2) unfolding admissible_Cons_0 by (simp only: semop_apply.simps Let_def if_False)
    moreover have "\<forall>c \<in> set (base[op_num sop := ?c]). 0 \<le> semval c \<and> semval c \<le> SEMVMX"
      using Cons.prems(1) True set_update_subset_insert [of base "op_num sop" ?c]
      unfolding admissible_Cons_0 by (auto simp: not_less)
    ultimately show ?thesis
      using Cons.IH by blast
  next
    case False
    then have "base' = base"
      using Cons.prems(2) unfolding admissible_Cons_0 semop_apply.simps Let_def by (metis prod.inject)
    then show ?thesis
      using Cons.prems(1) by simp
  qed
qed simp

lemma vals_ok_map: "vals_ok sma \<longleftrightarrow> (\<forall>v \<in> set (map semval (sem_base sma)). 0 \<le> v \<and> v \<le> SEMVMX)"
  by (simp add: vals_ok_def)

lemma try_vals_ok:
  assumes "vals_ok sma" "try_atomic_semop now sma sops un tgid = (r, sma')" "nums_ok (length (sem_base sma)) sops"
  shows "vals_ok sma'"
proof (cases "r = Done")
  case True
  obtain st applied base where a: "semop_apply (adj_of sma un) sops [] (sem_base sma) = (st, applied, base)"
    by (cases "semop_apply (adj_of sma un) sops [] (sem_base sma)") auto
  have "base = shifted (\<lambda>i. moved i sops) (sem_base sma)"
    using semop_apply_spec [OF assms(3) a] try_atomic_semop_spec(1) [OF assms(2,3)] True
    by (metis le_neq_implies_less take_all_iff order_refl)
  then show ?thesis
    using semop_apply_vals [OF _ a] assms(1) try_atomic_semop_spec(3) [OF assms(2,3) True]
    unfolding vals_ok_map by (simp add: vals_ok_def)
next
  case False
  then show ?thesis
    using assms(1) try_atomic_semop_spec(2) [OF assms(2,3)] by simp
qed

lemma try_undo_live:
  assumes "try_atomic_semop now sma sops un tgid = (r, sma')" "nums_ok (length (sem_base sma)) sops"
  shows "undo_live sma' u = undo_live sma u"
  using try_atomic_semop_frame(5,7) [OF assms(1)] try_atomic_semop_length [OF assms] by (simp add: undo_live_def)

lemma try_wf:
  assumes "sem_wf sma" "try_atomic_semop now sma sops un tgid = (r, sma')" "nums_ok (length (sem_base sma)) sops"
  shows "sem_wf sma'"
  using assms(1) try_vals_ok [OF _ assms(2,3)] try_atomic_semop_length [OF assms(2,3)]
  unfolding sem_wf_def try_undo_live [OF assms(2,3)] try_atomic_semop_frame(1-6) [OF assms(2)] by metis

text \<open>The scan keeps all but values, waiting entries and the contents of undo structures.\<close>

definition scan_frame :: "sem_array \<Rightarrow> sem_array \<Rightarrow> bool" where
  "scan_frame sma s \<longleftrightarrow> vals_ok s \<and> length (sem_base s) = length (sem_base sma) \<and> list_id s = list_id sma \<and>
     undo_of s = undo_of sma \<and> next_undo s = next_undo sma \<and> sem_perm s = sem_perm sma \<and>
     (\<forall>u. length (semadj s u) = length (semadj sma u))"

lemma update_queue_frame:
  assumes "sem_wf sma"
  shows "scan_frame sma (update_queue now sma)"
  unfolding update_queue_def
proof (rule update_loop_invariant [where P = "scan_frame sma"])
  show "scan_frame sma sma"
    using assms by (simp add: scan_frame_def sem_wf_def)
next
  fix s q r s1
  assume a: "q \<in> set [] \<union> set (sem_pending sma)" "scan_frame sma s"
    "try_atomic_semop now s (q_sops q) (q_undo q) (q_pid q) = (r, s1)"
  have ok: "nums_ok (length (sem_base s)) (q_sops q)"
    using a(1,2) assms by (simp add: sem_wf_def queue_ok_def scan_frame_def)
  show "scan_frame sma s1"
    using a(2) try_vals_ok [OF _ a(3) ok] try_atomic_semop_length [OF a(3) ok] try_atomic_semop_frame [OF a(3)]
    unfolding scan_frame_def by metis
qed (simp_all add: scan_frame_def vals_ok_def)

lemma update_queue_subset: "set (sem_pending (update_queue now sma)) \<subseteq> set (sem_pending sma)"
proof -
  have "subseq (sem_pending (update_queue now sma)) (sem_pending sma)"
    using update_loop_queue [of "[]" "sem_pending sma" sma now] by (simp add: update_queue_def drained_def)
  then show ?thesis
    by (auto dest: list_emb_set)
qed

lemma update_queue_none_ready:
  assumes "sem_wf sma"
  shows "none_ready (update_queue now sma)"
  using update_loop_asleep [of "[]" "sem_pending sma" sma now] assms
  by (simp add: update_queue_def none_ready_def sem_wf_def)

lemma update_queue_wf:
  assumes "sem_wf sma"
  shows "sem_wf (update_queue now sma)"
proof -
  let ?s = "update_queue now sma"
  have f: "vals_ok ?s" "length (sem_base ?s) = length (sem_base sma)" "list_id ?s = list_id sma"
    "undo_of ?s = undo_of sma" "undo_live ?s u = undo_live sma u" for u
    using update_queue_frame [OF assms, of now] by (simp_all add: scan_frame_def undo_live_def)
  show ?thesis
    using assms update_queue_subset [of now sma] f(1) unfolding sem_wf_def f(2-5) by blast
qed

lemmas update_queue_keeps = update_queue_wf update_queue_none_ready

text \<open>Changing fields that no entry of the queue looks at.\<close>

lemma none_ready_cong:
  assumes "none_ready sma" "\<forall>q \<in> set (sem_pending sma). queue_ok (length (sem_base sma)) q"
    "map semval (sem_base sma') = map semval (sem_base sma)" "set (sem_pending sma') \<subseteq> set (sem_pending sma)"
    "\<And>q. q \<in> set (sem_pending sma) \<Longrightarrow> adj_of sma' (q_undo q) = adj_of sma (q_undo q)"
  shows "none_ready sma'"
  unfolding none_ready_def
proof
  fix q assume "q \<in> set (sem_pending sma')"
  then have "q \<in> set (sem_pending sma)"
    using assms(4) by blast
  with assms(1,2,3,5) show "asleep sma' q"
    unfolding none_ready_def by (metis asleep_cong)
qed

lemma find_alloc_undo_keeps:
  assumes "find_alloc_undo env sma proc = Inr (u, sma')" "sem_wf sma" "none_ready sma"
  shows "sem_wf sma'" "none_ready sma'" "u \<in> set (list_id sma')" "length (sem_base sma') = length (sem_base sma)"
proof -
  consider "undo_of sma proc = Some u" "sma' = sma"
    | "undo_of sma proc = None" "u = next_undo sma"
      "sma' = sma\<lparr>semadj := (semadj sma)(u := replicate (length (sem_base sma)) 0),
                  list_id := u # list_id sma, undo_of := (undo_of sma)(proc := Some u), next_undo := u + 1\<rparr>"
    using assms(1) unfolding find_alloc_undo_def
    by (auto simp: Let_def split: if_splits option.splits sum.splits)
  then have "sem_wf sma' \<and> none_ready sma' \<and> u \<in> set (list_id sma') \<and> length (sem_base sma') = length (sem_base sma)"
  proof cases
    case 1
    then show ?thesis
      using assms(2,3) by (simp add: sem_wf_def)
  next
    case 2
    have fresh: "q_undo q \<noteq> Some u" if "q \<in> set (sem_pending sma)" for q
      using that assms(2) 2(2) by (auto simp: sem_wf_def undo_live_def)
    have live: "undo_live sma' v" if "undo_live sma v \<or> v = u" for v
      using that 2 by (auto simp: undo_live_def)
    have new: "undo_of sma p \<noteq> Some u" for p
      using assms(2) 2(2) by (auto simp: sem_wf_def undo_live_def)
    have "sem_wf sma'"
      using assms(2) live new unfolding sem_wf_def vals_ok_def by (simp add: 2(3)) blast
    moreover have "none_ready sma'"
    proof (rule none_ready_cong [OF assms(3)])
      show "adj_of sma' (q_undo q) = adj_of sma (q_undo q)" if "q \<in> set (sem_pending sma)" for q
        using fresh [OF that] by (simp add: 2(3) adj_of_def split: option.splits)
    qed (use assms(2) in \<open>simp_all add: sem_wf_def 2(3)\<close>)
    ultimately show ?thesis
      by (simp add: 2(3))
  qed
  then show "sem_wf sma'" "none_ready sma'" "u \<in> set (list_id sma')" "length (sem_base sma') = length (sem_base sma)"
    by blast+
qed

text \<open>
  The invariant: values within bounds, well-formed queue and undo structures, and nobody sleeping on
  an operation that could be done.  \<open>n\<close> is the size of the set.
\<close>

definition sem_inv :: "nat \<Rightarrow> sem_array \<Rightarrow> bool" where
  "sem_inv n sma \<longleftrightarrow> length (sem_base sma) = n \<and> sem_wf sma \<and> none_ready sma"

lemma update_queue_inv:
  assumes "sem_wf sma" "length (sem_base sma) = n"
  shows "sem_inv n (update_queue now sma)"
  using update_queue_keeps [OF assms(1)] update_queue_frame [OF assms(1), of now] assms(2)
  by (simp add: sem_inv_def scan_frame_def)

lemma max_num_bound: "max_num sops < n \<Longrightarrow> nums_ok n sops"
proof -
  have "m \<le> fold (\<lambda>sop m. if op_num sop \<ge> m then op_num sop else m) sops m \<and>
      (\<forall>sop \<in> set sops. op_num sop \<le> fold (\<lambda>sop m. if op_num sop \<ge> m then op_num sop else m) sops m)" for m
    by (induction sops arbitrary: m) (auto intro: order_trans, meson nat_le_linear order_trans)
  from this [of 0] show "max_num sops < n \<Longrightarrow> nums_ok n sops"
    unfolding max_num_def nums_ok_def by (meson le_less_trans)
qed

lemma done_not_alters_inv:
  assumes "sem_inv n sma" "try_atomic_semop now sma sops un tgid = (r, sma')" "nums_ok n sops" "\<not> alters sops"
  shows "sem_inv n sma'"
proof -
  have wf: "sem_wf sma" "none_ready sma" "length (sem_base sma) = n"
    using assms(1) by (simp_all add: sem_inv_def)
  note ok = assms(3) [folded wf(3)]
  have "none_ready sma'"
  proof (rule none_ready_cong [OF wf(2)])
    show "adj_of sma' (q_undo q) = adj_of sma (q_undo q)" for q
      by (rule adj_of_cong) (rule try_not_alters(2) [OF assms(2) ok assms(4)])
  qed (use wf(1) try_not_alters(1) [OF assms(2) ok assms(4)] try_atomic_semop_frame(1) [OF assms(2)]
       in \<open>simp_all add: sem_wf_def\<close>)
  then show ?thesis
    using try_wf [OF wf(1) assms(2) ok] try_atomic_semop_length [OF assms(2) ok] wf(3) by (simp add: sem_inv_def)
qed

lemma queue_add_inv:
  assumes "sem_inv n sma" "queue_ok n q" "asleep sma q" "has_undo (q_sops q) \<longrightarrow> q_undo q \<noteq> None"
    "\<forall>u. q_undo q = Some u \<longrightarrow> undo_live sma u" "set qs = insert q (set (sem_pending sma))"
  shows "sem_inv n (sma\<lparr>sem_pending := qs\<rparr>)"
proof -
  let ?s = "sma\<lparr>sem_pending := qs\<rparr>"
  have "asleep ?s x" if "asleep sma x" "queue_ok n x" for x
    by (rule asleep_cong [OF _ _ _ that(1)]) (use assms(1) that(2) in \<open>simp_all add: sem_inv_def\<close>)
  then have "none_ready ?s"
    using assms(1,2,3,6) by (auto simp: none_ready_def sem_inv_def sem_wf_def)
  moreover have "undo_live ?s u = undo_live sma u" for u
    by (simp add: undo_live_def)
  ultimately show ?thesis
    using assms(1,2,4,5,6) by (auto simp: sem_inv_def sem_wf_def vals_ok_def)
qed

lemma semop_locked_inv:
  assumes "sem_inv n sma" "semop_locked env ops k sma sops un me tgid = (out, sma', k')"
    "has_undo sops \<longrightarrow> un \<noteq> None" "\<forall>u. un = Some u \<longrightarrow> undo_live sma u"
  shows "sem_inv n sma'"
proof -
  have wf: "sem_wf sma" "none_ready sma" "length (sem_base sma) = n"
    using assms(1) by (simp_all add: sem_inv_def)
  obtain r sma1 where t: "try_atomic_semop (seconds env) sma sops un tgid = (r, sma1)"
    by (cases "try_atomic_semop (seconds env) sma sops un tgid") auto
  let ?q = "\<lparr>sleeper = me, q_sops = sops, q_undo = un, q_pid = tgid, q_alter = alters sops\<rparr>"
  consider "sma' = sma"
    | "nums_ok n sops" "r = Sleep"
      "sma' = sma1\<lparr>sem_pending := (if alters sops then sem_pending sma1 @ [?q] else ?q # sem_pending sma1)\<rparr>"
    | "nums_ok n sops" "r \<noteq> Sleep" "sma' = (if alters sops \<and> r = Done then update_queue (seconds env) sma1 else sma1)"
    using assms(2) max_num_bound [of sops n] unfolding semop_locked_def t wf(3)
    by (auto simp: Let_def not_le split: if_splits prod.splits bool.splits semop_result.splits)
  then show ?thesis
  proof cases
    case 1
    with assms(1) show ?thesis by simp
  next
    case 2
    note ok = 2(1) [folded wf(3)]
    have eq: "sma1 = sma"
      using try_atomic_semop_spec(2) [OF t ok] 2(2) by simp
    have "asleep sma ?q"
      using t 2(2) try_atomic_semop_cong [OF refl refl ok] unfolding asleep_def by (metis fst_conv sem_queue.select_convs(2-4))
    then show ?thesis
      unfolding 2(3) eq using assms(1,3,4) 2(1) by (intro queue_add_inv [where q = ?q]) (auto simp: queue_ok_def)
  next
    case 3
    note ok = 3(1) [folded wf(3)]
    show ?thesis
    proof (cases "alters sops \<and> r = Done")
      case True
      then show ?thesis
        using 3(3) update_queue_inv [OF try_wf [OF wf(1) t ok]] try_atomic_semop_length [OF t ok] wf(3) by simp
    next
      case False
      then have "sma' = sma1" "sma1 = sma \<or> \<not> alters sops"
        using 3(3) try_atomic_semop_spec(2) [OF t ok] by auto
      then show ?thesis
        using assms(1) done_not_alters_inv [OF assms(1) t 3(1)] by auto
    qed
  qed
qed

lemma sys_semtimedop_inv:
  assumes "sem_inv n sma" "sys_semtimedop env ops k sma semid nsops proc me tgid = (out, sma', k')"
  shows "sem_inv n sma'"
proof -
  have wf: "sem_wf sma" "none_ready sma" "length (sem_base sma) = n"
    using assms(1) by (simp_all add: sem_inv_def)
  have alloc: "sem_inv n s" "undo_live s u" if "find_alloc_undo env sma proc = Inr (u, s)" for u s
    using find_alloc_undo_keeps [OF that wf(1,2)] wf(3) by (simp_all add: sem_inv_def sem_wf_def)
  consider "sma' = sma"
    | sops where "\<not> has_undo sops" "semop_locked env ops k sma sops None me tgid = (out, sma', k')"
    | u s where "find_alloc_undo env sma proc = Inr (u, s)" "sma' = s"
    | u s sops where "find_alloc_undo env sma proc = Inr (u, s)"
        "semop_locked env ops k s sops (Some u) me tgid = (out, sma', k')"
    using assms(2) unfolding sys_semtimedop_def
    by (auto split: if_splits option.splits sum.splits prod.splits)
  then show ?thesis
  proof cases
    case 1
    with assms(1) show ?thesis by simp
  next
    case 2
    then show ?thesis
      using semop_locked_inv [OF assms(1) 2(2)] by simp
  next
    case 3
    then show ?thesis
      using alloc by simp
  next
    case 4
    then show ?thesis
      using semop_locked_inv [OF alloc(1) 4(2)] alloc(2) by simp
  qed
qed

lemma semtimedop_resume_inv:
  assumes "sem_inv n sma" "semtimedop_resume lock_ok timed_out me sma = (r, sma')"
  shows "sem_inv n sma'"
proof (cases "sma' = sma")
  case False
  then have eq: "sma' = sma\<lparr>sem_pending := filter (\<lambda>q. sleeper q \<noteq> me) (sem_pending sma)\<rparr>"
    using assms(2) unfolding semtimedop_resume_def by (auto split: option.splits if_splits)
  have "none_ready sma'"
    by (rule none_ready_cong [of sma]) (use assms(1) in \<open>auto simp: eq sem_inv_def sem_wf_def\<close>)
  then show ?thesis
    using assms(1) by (auto simp: eq sem_inv_def sem_wf_def vals_ok_def undo_live_def)
qed (use assms(1) in simp)

text \<open>Setting values: what the undo structures hold changes, not their sizes.\<close>

lemma reset_wf:
  assumes "sem_wf sma" "length (sem_base sma') = length (sem_base sma)" "vals_ok sma'"
    "sem_pending sma' = sem_pending sma" "\<And>p u. undo_of sma' p = Some u \<Longrightarrow> undo_of sma p = Some u \<and> u \<in> set (list_id sma')"
    "set (list_id sma') \<subseteq> set (list_id sma)" "next_undo sma' = next_undo sma" "\<And>u. length (semadj sma' u) = length (semadj sma u)"
  shows "sem_wf sma'"
proof -
  have "undo_live sma' u = undo_live sma u" for u
    using assms(2,7,8) by (simp add: undo_live_def)
  then show ?thesis
    using assms(1-6) unfolding sem_wf_def by auto
qed

lemma clear_adj_frame [simp]:
  "sem_base (clear_adj f sma) = sem_base sma" "sem_pending (clear_adj f sma) = sem_pending sma"
  "list_id (clear_adj f sma) = list_id sma" "undo_of (clear_adj f sma) = undo_of sma"
  "next_undo (clear_adj f sma) = next_undo sma"
  by (simp_all add: clear_adj_def)

lemma sem_setval_inv:
  assumes "sem_inv n sma" "0 \<le> val" "val \<le> SEMVMX"
  shows "sem_inv n (sem_setval now semnum val tgid sma)"
  unfolding sem_setval_def Let_def
proof (rule update_queue_inv [OF reset_wf [of sma]])
  show "vals_ok (clear_adj (\<lambda>adj. adj[semnum := 0]) sma
      \<lparr>sem_base := (sem_base (clear_adj (\<lambda>adj. adj[semnum := 0]) sma))[semnum := \<lparr>semval = val, sempid = tgid\<rparr>],
       sem_ctime := now\<rparr>)"
    using assms set_update_subset_insert [of "sem_base sma" semnum "\<lparr>semval = val, sempid = tgid\<rparr>"]
    by (auto simp: vals_ok_def sem_inv_def sem_wf_def)
qed (use assms in \<open>auto simp: sem_inv_def sem_wf_def clear_adj_def\<close>)

lemma sem_setall_inv:
  assumes "sem_inv n sma" "length vals = n" "\<forall>v \<in> set vals. uint v \<le> SEMVMX"
  shows "sem_inv n (sem_setall now vals sma)"
  unfolding sem_setall_def Let_def
  by (rule update_queue_inv [OF reset_wf [of sma]])
    (use assms in \<open>auto simp: sem_inv_def sem_wf_def clear_adj_def vals_ok_def dest!: set_zip_rightD\<close>)

definition cmd_fits :: "nat \<Rightarrow> semctl_cmd \<Rightarrow> bool" where
  "cmd_fits n cmd \<longleftrightarrow> (case cmd of SETALL (Some vals) \<Rightarrow> length vals = n | _ \<Rightarrow> True)"

lemma semctl_main_inv:
  assumes "sem_inv n sma" "semctl_main ops k env sma semnum cmd tgid = (r, sma', k')" "cmd_fits n cmd"
  shows "sem_inv n sma'"
proof -
  consider "sma' = sma"
    | vals where "cmd = SETALL (Some vals)" "\<forall>v \<in> set vals. uint v \<le> SEMVMX"
        "sma' = sem_setall (ctl_seconds env) vals sma"
    | val where "0 \<le> val" "val \<le> SEMVMX" "sma' = sem_setval (ctl_seconds env) (nat semnum) val tgid sma"
    using assms(2) unfolding semctl_main_def Let_def
    by (auto simp: not_less split: sum.splits prod.splits bool.splits semctl_cmd.splits option.splits if_splits)
  then show ?thesis
  proof cases
    case 2
    then show ?thesis
      using sem_setall_inv [OF assms(1)] assms(3) by (simp add: cmd_fits_def)
  qed (use assms(1) sem_setval_inv in simp_all)
qed

lemma freeary_inv: "sem_inv n sma \<Longrightarrow> sem_inv n (freeary sma)"
  by (simp add: sem_inv_def sem_wf_def freeary_def vals_ok_def none_ready_def)

lemma semctl_down_inv:
  assumes "sem_inv n sma" "semctl_down ops k lock now sma cmd = (r, sma', k')"
  shows "sem_inv n sma'"
proof -
  consider "sma' = sma" | "sma' = freeary sma"
    | p where "sma' = sma\<lparr>sem_perm := p, sem_ctime := now\<rparr>"
    using assms(2) unfolding semctl_down_def
    by (auto split: if_splits prod.splits sum.splits semctl_down_cmd.splits option.splits)
  then show ?thesis
  proof cases
    case 3
    have "none_ready sma'"
      by (rule none_ready_cong [of sma]) (use assms(1) in \<open>auto simp: 3 sem_inv_def sem_wf_def\<close>)
    then show ?thesis
      using assms(1) by (auto simp: 3 sem_inv_def sem_wf_def vals_ok_def undo_live_def)
  qed (use assms(1) freeary_inv in simp_all)
qed

lemma exit_adjust_val:
  "semval (exit_adjust tgid c adj) =
     (if sint adj = 0 then semval c else min SEMVMX (max 0 (semval c + sint adj)))"
  by (simp add: exit_adjust_def Let_def SEMVMX_def)

lemma exit_sem_inv:
  assumes "sem_inv n sma"
  shows "sem_inv n (exit_sem now proc tgid sma)"
proof (cases "undo_of sma proc")
  case (Some u)
  have wf: "sem_wf sma" "length (sem_base sma) = n"
    using assms by (simp_all add: sem_inv_def)
  have u: "undo_live sma u" "\<And>p v. undo_of sma p = Some v \<Longrightarrow> v \<in> set (list_id sma) \<and> (p = proc \<or> v \<noteq> u)"
    using wf(1) Some unfolding sem_wf_def by auto
  let ?s = "sma\<lparr>list_id := filter (\<lambda>x. x \<noteq> u) (list_id sma), undo_of := (undo_of sma)(proc := None),
               sem_base := map2 (exit_adjust tgid) (sem_base sma) (semadj sma u), sem_otime := now\<rparr>"
  have len: "length (sem_base ?s) = n"
    using wf(2) u(1) by (simp add: undo_live_def)
  have "vals_ok ?s"
    using wf(1) by (auto simp: vals_ok_def sem_wf_def exit_adjust_val SEMVMX_def dest!: set_zip_leftD)
  then have "sem_wf ?s"
    by (rule reset_wf [OF wf(1), rotated]) (use len wf(2) u(2) in \<open>auto split: if_splits\<close>)
  from update_queue_inv [OF this len] show ?thesis
    by (simp add: exit_sem_def Some)
qed (use assms in \<open>simp add: exit_sem_def\<close>)

lemma newary_inv:
  assumes "newary k alloc_ok added used_sems sc_semmns now nsems semflg = Inr sma"
  shows "sem_inv nsems sma"
proof -
  have "sem_base sma = replicate nsems \<lparr>semval = 0, sempid = 0\<rparr>" "sem_pending sma = []" "list_id sma = []"
    "undo_of sma = (\<lambda>_. None)"
    using assms unfolding newary_def by (auto simp: Let_def split: if_splits sum.splits)
  then show ?thesis
    by (simp add: sem_inv_def sem_wf_def vals_ok_def none_ready_def SEMVMX_def)
qed

text \<open>
  All calls on a set, by any processes in any order, with any outcome of the allocations, lookups
  and user copies.  The array that SETALL reads has the size of the set.
\<close>

inductive sem_step :: "sem_array \<Rightarrow> sem_array \<Rightarrow> bool" where
  semop: "sys_semtimedop env ops k sma semid nsops proc me tgid = (out, sma', k') \<Longrightarrow> sem_step sma sma'"
| resume: "semtimedop_resume lock_ok timed_out me sma = (r, sma') \<Longrightarrow> sem_step sma sma'"
| ctl: "semctl_main ops k cenv sma semnum cmd tgid = (vals, sma', k') \<Longrightarrow> cmd_fits (length (sem_base sma)) cmd \<Longrightarrow>
    sem_step sma sma'"
| down: "semctl_down ops k lock now sma dcmd = (r, sma', k') \<Longrightarrow> sem_step sma sma'"
| exit: "sem_step sma (exit_sem now proc tgid sma)"

lemma sem_step_inv:
  assumes "sem_step sma sma'" "sem_inv n sma"
  shows "sem_inv n sma'"
  using assms(1)
proof cases
  case semop
  then show ?thesis using sys_semtimedop_inv assms(2) by blast
next
  case resume
  then show ?thesis using semtimedop_resume_inv assms(2) by blast
next
  case ctl
  then show ?thesis using semctl_main_inv [OF assms(2)] assms(2) unfolding sem_inv_def by blast
next
  case down
  then show ?thesis using semctl_down_inv assms(2) by blast
next
  case exit
  then show ?thesis using exit_sem_inv assms(2) by blast
qed

text \<open>
  C22: over every sequence of calls on a new set, by any processes in any order and whatever fails,
  the set keeps its size, every value stays between 0 and SEMVMX, and no wake-up is lost: an
  operation that sleeps could not be done in the state reached.
\<close>

theorem sem_runs_safe:
  assumes "newary k alloc_ok added used_sems sc_semmns now nsems semflg = Inr sma" "sem_step\<^sup>*\<^sup>* sma sma'"
  shows "length (sem_base sma') = nsems \<and> (\<forall>c \<in> set (sem_base sma'). 0 \<le> semval c \<and> semval c \<le> SEMVMX) \<and>
    (\<forall>q \<in> set (sem_pending sma').
      fst (try_atomic_semop now' sma' (q_sops q) (q_undo q) (q_pid q)) = Sleep)"
proof -
  have inv: "sem_inv nsems sma'"
    using assms(2)
  proof (induction rule: rtranclp_induct)
    case base
    show ?case by (rule newary_inv [OF assms(1)])
  next
    case (step s t)
    then show ?case using sem_step_inv by blast
  qed
  have "fst (try_atomic_semop now' sma' (q_sops q) (q_undo q) (q_pid q)) = Sleep" if q: "q \<in> set (sem_pending sma')" for q
  proof -
    have "nums_ok (length (sem_base sma')) (q_sops q)" "asleep sma' q"
      using inv q by (auto simp: sem_inv_def sem_wf_def queue_ok_def none_ready_def)
    then show ?thesis
      using try_atomic_semop_cong [OF refl refl] unfolding asleep_def by metis
  qed
  then show ?thesis
    using inv by (simp add: sem_inv_def sem_wf_def vals_ok_def)
qed

definition example_sem_env :: "sembuf list \<Rightarrow> sem_env" where
  "example_sem_env sops =
     \<lparr>sc_semopm = 32, undo_list_ok = True, undo_ok = True, sops_ok = True, user_sops = Some sops,
      user_timeout = None, lock_check = Inr (), lock_check_undo = Inr (), undo_deleted = False,
      un_removed = False, seconds = 0\<rparr>"

theorem sem_runs_safe_witness:
  "\<exists>sma sma' q. newary (example_kernel 1000 CAP_EMPTY_SET) True (Inr ()) 0 100 0 1 0x1B6 = Inr sma \<and>
     sem_step\<^sup>*\<^sup>* sma sma' \<and> sem_pending sma' = [q] \<and>
     fst (try_atomic_semop 0 sma' (q_sops q) (q_undo q) (q_pid q)) = Sleep"
proof -
  let ?n = "newary (example_kernel 1000 CAP_EMPTY_SET) True (Inr ()) 0 100 0 1 0x1B6"
  obtain sma where new: "?n = Inr sma"
    by (simp add: newary_def Let_def)
  let ?r = "sys_semtimedop (example_sem_env [op 0 (-1) SEM_UNDO]) (capability_ops example_config)
     (example_kernel 1000 CAP_EMPTY_SET) sma 0 1 7 9 5"
  have "case ?n of Inl e \<Rightarrow> False | Inr s \<Rightarrow>
      map sleeper (sem_pending (fst (snd (sys_semtimedop (example_sem_env [op 0 (-1) SEM_UNDO]) (capability_ops example_config)
        (example_kernel 1000 CAP_EMPTY_SET) s 0 1 7 9 5)))) = [9]"
    by code_simp
  then obtain q where q: "sem_pending (fst (snd ?r)) = [q]"
    unfolding new by auto
  have "sem_step sma (fst (snd ?r))"
    by (metis prod.collapse sem_step.semop)
  then have run: "sem_step\<^sup>*\<^sup>* sma (fst (snd ?r))"
    by (rule r_into_rtranclp)
  show ?thesis
    using new run q sem_runs_safe [OF new run, of 0] by (metis list.set_intros(1))
qed

section \<open>Undo at exit\<close>

text \<open>The adjustments of an undo structure are what separates the values from those of \<open>base0\<close>.\<close>

definition balanced :: "sem list \<Rightarrow> nat \<Rightarrow> sem_array \<Rightarrow> bool" where
  "balanced base0 u sma \<longleftrightarrow> vals_ok sma \<and> length (sem_base sma) = length base0 \<and>
     length (semadj sma u) = length base0 \<and>
     (\<forall>i < length base0. sint (semadj sma u ! i) = semval (base0 ! i) - semval (sem_base sma ! i))"

definition all_undo :: "sembuf list \<Rightarrow> bool" where
  "all_undo sops \<longleftrightarrow> (\<forall>sop \<in> set sops. sem_flg sop AND SEM_UNDO \<noteq> 0)"

lemma undo_moved_all:
  "all_undo sops \<Longrightarrow> undo_moved i sops = word_of_int (moved i sops)"
  by (induction sops) (simp_all add: all_undo_def)

lemma sint_u16: "- 32768 \<le> x \<Longrightarrow> x \<le> 32767 \<Longrightarrow> sint (word_of_int x :: u16) = x"
  by (simp add: sint_sbintrunc' signed_take_bit_int_eq_self)

lemma try_balanced:
  assumes "balanced base0 u sma" "\<forall>c \<in> set base0. 0 \<le> semval c \<and> semval c \<le> SEMVMX"
    "try_atomic_semop now sma sops (Some u) tgid = (r, sma')" "nums_ok (length base0) sops" "all_undo sops"
  shows "balanced base0 u sma'"
proof (cases "r = Done")
  case True
  have b: "vals_ok sma" "length (sem_base sma) = length base0" "length (semadj sma u) = length base0"
    using assms(1) by (simp_all add: balanced_def)
  note ok = assms(4) [folded b(2)]
  have vals: "vals_ok sma'" and len: "length (sem_base sma') = length base0"
    using try_vals_ok [OF b(1) assms(3) ok] try_atomic_semop_length [OF assms(3) ok] b(2) by simp_all
  have "sint (semadj sma' u ! i) = semval (base0 ! i) - semval (sem_base sma' ! i)" if i: "i < length base0" for i
  proof -
    have "map semval (sem_base sma') ! i = map semval (shifted (\<lambda>i. moved i sops) (sem_base sma)) ! i"
      using try_atomic_semop_spec(3) [OF assms(3) ok True] by simp
    then have v: "semval (sem_base sma' ! i) = semval (sem_base sma ! i) + moved i sops"
      using i b(2) len by simp
    have "semadj sma' u ! i = semadj sma u ! i - word_of_int (moved i sops)"
      using try_atomic_semop_spec(4) [OF assms(3) ok True, of i] i b(3) undo_moved_all [OF assms(5)]
      by (simp add: adj_of_def)
    also have "\<dots> = word_of_int (sint (semadj sma u ! i)) - word_of_int (moved i sops)"
      by simp
    also have "\<dots> = word_of_int (semval (base0 ! i) - semval (sem_base sma ! i) - moved i sops)"
      using assms(1) i unfolding balanced_def by (simp only: of_int_diff)
    finally have "semadj sma' u ! i = word_of_int (semval (base0 ! i) - semval (sem_base sma' ! i))"
      by (simp only: v diff_diff_eq)
    moreover have "0 \<le> semval (base0 ! i)" "semval (base0 ! i) \<le> 32767"
      "0 \<le> semval (sem_base sma' ! i)" "semval (sem_base sma' ! i) \<le> 32767"
      using assms(2) vals i len by (simp_all add: vals_ok_def SEMVMX_def)
    ultimately show ?thesis
      by (simp only:) (rule sint_u16, simp_all)
  qed
  then show ?thesis
    using vals len b(3) try_atomic_semop_frame(7) [OF assms(3), of u] by (simp add: balanced_def)
next
  case False
  then show ?thesis
    using assms(1,3,4) try_atomic_semop_spec(2) [OF assms(3)] by (simp add: balanced_def)
qed

text \<open>Any number of calls of one process, with a final exit.\<close>

definition undo_calls :: "int \<Rightarrow> nat \<Rightarrow> int \<Rightarrow> sembuf list list \<Rightarrow> sem_array \<Rightarrow> sem_array" where
  "undo_calls now u tgid calls sma = fold (\<lambda>sops s. snd (try_atomic_semop now s sops (Some u) tgid)) calls sma"

lemma undo_calls_balanced:
  assumes "balanced base0 u sma" "\<forall>c \<in> set base0. 0 \<le> semval c \<and> semval c \<le> SEMVMX"
    "\<forall>sops \<in> set calls. nums_ok (length base0) sops \<and> all_undo sops"
  shows "balanced base0 u (undo_calls now u tgid calls sma) \<and>
    sem_pending (undo_calls now u tgid calls sma) = sem_pending sma \<and>
    undo_of (undo_calls now u tgid calls sma) = undo_of sma"
  using assms(1,3)
proof (induction calls arbitrary: sma)
  case (Cons sops calls)
  obtain r s where t: "try_atomic_semop now sma sops (Some u) tgid = (r, s)"
    by (cases "try_atomic_semop now sma sops (Some u) tgid") auto
  have "balanced base0 u s"
    using try_balanced [OF Cons.prems(1) assms(2) t] Cons.prems(2) by simp
  then show ?case
    using Cons.IH [of s] Cons.prems(2) try_atomic_semop_frame(1,4) [OF t] by (simp add: undo_calls_def t)
qed (simp add: undo_calls_def)

lemma exit_balanced:
  assumes "balanced base0 u sma" "\<forall>c \<in> set base0. 0 \<le> semval c \<and> semval c \<le> SEMVMX"
    "undo_of sma proc = Some u" "sem_pending sma = []"
  shows "map semval (sem_base (exit_sem now proc tgid sma)) = map semval base0"
proof -
  have "map semval (map2 (exit_adjust tgid) (sem_base sma) (semadj sma u)) = map semval base0"
  proof (rule nth_equalityI)
    fix i assume "i < length (map semval (map2 (exit_adjust tgid) (sem_base sma) (semadj sma u)))"
    then have i: "i < length base0" "i < length (sem_base sma)" "i < length (semadj sma u)"
      using assms(1) by (simp_all add: balanced_def)
    have "0 \<le> semval (base0 ! i)" "semval (base0 ! i) \<le> SEMVMX"
      using assms(2) i(1) by simp_all
    then show "map semval (map2 (exit_adjust tgid) (sem_base sma) (semadj sma u)) ! i = map semval base0 ! i"
      using i assms(1) by (simp add: exit_adjust_val balanced_def)
  qed (use assms(1) in \<open>simp add: balanced_def\<close>)
  then show ?thesis
    by (simp add: exit_sem_def assms(3,4) update_queue_def)
qed



text \<open>
  The range check on the undo structure looks at one operation at a time, each against the
  adjustment before the call.  Two operations of one call on the same semaphore, each within
  range, take the 16-bit adjustment past its range: exit then raises the value instead of lowering
  it.
\<close>

theorem semadj_wraps:
  "fst (try_atomic_semop 0 (example_set [0] []) [op 0 20000 SEM_UNDO, op 0 (-20000) 0, op 0 20000 SEM_UNDO] (Some 0) 5) = Done \<and>
   map sint (semadj (undo_calls 0 0 5 [[op 0 20000 SEM_UNDO, op 0 (-20000) 0, op 0 20000 SEM_UNDO]] (example_set [0] [])) 0) = [25536] \<and>
   map semval (sem_base (exit_sem 0 7 5
     (undo_calls 0 0 5 [[op 0 20000 SEM_UNDO, op 0 (-20000) 0, op 0 20000 SEM_UNDO]] (example_set [0] [])))) = [32767]"
  by (intro conjI) code_simp+

end
