(* ===== verification/Kfifo.thy ===== *)
theory Kfifo
  imports Kernel_Prelude
begin

text \<open>
  The byte queue of the kernel: \<^verbatim>\<open>kernel/kfifo.c\<close> and \<^verbatim>\<open>include/linux/kfifo.h\<close>, with the
  power-of-two helpers of \<^verbatim>\<open>log2.h\<close>.  The two indices are free-running 32-bit words; the size
  is a power of two, so that masking an index gives an offset into the buffer.  A function that
  hits \<^verbatim>\<open>BUG_ON\<close> does not return: its value is then \<open>None\<close>.
\<close>

section \<open>Powers of two\<close>

definition is_power_of_2 :: "u32 \<Rightarrow> bool" where
  "is_power_of_2 n \<longleftrightarrow> n \<noteq> 0 \<and> n AND (n - 1) = 0"

text \<open>\<^verbatim>\<open>fls\<close>: a binary search for the highest set bit, counted from 1.\<close>

definition fls_step :: "u32 \<Rightarrow> nat \<Rightarrow> u32 \<times> nat \<Rightarrow> u32 \<times> nat" where
  "fls_step m s xr = (case xr of (x, r) \<Rightarrow> if x AND m = 0 then (push_bit s x, r - s) else (x, r))"

definition fls :: "u32 \<Rightarrow> nat" where
  "fls x =
     (if x = 0 then 0
      else snd (fls_step 0x80000000 1 (fls_step 0xC0000000 2 (fls_step 0xF0000000 4
             (fls_step 0xFF000000 8 (fls_step 0xFFFF0000 16 (x, 32)))))))"

definition roundup_pow_of_two :: "u32 \<Rightarrow> u32" where
  "roundup_pow_of_two n = push_bit (fls (n - 1)) 1"

section \<open>The queue\<close>

record kfifo =
  buffer :: "u8 list"
  fifo_size :: u32
  in_idx :: u32
  out_idx :: u32

text \<open>\<open>None\<close> is a BUG; the memory of the buffer, if allocated, and of the structure are arguments.\<close>

definition kfifo_init :: "bool \<Rightarrow> u8 list \<Rightarrow> u32 \<Rightarrow> kfifo result option" where
  "kfifo_init struct_ok buf sz =
     (if \<not> is_power_of_2 sz then None
      else if \<not> struct_ok then Some (Inl ENOMEM)
      else Some (Inr \<lparr>buffer = buf, fifo_size = sz, in_idx = 0, out_idx = 0\<rparr>))"

definition kfifo_alloc :: "(nat \<Rightarrow> u8 list option) \<Rightarrow> bool \<Rightarrow> u32 \<Rightarrow> kfifo result option" where
  "kfifo_alloc kmalloc struct_ok sz =
     (if sz AND (sz - 1) \<noteq> 0 \<and> sz > 0x80000000 then None
      else
        let sz1 = (if sz AND (sz - 1) \<noteq> 0 then roundup_pow_of_two sz else sz)
        in case kmalloc (unat sz1) of
             None \<Rightarrow> Some (Inl ENOMEM)
           | Some buf \<Rightarrow> kfifo_init struct_ok buf sz1)"

definition memcpy :: "'a list \<Rightarrow> nat \<Rightarrow> 'a list \<Rightarrow> nat \<Rightarrow> 'a list" where
  "memcpy dst off src n = take off dst @ take n src @ drop (off + n) dst"

text \<open>
  The three parts of \<^verbatim>\<open>__kfifo_put\<close>, which its memory barriers separate: how much fits, the
  copy in two pieces, and the new index.
\<close>

definition put_len :: "kfifo \<Rightarrow> u32 \<Rightarrow> u32" where
  "put_len f len = min len (fifo_size f - in_idx f + out_idx f)"

definition put_copy :: "kfifo \<Rightarrow> u8 list \<Rightarrow> u32 \<Rightarrow> kfifo" where
  "put_copy f data len =
     (let off = in_idx f AND (fifo_size f - 1);
          l = min len (fifo_size f - off);
          b1 = memcpy (buffer f) (unat off) data (unat l);
          b2 = memcpy b1 0 (drop (unat l) data) (unat (len - l))
      in f\<lparr>buffer := b2\<rparr>)"

definition put_index :: "kfifo \<Rightarrow> u32 \<Rightarrow> kfifo" where
  "put_index f len = f\<lparr>in_idx := in_idx f + len\<rparr>"

definition kfifo_put_nolock :: "kfifo \<Rightarrow> u8 list \<Rightarrow> u32 \<Rightarrow> u32 \<times> kfifo" where
  "kfifo_put_nolock f data len = (let n = put_len f len in (n, put_index (put_copy f data n) n))"

definition get_len :: "kfifo \<Rightarrow> u32 \<Rightarrow> u32" where
  "get_len f len = min len (in_idx f - out_idx f)"

definition get_copy :: "kfifo \<Rightarrow> u32 \<Rightarrow> u8 list" where
  "get_copy f len =
     (let off = out_idx f AND (fifo_size f - 1);
          l = min len (fifo_size f - off)
      in take (unat l) (drop (unat off) (buffer f)) @ take (unat (len - l)) (buffer f))"

definition get_index :: "kfifo \<Rightarrow> u32 \<Rightarrow> kfifo" where
  "get_index f len = f\<lparr>out_idx := out_idx f + len\<rparr>"

text \<open>The result holds the bytes copied; their number is what the function returns.\<close>

definition kfifo_get_nolock :: "kfifo \<Rightarrow> u32 \<Rightarrow> u8 list \<times> kfifo" where
  "kfifo_get_nolock f len = (let n = get_len f len in (get_copy f n, get_index f n))"

definition kfifo_reset :: "kfifo \<Rightarrow> kfifo" where
  "kfifo_reset f = f\<lparr>in_idx := 0, out_idx := 0\<rparr>"

text \<open>The variants that take the lock.\<close>

definition kfifo_put :: "kfifo \<Rightarrow> u8 list \<Rightarrow> u32 \<Rightarrow> u32 \<times> kfifo" where
  "kfifo_put f data len = kfifo_put_nolock f data len"

definition kfifo_get :: "kfifo \<Rightarrow> u32 \<Rightarrow> u8 list \<times> kfifo" where
  "kfifo_get f len =
     (case kfifo_get_nolock f len of
        (bytes, f1) \<Rightarrow> (bytes, if in_idx f1 = out_idx f1 then f1\<lparr>in_idx := 0, out_idx := 0\<rparr> else f1))"

definition kfifo_len :: "kfifo \<Rightarrow> u32" where
  "kfifo_len f = in_idx f - out_idx f"

end
