(* ===== verification/Kfifo_Spec.thy ===== *)
theory Kfifo_Spec
  imports Kfifo
begin

text \<open>
  The byte queue is a bounded first-in first-out queue.  The interface is a locale, which the plain
  and the locked operations both implement; a reader and a writer without locking are the subject of
  the last section.
\<close>

section \<open>The interface\<close>

datatype 'a fifo_cmd = Put "'a list" | Get nat

fun cmd_within :: "nat \<Rightarrow> 'a fifo_cmd \<Rightarrow> bool" where
  "cmd_within limit (Put xs) \<longleftrightarrow> length xs \<le> limit"
| "cmd_within limit (Get m) \<longleftrightarrow> m \<le> limit"

text \<open>A sequence of calls: the bytes accepted, the bytes delivered and the queue left.\<close>

fun fifo_run ::
  "('s \<Rightarrow> 'a list \<Rightarrow> nat \<times> 's) \<Rightarrow> ('s \<Rightarrow> nat \<Rightarrow> 'a list \<times> 's) \<Rightarrow> 's \<Rightarrow> 'a fifo_cmd list \<Rightarrow> 'a list \<times> 'a list \<times> 's" where
  "fifo_run put get s [] = ([], [], s)"
| "fifo_run put get s (Put xs # cmds) =
     (case put s xs of (n, s1) \<Rightarrow> case fifo_run put get s1 cmds of (acc, del, s2) \<Rightarrow> (take n xs @ acc, del, s2))"
| "fifo_run put get s (Get m # cmds) =
     (case get s m of (ys, s1) \<Rightarrow> case fifo_run put get s1 cmds of (acc, del, s2) \<Rightarrow> (acc, ys @ del, s2))"

locale bounded_fifo =
  fixes ok :: "'s \<Rightarrow> bool" and contents :: "'s \<Rightarrow> 'a list" and capacity :: "'s \<Rightarrow> nat" and limit :: nat
    and put :: "'s \<Rightarrow> 'a list \<Rightarrow> nat \<times> 's" and get :: "'s \<Rightarrow> nat \<Rightarrow> 'a list \<times> 's"
  assumes put_law: "ok s \<Longrightarrow> length xs \<le> limit \<Longrightarrow> put s xs = (n, s') \<Longrightarrow>
      n = min (length xs) (capacity s - length (contents s)) \<and> contents s' = contents s @ take n xs \<and>
      ok s' \<and> capacity s' = capacity s"
    and get_law: "ok s \<Longrightarrow> m \<le> limit \<Longrightarrow> get s m = (ys, s') \<Longrightarrow>
      ys = take m (contents s) \<and> contents s' = drop m (contents s) \<and> ok s' \<and> capacity s' = capacity s"
    and bound_law: "ok s \<Longrightarrow> length (contents s) \<le> capacity s"
begin

lemma run_first_in_first_out:
  assumes "ok s" "\<forall>c \<in> set cmds. cmd_within limit c" "fifo_run put get s cmds = (acc, del, s')"
  shows "contents s @ acc = del @ contents s' \<and> ok s' \<and> capacity s' = capacity s"
  using assms
proof (induction cmds arbitrary: s acc del)
  case (Cons c cmds)
  show ?case
  proof (cases c)
    case (Put xs)
    obtain n s1 where p: "put s xs = (n, s1)"
      by (cases "put s xs") auto
    obtain acc1 del1 where r: "fifo_run put get s1 cmds = (acc1, del1, s')" "acc = take n xs @ acc1" "del = del1"
      using Cons.prems(3) by (auto simp: Put p split: prod.splits)
    have "contents s1 = contents s @ take n xs" "ok s1" "capacity s1 = capacity s"
      using put_law [OF Cons.prems(1) _ p] Cons.prems(2) by (simp_all add: Put)
    moreover from this have "contents s1 @ acc1 = del1 @ contents s' \<and> ok s' \<and> capacity s' = capacity s1"
      using Cons.IH [OF _ _ r(1)] Cons.prems(2) by simp
    ultimately show ?thesis
      using r(2,3) by simp
  next
    case (Get m)
    obtain ys s1 where g: "get s m = (ys, s1)"
      by (cases "get s m") auto
    obtain acc1 del1 where r: "fifo_run put get s1 cmds = (acc1, del1, s')" "acc = acc1" "del = ys @ del1"
      using Cons.prems(3) by (auto simp: Get g split: prod.splits)
    have s1: "ys = take m (contents s)" "contents s1 = drop m (contents s)" "ok s1" "capacity s1 = capacity s"
      using get_law [OF Cons.prems(1) _ g] Cons.prems(2) by (simp_all add: Get)
    have "contents s1 @ acc1 = del1 @ contents s' \<and> ok s' \<and> capacity s' = capacity s1"
      using Cons.IH [OF s1(3) _ r(1)] Cons.prems(2) by simp
    then show ?thesis
      using s1 r(2,3) by (metis append.assoc append_take_drop_id)
  qed
qed simp

lemma run_bounded:
  assumes "ok s" "\<forall>c \<in> set cmds. cmd_within limit c" "fifo_run put get s cmds = (acc, del, s')"
  shows "length (contents s') \<le> capacity s"
  using run_first_in_first_out [OF assms] bound_law by metis

end

section \<open>Offsets\<close>

lemma mod_window_inj:
  fixes i j N :: nat
  assumes "i mod N = j mod N" "i < j + N" "j < i + N"
  shows "i = j"
proof (cases "i \<le> j")
  case True
  then have "N dvd j - i"
    using assms(1) by (metis mod_eq_dvd_iff_nat)
  then show ?thesis
    using assms(3) True by (auto dest: dvd_imp_le)
next
  case False
  then have "N dvd i - j"
    using assms(1) by (metis mod_eq_dvd_iff_nat nat_le_linear)
  then show ?thesis
    using assms(2) False by (auto dest: dvd_imp_le)
qed

lemma mod_add_wrap:
  fixes a j N :: nat
  assumes "j < N"
  shows "(a + j) mod N = (if a mod N + j < N then a mod N + j else a mod N + j - N)"
proof -
  have "(a + j) mod N = (a mod N + j) mod N"
    by (simp add: mod_add_left_eq)
  moreover have "a mod N < N"
    using assms by simp
  ultimately show ?thesis
    using assms by (cases "a mod N + j < N") (simp_all add: le_mod_geq)
qed

lemma length_memcpy: "off + n \<le> length dst \<Longrightarrow> n \<le> length src \<Longrightarrow> length (memcpy dst off src n) = length dst"
  by (simp add: memcpy_def)

lemma memcpy_nth:
  assumes "off + n \<le> length dst" "n \<le> length src" "p < length dst"
  shows "memcpy dst off src n ! p = (if off \<le> p \<and> p < off + n then src ! (p - off) else dst ! p)"
  using assms by (auto simp: memcpy_def nth_append min_def)

section \<open>The copies\<close>

text \<open>The geometry of a queue whose buffer has \<open>2 ^ k\<close> bytes.\<close>

definition sized :: "nat \<Rightarrow> kfifo \<Rightarrow> bool" where
  "sized k f \<longleftrightarrow> k < 32 \<and> fifo_size f = 2 ^ k \<and> length (buffer f) = 2 ^ k"

lemma sized_unat: "sized k f \<Longrightarrow> unat (fifo_size f) = 2 ^ k"
  by (simp add: sized_def unat_power_two)

lemma diff_min: "(x :: nat) - min x y = x - y"
  by (simp add: min_def)

lemma split_copy:
  fixes n w :: u32
  assumes "sized k f" "unat n \<le> 2 ^ k"
  shows "unat (w AND (fifo_size f - 1)) = unat w mod 2 ^ k"
    and "unat (min n (fifo_size f - (w AND (fifo_size f - 1)))) = min (unat n) (2 ^ k - unat w mod 2 ^ k)"
    and "unat (n - min n (fifo_size f - (w AND (fifo_size f - 1)))) = unat n - (2 ^ k - unat w mod 2 ^ k)"
proof -
  let ?off = "w AND (fifo_size f - 1)"
  have k: "k < LENGTH(32)" "fifo_size f = 2 ^ k"
    using assms(1) by (simp_all add: sized_def)
  show off: "unat ?off = unat w mod 2 ^ k"
    unfolding k(2) by (rule unat_and_mask [OF k(1)])
  have "?off \<le> fifo_size f"
    using off sized_unat [OF assms(1)] by (simp add: word_le_nat_alt less_imp_le)
  then have rest: "unat (fifo_size f - ?off) = 2 ^ k - unat w mod 2 ^ k"
    using off sized_unat [OF assms(1)] by (simp add: unat_sub)
  show l: "unat (min n (fifo_size f - ?off)) = min (unat n) (2 ^ k - unat w mod 2 ^ k)"
    using rest by (simp add: min_def word_le_nat_alt)
  have "min n (fifo_size f - ?off) \<le> n"
    by simp
  then show "unat (n - min n (fifo_size f - ?off)) = unat n - (2 ^ k - unat w mod 2 ^ k)"
    by (simp only: unat_sub l diff_min)
qed

lemma put_copy_frame [simp]:
  "fifo_size (put_copy f data n) = fifo_size f" "in_idx (put_copy f data n) = in_idx f"
  "out_idx (put_copy f data n) = out_idx f"
  by (simp_all add: put_copy_def Let_def)

lemma put_copy_spec:
  assumes "sized k f" "unat n \<le> 2 ^ k" "unat n \<le> length data"
  shows "sized k (put_copy f data n)"
    and "p < 2 ^ k \<Longrightarrow> buffer (put_copy f data n) ! p =
      (let a = unat (in_idx f) mod 2 ^ k
       in if a \<le> p \<and> p < a + unat n then data ! (p - a)
          else if p + 2 ^ k < a + unat n then data ! (p + 2 ^ k - a) else buffer f ! p)"
proof -
  define a where "a = unat (in_idx f) mod 2 ^ k"
  define l where "l = min (unat n) (2 ^ k - a)"
  define r where "r = unat n - (2 ^ k - a)"
  have a: "a < 2 ^ k"
    by (simp add: a_def)
  have len: "length (buffer f) = 2 ^ k"
    using assms(1) by (simp add: sized_def)
  let ?b1 = "memcpy (buffer f) a data l"
  have buf: "buffer (put_copy f data n) = memcpy ?b1 0 (drop l data) r"
    using split_copy [OF assms(1,2), of "in_idx f"]
    by (simp only: put_copy_def Let_def a_def l_def r_def kfifo.select_convs kfifo.update_convs kfifo.surjective) simp
  have b1: "a + l \<le> length (buffer f)" "l \<le> length data" "length ?b1 = 2 ^ k"
    using a assms(3) len by (auto simp: l_def length_memcpy)
  have b2: "0 + r \<le> length ?b1" "r \<le> length (drop l data)"
    using assms(2,3) a b1(3) by (auto simp: r_def l_def)
  show "sized k (put_copy f data n)"
    using assms(1) b1(3) length_memcpy [OF b2] by (simp add: sized_def buf)
  assume p: "p < 2 ^ k"
  have "buffer (put_copy f data n) ! p =
      (if p < r then drop l data ! p else if a \<le> p \<and> p < a + l then data ! (p - a) else buffer f ! p)"
    unfolding buf using memcpy_nth [OF b2] memcpy_nth [OF b1(1,2)] p len b1(3) by simp
  moreover have "drop l data ! p = data ! (p + 2 ^ k - a)" if "p < r"
  proof -
    have "l = 2 ^ k - a"
      using that by (auto simp: r_def l_def)
    then show ?thesis
      using b1(2) a by (simp add: add.commute)
  qed
  ultimately show "buffer (put_copy f data n) ! p =
      (let a = unat (in_idx f) mod 2 ^ k
       in if a \<le> p \<and> p < a + unat n then data ! (p - a)
          else if p + 2 ^ k < a + unat n then data ! (p + 2 ^ k - a) else buffer f ! p)"
    using p a assms(2) unfolding Let_def a_def [symmetric] by (auto simp: r_def l_def)
qed

text \<open>The copy of a put at the absolute position \<open>pos\<close>, and what it leaves alone.\<close>

lemma put_copy_new:
  assumes "sized k f" "unat n \<le> 2 ^ k" "unat n \<le> length data" "pos mod 2 ^ k = unat (in_idx f) mod 2 ^ k" "j < unat n"
  shows "buffer (put_copy f data n) ! ((pos + j) mod 2 ^ k) = data ! j"
proof -
  define a where "a = unat (in_idx f) mod 2 ^ k"
  define q where "q = (pos + j) mod 2 ^ k"
  have q: "q < 2 ^ k" "a < 2 ^ k"
    by (simp_all add: a_def q_def)
  have "q = (if a + j < 2 ^ k then a + j else a + j - 2 ^ k)"
    using mod_add_wrap [of j "2 ^ k" pos] assms(2,4,5) by (simp add: a_def q_def)
  then have "q = a + j \<or> q < a \<and> q + 2 ^ k = a + j"
    using q(2) assms(2,5) by auto
  then show ?thesis
    using put_copy_spec(2) [OF assms(1-3) q(1)] assms(5)
    unfolding Let_def a_def [symmetric] q_def [symmetric] by auto
qed

lemma put_copy_old:
  assumes "sized k f" "unat n \<le> 2 ^ k" "unat n \<le> length data" "pos mod 2 ^ k = unat (in_idx f) mod 2 ^ k"
    "i < pos" "pos + unat n \<le> i + 2 ^ k"
  shows "buffer (put_copy f data n) ! (i mod 2 ^ k) = buffer f ! (i mod 2 ^ k)"
proof -
  define a where "a = unat (in_idx f) mod 2 ^ k"
  define q where "q = i mod 2 ^ k"
  have bounds: "a < 2 ^ k" "q < 2 ^ k"
    by (simp_all add: a_def q_def)
  have "unat n = 0 \<or> a = (if q + (pos - i) < 2 ^ k then q + (pos - i) else q + (pos - i) - 2 ^ k)"
  proof (cases "pos - i < 2 ^ k")
    case True
    then show ?thesis
      using mod_add_wrap [OF True, of i] assms(4,5) by (simp add: a_def q_def)
  next
    case False
    then have "unat n = 0"
      using assms(5,6) by linarith
    then show ?thesis ..
  qed
  then have "\<not> (a \<le> q \<and> q < a + unat n)" "\<not> q + 2 ^ k < a + unat n"
    using bounds assms(5,6) by (auto split: if_splits)
  then show ?thesis
    using put_copy_spec(2) [OF assms(1-3), of q] bounds(2)
    unfolding Let_def a_def [symmetric] q_def [symmetric] by auto
qed

text \<open>\<open>n\<close> bytes from the absolute position \<open>lo\<close>.\<close>

definition window :: "u8 list \<Rightarrow> nat \<Rightarrow> nat \<Rightarrow> nat \<Rightarrow> u8 list" where
  "window b N lo n = map (\<lambda>j. b ! ((lo + j) mod N)) [0..<n]"

lemma window_length [simp]: "length (window b N lo n) = n"
  by (simp add: window_def)

lemma window_nth: "j < n \<Longrightarrow> window b N lo n ! j = b ! ((lo + j) mod N)"
  by (simp add: window_def)

lemma window_cong: "lo mod N = lo' mod N \<Longrightarrow> window b N lo n = window b N lo' n"
  unfolding window_def by (metis mod_add_left_eq)

lemma window_append: "window b N lo (m + n) = window b N lo m @ window b N (lo + m) n"
  by (rule nth_equalityI) (auto simp: window_nth nth_append)

lemma window_take_drop:
  assumes "m \<le> n"
  shows "take m (window b N lo n) = window b N lo m" "drop m (window b N lo n) = window b N (lo + m) (n - m)"
  using window_append [of b N lo m "n - m"] assms by simp_all

lemma get_copy_window:
  assumes "sized k f" "unat n \<le> 2 ^ k" "pos mod 2 ^ k = unat (out_idx f) mod 2 ^ k"
  shows "get_copy f n = window (buffer f) (2 ^ k) pos (unat n)"
proof (rule nth_equalityI)
  define a where "a = unat (out_idx f) mod 2 ^ k"
  define l where "l = min (unat n) (2 ^ k - a)"
  have a: "a < 2 ^ k"
    by (simp add: a_def)
  have len: "length (buffer f) = 2 ^ k"
    using assms(1) by (simp add: sized_def)
  have eq: "get_copy f n = take l (drop a (buffer f)) @ take (unat n - (2 ^ k - a)) (buffer f)"
    using split_copy [OF assms(1,2), of "out_idx f"] by (simp only: get_copy_def Let_def a_def l_def)
  show length_eq: "length (get_copy f n) = length (window (buffer f) (2 ^ k) pos (unat n))"
    using a len assms(2) by (auto simp: eq l_def)
  fix j assume "j < length (get_copy f n)"
  then have j: "j < unat n"
    using length_eq by simp
  have "(pos + j) mod 2 ^ k = (if a + j < 2 ^ k then a + j else a + j - 2 ^ k)"
    using mod_add_wrap [of j "2 ^ k" pos] assms(2,3) j by (simp add: a_def)
  then show "get_copy f n ! j = window (buffer f) (2 ^ k) pos (unat n) ! j"
    using j a len assms(2) by (auto simp: eq l_def window_nth nth_append min_def add.commute)
qed

section \<open>First in, first out\<close>

definition fifo_used :: "kfifo \<Rightarrow> nat" where
  "fifo_used f = unat (in_idx f - out_idx f)"

definition fifo_contents :: "kfifo \<Rightarrow> u8 list" where
  "fifo_contents f = window (buffer f) (unat (fifo_size f)) (unat (out_idx f)) (fifo_used f)"

definition fifo_ok :: "kfifo \<Rightarrow> bool" where
  "fifo_ok f \<longleftrightarrow> (\<exists>k. sized k f) \<and> fifo_used f \<le> unat (fifo_size f)"

lemma fifo_contents_length [simp]: "length (fifo_contents f) = fifo_used f"
  by (simp add: fifo_contents_def)

text \<open>The indices wrap at a multiple of the size, so that they lose nothing that matters.\<close>

lemma unat_add_mod:
  assumes "k \<le> 32"
  shows "unat (v + w :: u32) mod 2 ^ k = (unat v + unat w) mod 2 ^ k"
proof -
  have "(2 :: nat) ^ k dvd 2 ^ 32"
    using assms by (rule le_imp_power_dvd)
  moreover have "unat (v + w) = (unat v + unat w) mod 2 ^ 32"
    by (simp add: unat_word_ariths)
  ultimately show ?thesis
    by (simp only: mod_mod_cancel)
qed

lemma in_position:
  assumes "k \<le> 32"
  shows "(unat (out_idx f) + fifo_used f) mod 2 ^ k = unat (in_idx f) mod 2 ^ k"
  using unat_add_mod [OF assms, of "out_idx f" "in_idx f - out_idx f"] by (simp add: fifo_used_def)

lemma unat_add_small: "unat v + unat w < 2 ^ 32 \<Longrightarrow> unat (v + w :: u32) = unat v + unat w"
  by (simp add: unat_word_ariths)

lemma unat_min: "unat (min v w) = min (unat v) (unat w)"
  by (simp add: min_def word_le_nat_alt)

lemma put_len_unat:
  assumes "fifo_ok f"
  shows "unat (put_len f len) = min (unat len) (unat (fifo_size f) - fifo_used f)"
proof -
  have le: "in_idx f - out_idx f \<le> fifo_size f"
    using assms by (simp add: fifo_ok_def fifo_used_def word_le_nat_alt)
  have "fifo_size f - in_idx f + out_idx f = fifo_size f - (in_idx f - out_idx f)"
    by simp
  then show ?thesis
    by (simp only: put_len_def unat_min unat_sub [OF le] fifo_used_def)
qed

lemma get_len_unat: "unat (get_len f len) = min (unat len) (fifo_used f)"
  by (simp add: get_len_def fifo_used_def unat_min)

lemma fifo_size_small: "sized k f \<Longrightarrow> unat (fifo_size f) < 2 ^ 32"
  using sized_unat [of k f] power_strict_increasing [of k 32 "2 :: nat"] by (simp add: sized_def)

lemma put_index_frame [simp]:
  "buffer (put_index f n) = buffer f" "fifo_size (put_index f n) = fifo_size f" "out_idx (put_index f n) = out_idx f"
  "buffer (get_index f n) = buffer f" "fifo_size (get_index f n) = fifo_size f" "in_idx (get_index f n) = in_idx f"
  by (simp_all add: put_index_def get_index_def)

lemma put_index_used:
  assumes "fifo_used f + unat n < 2 ^ 32"
  shows "fifo_used (put_index f n) = fifo_used f + unat n"
proof -
  have "in_idx f + n - out_idx f = (in_idx f - out_idx f) + n"
    by simp
  moreover have "fifo_used (put_index f n) = unat (in_idx f + n - out_idx f)"
    by (simp add: fifo_used_def put_index_def)
  ultimately show ?thesis
    using unat_add_small [of "in_idx f - out_idx f" n] assms by (simp only: fifo_used_def)
qed

lemma get_index_used:
  assumes "unat n \<le> fifo_used f"
  shows "fifo_used (get_index f n) = fifo_used f - unat n"
proof -
  have "in_idx f - (out_idx f + n) = (in_idx f - out_idx f) - n"
    by simp
  moreover have "fifo_used (get_index f n) = unat (in_idx f - (out_idx f + n))"
    by (simp add: fifo_used_def get_index_def)
  moreover have "n \<le> in_idx f - out_idx f"
    using assms by (simp add: fifo_used_def word_le_nat_alt)
  ultimately show ?thesis
    by (simp only: unat_sub fifo_used_def)
qed

text \<open>Copying in changes nothing that a reader may see; publishing the index appends the copy.\<close>

lemma put_copy_contents:
  assumes "fifo_ok f" "unat n \<le> length data" "fifo_used f + unat n \<le> unat (fifo_size f)"
  shows "fifo_contents (put_copy f data n) = fifo_contents f"
    and "fifo_contents (put_index (put_copy f data n) n) = fifo_contents f @ take (unat n) data"
    and "fifo_ok (put_index (put_copy f data n) n)"
proof -
  let ?f = "put_copy f data n"
  obtain k where k: "sized k f" "unat (fifo_size f) = 2 ^ k" "k \<le> 32"
    using assms(1) sized_unat by (auto simp: fifo_ok_def sized_def)
  have n: "unat n \<le> 2 ^ k"
    using assms(3) k(2) by simp
  let ?pos = "unat (out_idx f) + fifo_used f"
  note pos = in_position [OF k(3), of f]
  have used: "fifo_used ?f = fifo_used f"
    by (simp add: fifo_used_def)
  have old: "window (buffer ?f) (2 ^ k) (unat (out_idx f)) (fifo_used f) = window (buffer f) (2 ^ k) (unat (out_idx f)) (fifo_used f)"
    using put_copy_old [OF k(1) n assms(2) pos] assms(3) k(2) by (intro nth_equalityI) (simp_all add: window_nth)
  then show "fifo_contents ?f = fifo_contents f"
    by (simp add: fifo_contents_def used k(2))
  have new: "window (buffer ?f) (2 ^ k) ?pos (unat n) = take (unat n) data"
    using put_copy_new [OF k(1) n assms(2) pos] assms(2) by (intro nth_equalityI) (simp_all add: window_nth)
  have used': "fifo_used (put_index ?f n) = fifo_used f + unat n"
    using put_index_used [of ?f n] assms(3) fifo_size_small [OF k(1)] by (simp add: used)
  show "fifo_contents (put_index ?f n) = fifo_contents f @ take (unat n) data"
    using old new by (simp add: fifo_contents_def used' k(2) window_append)
  show "fifo_ok (put_index ?f n)"
    using put_copy_spec(1) [OF k(1) n assms(2)] used' assms(3) by (auto simp: fifo_ok_def sized_def put_index_def)
qed

lemma get_index_contents:
  assumes "fifo_ok f" "unat n \<le> fifo_used f"
  shows "get_copy f n = take (unat n) (fifo_contents f)"
    and "fifo_contents (get_index f n) = drop (unat n) (fifo_contents f)" "fifo_ok (get_index f n)"
proof -
  obtain k where k: "sized k f" "unat (fifo_size f) = 2 ^ k" "k \<le> 32"
    using assms(1) sized_unat by (auto simp: fifo_ok_def sized_def)
  have "unat n \<le> 2 ^ k"
    using assms k(2) by (simp add: fifo_ok_def)
  then show "get_copy f n = take (unat n) (fifo_contents f)"
    using get_copy_window [OF k(1)] window_take_drop(1) [OF assms(2)] by (simp add: fifo_contents_def k(2))
  have "window (buffer f) (2 ^ k) (unat (out_idx f + n)) m = window (buffer f) (2 ^ k) (unat (out_idx f) + unat n) m" for m
    by (rule window_cong) (rule unat_add_mod [OF k(3)])
  then show "fifo_contents (get_index f n) = drop (unat n) (fifo_contents f)"
    using window_take_drop(2) [OF assms(2)] get_index_used [OF assms(2)]
    by (simp add: fifo_contents_def k(2)) (simp add: get_index_def)
  show "fifo_ok (get_index f n)"
    using assms(1) get_index_used [OF assms(2)] by (auto simp: fifo_ok_def sized_def get_index_def)
qed

text \<open>The operations on lists of bytes, as a caller with a buffer uses them.\<close>

abbreviation put_nolock :: "kfifo \<Rightarrow> u8 list \<Rightarrow> nat \<times> kfifo" where
  "put_nolock f xs \<equiv> map_prod unat id (kfifo_put_nolock f xs (of_nat (length xs)))"

abbreviation get_nolock :: "kfifo \<Rightarrow> nat \<Rightarrow> u8 list \<times> kfifo" where
  "get_nolock f m \<equiv> kfifo_get_nolock f (of_nat m)"

abbreviation put_locked :: "kfifo \<Rightarrow> u8 list \<Rightarrow> nat \<times> kfifo" where
  "put_locked f xs \<equiv> map_prod unat id (kfifo_put f xs (of_nat (length xs)))"

abbreviation get_locked :: "kfifo \<Rightarrow> nat \<Rightarrow> u8 list \<times> kfifo" where
  "get_locked f m \<equiv> kfifo_get f (of_nat m)"

lemma unat_of_nat_u32: "n \<le> 4294967295 \<Longrightarrow> unat (of_nat n :: u32) = n"
  by (simp add: unat_of_nat)

lemma put_nolock_law:
  assumes "fifo_ok f" "length xs \<le> 4294967295" "put_nolock f xs = (n, f')"
  shows "n = min (length xs) (unat (fifo_size f) - length (fifo_contents f)) \<and>
    fifo_contents f' = fifo_contents f @ take n xs \<and> fifo_ok f' \<and> unat (fifo_size f') = unat (fifo_size f)"
proof -
  let ?n = "put_len f (of_nat (length xs))"
  have n: "unat ?n = min (length xs) (unat (fifo_size f) - fifo_used f)"
    using put_len_unat [OF assms(1)] unat_of_nat_u32 [OF assms(2)] by simp
  have "fifo_used f \<le> unat (fifo_size f)"
    using assms(1) by (simp add: fifo_ok_def)
  then have fits: "unat ?n \<le> length xs" "fifo_used f + unat ?n \<le> unat (fifo_size f)"
    using n by simp_all
  have "n = unat ?n" "f' = put_index (put_copy f xs ?n) ?n"
    using assms(3) by (simp_all add: kfifo_put_nolock_def Let_def)
  then show ?thesis
    using put_copy_contents [OF assms(1) fits] n by simp
qed

lemma get_nolock_law:
  assumes "fifo_ok f" "m \<le> 4294967295" "get_nolock f m = (ys, f')"
  shows "ys = take m (fifo_contents f) \<and> fifo_contents f' = drop m (fifo_contents f) \<and> fifo_ok f' \<and>
    unat (fifo_size f') = unat (fifo_size f)"
proof -
  let ?n = "get_len f (of_nat m)"
  have n: "unat ?n = min m (fifo_used f)"
    using get_len_unat [of f "of_nat m"] unat_of_nat_u32 [OF assms(2)] by simp
  have eq: "ys = get_copy f ?n" "f' = get_index f ?n"
    using assms(3) by (simp_all add: kfifo_get_nolock_def Let_def)
  have "take (unat ?n) (fifo_contents f) = take m (fifo_contents f)" "drop (unat ?n) (fifo_contents f) = drop m (fifo_contents f)"
    using n by (simp_all add: min_def)
  then show ?thesis
    using get_index_contents [OF assms(1), of ?n] n eq by simp
qed

interpretation plain_fifo: bounded_fifo fifo_ok fifo_contents "\<lambda>f. unat (fifo_size f)" 4294967295 put_nolock get_nolock
proof unfold_locales
  show "fifo_ok f \<Longrightarrow> length (fifo_contents f) \<le> unat (fifo_size f)" for f
    by (simp add: fifo_ok_def)
qed (erule (2) put_nolock_law, erule (2) get_nolock_law)

text \<open>With the lock taken, an empty queue may move its indices back to 0.\<close>

lemma empty_reset:
  assumes "fifo_ok f" "in_idx f = out_idx f"
  shows "fifo_ok (f\<lparr>in_idx := 0, out_idx := 0\<rparr>)" "fifo_contents (f\<lparr>in_idx := 0, out_idx := 0\<rparr>) = fifo_contents f"
  using assms by (auto simp: fifo_ok_def sized_def fifo_contents_def fifo_used_def window_def)

lemma get_locked_law:
  assumes "fifo_ok f" "m \<le> 4294967295" "get_locked f m = (ys, f')"
  shows "ys = take m (fifo_contents f) \<and> fifo_contents f' = drop m (fifo_contents f) \<and> fifo_ok f' \<and>
    unat (fifo_size f') = unat (fifo_size f)"
proof -
  obtain f1 where g: "get_nolock f m = (ys, f1)"
    "f' = (if in_idx f1 = out_idx f1 then f1\<lparr>in_idx := 0, out_idx := 0\<rparr> else f1)"
    using assms(3) by (auto simp: kfifo_get_def split: prod.splits)
  then show ?thesis
    using get_nolock_law [OF assms(1,2) g(1)] empty_reset [of f1] by auto
qed

lemmas put_locked_law = put_nolock_law [folded kfifo_put_def]

interpretation locked_fifo: bounded_fifo fifo_ok fifo_contents "\<lambda>f. unat (fifo_size f)" 4294967295 put_locked get_locked
proof unfold_locales
  show "fifo_ok f \<Longrightarrow> length (fifo_contents f) \<le> unat (fifo_size f)" for f
    by (simp add: fifo_ok_def)
qed (erule (2) put_locked_law, erule (2) get_locked_law)

text \<open>
  C27: the byte queue is first in, first out, with and without locking.  After any calls of put and
  get on a well-formed queue, the bytes held before and those accepted are, in this order, the bytes
  delivered and those now held, although the indices wrap at 2^32 and the buffer is circular; and the
  queue never holds more than its size.
\<close>

theorem kfifo_first_in_first_out:
  assumes "fifo_ok f" "\<forall>c \<in> set cmds. cmd_within 4294967295 c"
    "fifo_run put_nolock get_nolock f cmds = (acc, del, f') \<or> fifo_run put_locked get_locked f cmds = (acc, del, f')"
  shows "fifo_contents f @ acc = del @ fifo_contents f' \<and> length (fifo_contents f') \<le> unat (fifo_size f) \<and>
    unat (kfifo_len f') = length (fifo_contents f') \<and> fifo_ok f'"
proof -
  have "fifo_contents f @ acc = del @ fifo_contents f' \<and> fifo_ok f' \<and> length (fifo_contents f') \<le> unat (fifo_size f)"
    using assms(3)
  proof
    assume r: "fifo_run put_nolock get_nolock f cmds = (acc, del, f')"
    show ?thesis
      using plain_fifo.run_first_in_first_out [OF assms(1,2) r] plain_fifo.run_bounded [OF assms(1,2) r] by blast
  next
    assume r: "fifo_run put_locked get_locked f cmds = (acc, del, f')"
    show ?thesis
      using locked_fifo.run_first_in_first_out [OF assms(1,2) r] locked_fifo.run_bounded [OF assms(1,2) r] by blast
  qed
  then show ?thesis
    by (simp add: kfifo_len_def fifo_used_def)
qed

text \<open>A queue of four bytes whose indices are about to wrap.\<close>

definition example_fifo :: kfifo where
  "example_fifo = \<lparr>buffer = [0, 0, 0, 0], fifo_size = 4, in_idx = 0xFFFFFFFF, out_idx = 0xFFFFFFFF\<rparr>"

lemma example_fifo_ok: "fifo_ok example_fifo" "fifo_contents example_fifo = []"
proof -
  have "sized 2 example_fifo"
    by (simp add: sized_def example_fifo_def)
  then show "fifo_ok example_fifo"
    by (auto simp: fifo_ok_def fifo_used_def example_fifo_def)
  show "fifo_contents example_fifo = []"
    by (simp add: fifo_contents_def fifo_used_def example_fifo_def window_def)
qed

theorem kfifo_first_in_first_out_witness:
  "\<exists>f'. fifo_run put_nolock get_nolock example_fifo [Put [1, 2, 3], Get 1, Put [4, 5, 6]] = ([1, 2, 3, 4, 5], [1], f') \<and>
     fifo_contents f' = [2, 3, 4, 5]"
proof -
  let ?r = "fifo_run put_nolock get_nolock example_fifo [Put [1, 2, 3], Get 1, Put [4, 5, 6]]"
  have "fst ?r = [1, 2, 3, 4, 5]" "fst (snd ?r) = [1]"
    by code_simp+
  then have r: "?r = ([1, 2, 3, 4, 5], [1], snd (snd ?r))"
    by (simp only: prod_eq_iff fst_conv snd_conv)
  have "\<forall>c \<in> set [Put [1, 2, 3 :: u8], Get 1, Put [4, 5, 6]]. cmd_within 4294967295 c"
    by simp
  from kfifo_first_in_first_out [OF example_fifo_ok(1) this disjI1 [OF r]] show ?thesis
    using r by (intro exI [of _ "snd (snd ?r)"] conjI) (simp_all only: example_fifo_ok(2) append.simps list.inject)
qed

section \<open>Allocation\<close>

text \<open>Each step of \<^verbatim>\<open>fls\<close> shifts the value up without losing bits.\<close>

lemma high_bits_zero:
  assumes "m \<le> 32"
  shows "(x :: u32) AND NOT (mask m) = 0 \<longleftrightarrow> unat x < 2 ^ m"
proof -
  have "x AND NOT (mask m) = 0 \<longleftrightarrow> take_bit m x = x"
    by (auto simp: bit_eq_iff bit_simps)
  also have "\<dots> \<longleftrightarrow> take_bit m (unat x) = unat x"
    by (metis unsigned_take_bit_eq unsigned_word_eqI)
  finally show ?thesis
    by (simp only: take_bit_nat_eq_self_iff)
qed

lemma fls_step_spec:
  assumes "unat (x :: u32) = X * 2 ^ (32 - r)" "r \<le> 32" "s \<le> 16" "2 ^ (32 - 2 * s) \<le> unat x" "m = NOT (mask (32 - s))"
    "fls_step m s (x, r) = (x', r')"
  shows "unat x' = X * 2 ^ (32 - r') \<and> r' \<le> 32 \<and> 2 ^ (32 - s) \<le> unat x'"
proof (cases "unat x < 2 ^ (32 - s)")
  case True
  then have x': "x' = push_bit s x" "r' = r - s"
    using assms(5,6) high_bits_zero [of "32 - s" x] by (simp_all add: fls_step_def)
  have "unat x * 2 ^ s < 2 ^ (32 - s) * 2 ^ s"
    using True by simp
  also have "(2 :: nat) ^ (32 - s) * 2 ^ s = 2 ^ 32"
    using assms(3) by (simp flip: power_add)
  finally have ux: "unat x' = unat x * 2 ^ s"
    using assms(3) unat_power_two [where 'a = 32, of s] by (simp add: x' push_bit_eq_mult unat_word_ariths)
  have "X \<noteq> 0"
    using assms(1,4) by (metis mult_0 not_one_le_zero one_le_numeral one_le_power order_trans)
  then have "(2 :: nat) ^ (32 - r) \<le> unat x"
    using assms(1) by simp
  then have "(2 :: nat) ^ (32 - r) < 2 ^ (32 - s)"
    using True by (rule le_less_trans)
  then have "s < r"
    by (metis diff_le_mono2 leD leI one_le_numeral power_increasing)
  then have "32 - r' = 32 - r + s"
    using x'(2) assms(2) by simp
  then have exp: "unat x' = X * 2 ^ (32 - r')"
    by (simp only: power_add mult.assoc ux assms(1))
  have "2 ^ (32 - s) = 2 ^ (32 - 2 * s) * (2 :: nat) ^ s"
    using assms(3) by (simp flip: power_add)
  then have "2 ^ (32 - s) \<le> unat x'"
    using assms(4) ux by simp
  then show ?thesis
    using exp assms(2) x'(2) by simp
next
  case False
  then have "x' = x" "r' = r"
    using assms(5,6) high_bits_zero [of "32 - s" x] by (simp_all add: fls_step_def)
  then show ?thesis
    using assms(1,2) False by simp
qed

lemma fls_masks:
  "(0xFFFF0000 :: u32) = NOT (mask (32 - 16))" "(0xFF000000 :: u32) = NOT (mask (32 - 8))"
  "(0xF0000000 :: u32) = NOT (mask (32 - 4))" "(0xC0000000 :: u32) = NOT (mask (32 - 2))"
  "(0x80000000 :: u32) = NOT (mask (32 - 1))"
  by code_simp+

lemma fls_spec:
  assumes "x \<noteq> 0"
  shows "2 ^ (fls x - 1) \<le> unat x \<and> unat x < 2 ^ fls x \<and> 1 \<le> fls x \<and> fls x \<le> 32"
proof -
  obtain x1 r1 where 1: "fls_step 0xFFFF0000 16 (x, 32) = (x1, r1)" by fastforce
  obtain x2 r2 where 2: "fls_step 0xFF000000 8 (x1, r1) = (x2, r2)" by fastforce
  obtain x3 r3 where 3: "fls_step 0xF0000000 4 (x2, r2) = (x3, r3)" by fastforce
  obtain x4 r4 where 4: "fls_step 0xC0000000 2 (x3, r3) = (x4, r4)" by fastforce
  obtain x5 r5 where 5: "fls_step 0x80000000 1 (x4, r4) = (x5, r5)" by fastforce
  have fls: "fls x = r5"
    using assms by (simp only: fls_def 1 2 3 4 5 if_False snd_conv)
  have "unat x1 = unat x * 2 ^ (32 - r1) \<and> r1 \<le> 32 \<and> 2 ^ (32 - 16) \<le> unat x1"
    using assms by (intro fls_step_spec [OF _ _ _ _ fls_masks(1) 1]) (simp_all add: Suc_le_eq unat_gt_0)
  then have "unat x2 = unat x * 2 ^ (32 - r2) \<and> r2 \<le> 32 \<and> 2 ^ (32 - 8) \<le> unat x2"
    by (intro fls_step_spec [OF _ _ _ _ fls_masks(2) 2]) simp_all
  then have "unat x3 = unat x * 2 ^ (32 - r3) \<and> r3 \<le> 32 \<and> 2 ^ (32 - 4) \<le> unat x3"
    by (intro fls_step_spec [OF _ _ _ _ fls_masks(3) 3]) simp_all
  then have "unat x4 = unat x * 2 ^ (32 - r4) \<and> r4 \<le> 32 \<and> 2 ^ (32 - 2) \<le> unat x4"
    by (intro fls_step_spec [OF _ _ _ _ fls_masks(4) 4]) simp_all
  then have fin: "unat x5 = unat x * 2 ^ (32 - r5)" "r5 \<le> 32" "2 ^ 31 \<le> unat x5"
    using fls_step_spec [OF _ _ _ _ fls_masks(5) 5, of "unat x"] by simp_all
  have "unat x5 < 2 ^ 32"
    using unsigned_less [of x5] by simp
  then have "unat x * 2 ^ (32 - r5) < 2 ^ r5 * 2 ^ (32 - r5)"
    using fin(1,2) by (simp flip: power_add)
  then have upper: "unat x < 2 ^ r5"
    by simp
  then have pos: "1 \<le> r5"
    using assms by (cases r5) (simp_all add: unat_eq_0)
  have "2 ^ (r5 - 1) * 2 ^ (32 - r5) \<le> unat x * 2 ^ (32 - r5)"
    using fin pos by (simp flip: power_add)
  then show ?thesis
    using upper pos fin(2) by (simp add: fls)
qed

lemma power_of_2_shape:
  assumes "(n :: u32) AND (n - 1) = 0" "n \<noteq> 0"
  shows "\<exists>k < 32. n = 2 ^ k"
proof -
  define t where "t = fls n - 1"
  have t: "2 ^ t \<le> unat n" "unat n < 2 ^ Suc t" "t < 32"
    using fls_spec [OF assms(2)] by (auto simp: t_def)
  have top: "bit w t" if "2 ^ t \<le> unat w" "unat w < 2 ^ Suc t" for w :: u32
  proof -
    have "unat w div 2 ^ t = 1"
      using that by (intro div_nat_eqI) simp_all
    then have "bit (unat w) t"
      by (simp add: bit_iff_odd)
    then show ?thesis
      by (simp add: bit_unsigned_iff)
  qed
  have "unat (n - 1) = unat n - 1"
    using assms(2) by (simp add: unat_minus_one)
  moreover have "bit n t"
    using top t(1,2) by blast
  then have "\<not> bit (n - 1) t"
    using assms(1) by (metis bit_and_iff bit_0_eq bot_apply bot_bool_def)
  ultimately have "\<not> (2 ^ t \<le> unat n - 1)"
    using top [of "n - 1"] t(2) by (auto, linarith)
  then have "unat n = 2 ^ t"
    using t(1) by simp
  then have "of_nat (unat n) = (of_nat (2 ^ t) :: u32)"
    by (simp only:)
  then have "n = 2 ^ t"
    by simp
  then show ?thesis
    using t(3) by blast
qed

lemma power_is_power_of_2:
  assumes "k < 32"
  shows "is_power_of_2 (2 ^ k)"
proof -
  have "(2 :: u32) ^ k AND (2 ^ k - 1) = take_bit k (2 ^ k)"
    by (simp add: take_bit_eq_mask mask_eq_exp_minus_1)
  also have "\<dots> = 0"
    by (simp add: take_bit_eq_mod)
  finally show ?thesis
    using assms unat_power_two [where 'a = 32, of k] by (auto simp: is_power_of_2_def)
qed

lemma roundup_spec:
  assumes "1 < unat n" "unat n \<le> 2 ^ 31"
  shows "\<exists>k < 32. roundup_pow_of_two n = 2 ^ k \<and> unat n \<le> 2 ^ k \<and> 2 ^ k < 2 * unat n"
proof -
  have "n \<noteq> 0"
    using assms(1) by auto
  then have n1: "unat (n - 1) = unat n - 1" "n - 1 \<noteq> 0"
    using assms(1) unat_minus_one [of n] by auto
  define k where "k = fls (n - 1)"
  have k: "2 ^ (k - 1) \<le> unat n - 1" "unat n - 1 < 2 ^ k" "1 \<le> k"
    using fls_spec [OF n1(2)] n1(1) by (simp_all add: k_def)
  have "(2 :: nat) ^ (k - 1) < 2 ^ 31"
    using k(1) assms by linarith
  then have "k - 1 < 31"
    by (rule power_less_imp_less_exp [rotated]) simp
  then have "k < 32"
    using k(3) by simp
  moreover have "(2 :: nat) ^ k = 2 * 2 ^ (k - 1)"
    using k(3) by (cases k) simp_all
  then have "2 ^ k < 2 * unat n" "unat n \<le> 2 ^ k"
    using k(1,2) assms(1) by linarith+
  moreover have "roundup_pow_of_two n = 2 ^ k"
    by (simp add: roundup_pow_of_two_def k_def push_bit_of_1)
  ultimately show ?thesis
    by blast
qed

lemma rounded_size:
  assumes "0 < unat sz" "unat sz \<le> 2 ^ 31"
  shows "\<exists>k < 32. unat sz \<le> 2 ^ k \<and> 2 ^ k < 2 * unat sz \<and>
    2 ^ k = (if sz AND (sz - 1) \<noteq> 0 then roundup_pow_of_two sz else sz)"
proof (cases "sz AND (sz - 1) = 0")
  case True
  have "sz \<noteq> 0"
    using assms(1) by auto
  with True obtain k where "k < 32" "sz = 2 ^ k"
    using power_of_2_shape [of sz] by blast
  then show ?thesis
    using True unat_power_two [where 'a = 32, of k] by (intro exI [of _ k]) simp
next
  case False
  have "unat sz \<noteq> 1"
  proof
    assume "unat sz = 1"
    then have "of_nat (unat sz) = (1 :: u32)"
      by simp
    then show False
      using False by simp
  qed
  then show ?thesis
    using roundup_spec [of sz] assms False by fastforce
qed

text \<open>
  Kfifo_alloc gives an empty, well-formed queue whose size is the least power of two that holds
  the size asked for, for every size from 1 to 2^31, or fails with ENOMEM when an allocation fails.
  A size of 0 is not caught: unless the buffer allocation fails, it hits the BUG_ON of kfifo_init.
\<close>

theorem kfifo_alloc_spec:
  assumes "\<And>n b. kmalloc n = Some b \<Longrightarrow> length b = n"
  shows "(0 < unat sz \<and> unat sz \<le> 2 ^ 31 \<longrightarrow>
      (\<exists>k < 32. unat sz \<le> 2 ^ k \<and> 2 ^ k < 2 * unat sz \<and>
        (case kfifo_alloc kmalloc struct_ok sz of
           None \<Rightarrow> False
         | Some (Inl e) \<Rightarrow> e = ENOMEM \<and> (kmalloc (2 ^ k) = None \<or> \<not> struct_ok)
         | Some (Inr f) \<Rightarrow> fifo_ok f \<and> fifo_contents f = [] \<and> unat (fifo_size f) = 2 ^ k))) \<and>
    kfifo_alloc kmalloc struct_ok 0 = (if kmalloc 0 = None then Some (Inl ENOMEM) else None)"
proof (intro conjI impI)
  show "kfifo_alloc kmalloc struct_ok 0 = (if kmalloc 0 = None then Some (Inl ENOMEM) else None)"
    by (simp add: kfifo_alloc_def kfifo_init_def is_power_of_2_def split: option.splits)
next
  assume sz: "0 < unat sz \<and> unat sz \<le> 2 ^ 31"
  obtain k where k: "k < 32" "unat sz \<le> 2 ^ k" "2 ^ k < 2 * unat sz"
    "2 ^ k = (if sz AND (sz - 1) \<noteq> 0 then roundup_pow_of_two sz else sz)"
    using rounded_size [of sz] sz by meson
  have "\<not> sz > 0x80000000"
    using sz by (simp add: word_less_nat_alt)
  then have eq: "kfifo_alloc kmalloc struct_ok sz =
      (case kmalloc (unat (2 ^ k :: u32)) of None \<Rightarrow> Some (Inl ENOMEM) | Some buf \<Rightarrow> kfifo_init struct_ok buf (2 ^ k))"
    unfolding kfifo_alloc_def Let_def k(4) [symmetric] by simp
  have u: "unat (2 ^ k :: u32) = 2 ^ k"
    using k(1) by (simp add: unat_power_two)
  have ok: "fifo_ok \<lparr>buffer = b, fifo_size = 2 ^ k, in_idx = 0, out_idx = 0\<rparr>"
    "fifo_contents \<lparr>buffer = b, fifo_size = 2 ^ k, in_idx = 0, out_idx = 0\<rparr> = []" if "kmalloc (2 ^ k) = Some b" for b
    using assms [OF that] k(1) by (auto simp: fifo_ok_def sized_def fifo_used_def fifo_contents_def window_def)
  have "case kfifo_alloc kmalloc struct_ok sz of
           None \<Rightarrow> False
         | Some (Inl e) \<Rightarrow> e = ENOMEM \<and> (kmalloc (2 ^ k) = None \<or> \<not> struct_ok)
         | Some (Inr f) \<Rightarrow> fifo_ok f \<and> fifo_contents f = [] \<and> unat (fifo_size f) = 2 ^ k"
    using ok u power_is_power_of_2 [OF k(1)] unfolding eq by (simp add: kfifo_init_def split: option.splits)
  then show "\<exists>k < 32. unat sz \<le> 2 ^ k \<and> 2 ^ k < 2 * unat sz \<and>
        (case kfifo_alloc kmalloc struct_ok sz of
           None \<Rightarrow> False
         | Some (Inl e) \<Rightarrow> e = ENOMEM \<and> (kmalloc (2 ^ k) = None \<or> \<not> struct_ok)
         | Some (Inr f) \<Rightarrow> fifo_ok f \<and> fifo_contents f = [] \<and> unat (fifo_size f) = 2 ^ k)"
    using k(1-3) by blast
qed

theorem kfifo_alloc_spec_witness:
  "\<exists>f. kfifo_alloc (\<lambda>n. Some (replicate n 0)) True 100 = Some (Inr f) \<and> fifo_ok f \<and> fifo_contents f = [] \<and>
     unat (fifo_size f) = 128"
proof -
  let ?k = "\<lambda>n. Some (replicate n (0 :: u8))"
  obtain k :: nat where k: "100 \<le> (2 :: nat) ^ k" "(2 :: nat) ^ k < 2 * 100"
    "case kfifo_alloc ?k True 100 of
           None \<Rightarrow> False
         | Some (Inl e) \<Rightarrow> e = ENOMEM \<and> (?k (2 ^ k) = None \<or> \<not> True)
         | Some (Inr f) \<Rightarrow> fifo_ok f \<and> fifo_contents f = [] \<and> unat (fifo_size f) = 2 ^ k"
    using kfifo_alloc_spec [of ?k 100 True] by auto
  have "6 < k" "k < 8"
    using k(1,2) power_increasing [of k 6 "2 :: nat"] power_increasing [of 8 k "2 :: nat"] by (auto simp: not_le [symmetric])
  then have "k = 7"
    by simp
  with k(3) show ?thesis
    by (auto split: option.splits sum.splits)
qed

section \<open>One reader and one writer\<close>

text \<open>
  The functions without locking, run by one writer and one reader at the same time.  Each goes
  through three stages: it reads the indices, copies, and stores its own index; the memory barriers
  of the code keep the stages in this order.  \<open>sent\<close> and \<open>received\<close> record the bytes handed over.
\<close>

datatype writer = W_idle | W_room "u8 list" u32 | W_copied "u8 list" u32
datatype reader = R_idle | R_avail u32 | R_copied "u8 list" u32

record fifo_pair =
  shared :: kfifo
  writer :: writer
  reader :: reader
  sent :: "u8 list"
  received :: "u8 list"

inductive fifo_step :: "fifo_pair \<Rightarrow> fifo_pair \<Rightarrow> bool" where
  w_room: "writer s = W_idle \<Longrightarrow> length data \<le> 4294967295 \<Longrightarrow>
    fifo_step s (s\<lparr>writer := W_room data (put_len (shared s) (of_nat (length data)))\<rparr>)"
| w_copy: "writer s = W_room data n \<Longrightarrow>
    fifo_step s (s\<lparr>shared := put_copy (shared s) data n, writer := W_copied data n\<rparr>)"
| w_index: "writer s = W_copied data n \<Longrightarrow>
    fifo_step s (s\<lparr>shared := put_index (shared s) n, writer := W_idle, sent := sent s @ take (unat n) data\<rparr>)"
| r_avail: "reader s = R_idle \<Longrightarrow> fifo_step s (s\<lparr>reader := R_avail (get_len (shared s) len)\<rparr>)"
| r_copy: "reader s = R_avail n \<Longrightarrow> fifo_step s (s\<lparr>reader := R_copied (get_copy (shared s) n) n\<rparr>)"
| r_index: "reader s = R_copied bytes n \<Longrightarrow>
    fifo_step s (s\<lparr>shared := get_index (shared s) n, reader := R_idle, received := received s @ bytes\<rparr>)"

definition writer_ok :: "kfifo \<Rightarrow> writer \<Rightarrow> bool" where
  "writer_ok f w \<longleftrightarrow>
     (case w of
        W_idle \<Rightarrow> True
      | W_room data n \<Rightarrow> unat n \<le> length data \<and> fifo_used f + unat n \<le> unat (fifo_size f)
      | W_copied data n \<Rightarrow> unat n \<le> length data \<and> fifo_used f + unat n \<le> unat (fifo_size f) \<and>
          fifo_contents (put_index f n) = fifo_contents f @ take (unat n) data)"

definition reader_ok :: "kfifo \<Rightarrow> reader \<Rightarrow> bool" where
  "reader_ok f r \<longleftrightarrow>
     (case r of
        R_idle \<Rightarrow> True
      | R_avail n \<Rightarrow> unat n \<le> fifo_used f
      | R_copied bytes n \<Rightarrow> unat n \<le> fifo_used f \<and> bytes = take (unat n) (fifo_contents f))"

definition pair_ok :: "fifo_pair \<Rightarrow> bool" where
  "pair_ok s \<longleftrightarrow> fifo_ok (shared s) \<and> sent s = received s @ fifo_contents (shared s) \<and>
     writer_ok (shared s) (writer s) \<and> reader_ok (shared s) (reader s)"

lemma put_index_ok:
  assumes "fifo_ok f" "fifo_used f + unat n \<le> unat (fifo_size f)"
  shows "fifo_ok (put_index f n)" "fifo_used (put_index f n) = fifo_used f + unat n"
proof -
  obtain k where "sized k f"
    using assms(1) by (auto simp: fifo_ok_def)
  then show used: "fifo_used (put_index f n) = fifo_used f + unat n"
    using put_index_used assms(2) fifo_size_small by (metis le_less_trans)
  show "fifo_ok (put_index f n)"
    using assms used by (auto simp: fifo_ok_def sized_def)
qed

lemma put_copy_ok:
  assumes "fifo_ok f" "unat n \<le> length data" "unat n \<le> unat (fifo_size f)"
  shows "fifo_ok (put_copy f data n)"
proof -
  obtain k where "sized k f"
    using assms(1) by (auto simp: fifo_ok_def)
  then have "sized k (put_copy f data n)"
    using put_copy_spec(1) assms(2,3) sized_unat by metis
  then show ?thesis
    using assms(1) by (auto simp: fifo_ok_def fifo_used_def)
qed

text \<open>A copy made while the reader advances is still in place when its index is stored.\<close>

lemma get_keeps_copied:
  assumes "fifo_ok f" "unat m \<le> fifo_used f" "writer_ok f w"
  shows "writer_ok (get_index f m) w"
proof (cases w)
  case (W_copied data n)
  have w: "fifo_used f + unat n \<le> unat (fifo_size f)" "unat n \<le> length data"
    "fifo_contents (put_index f n) = fifo_contents f @ take (unat n) data"
    using assms(3) by (simp_all add: writer_ok_def W_copied)
  have "put_index (get_index f m) n = get_index (put_index f n) m"
    by (simp add: put_index_def get_index_def)
  moreover have "fifo_contents (get_index (put_index f n) m) = drop (unat m) (fifo_contents (put_index f n))"
    using put_index_ok [OF assms(1) w(1)] assms(2) by (intro get_index_contents) simp_all
  ultimately have "fifo_contents (put_index (get_index f m) n) = fifo_contents (get_index f m) @ take (unat n) data"
    using w(3) get_index_contents(2) [OF assms(1,2)] assms(2) by simp
  then show ?thesis
    using w get_index_used [OF assms(2)] by (simp add: writer_ok_def W_copied)
qed (use assms get_index_used [OF assms(2)] in \<open>auto simp: writer_ok_def\<close>)

lemma fifo_step_ok:
  assumes "fifo_step s s'" "pair_ok s"
  shows "pair_ok s'"
proof -
  have s: "fifo_ok (shared s)" "sent s = received s @ fifo_contents (shared s)"
    "writer_ok (shared s) (writer s)" "reader_ok (shared s) (reader s)"
    using assms(2) by (simp_all add: pair_ok_def)
  show ?thesis
    using assms(1)
  proof cases
    case (w_room data)
    have "unat (put_len (shared s) (of_nat (length data))) \<le> length data"
      "fifo_used (shared s) + unat (put_len (shared s) (of_nat (length data))) \<le> unat (fifo_size (shared s))"
      using put_len_unat [OF s(1)] unat_of_nat_u32 [OF w_room(3)] s(1) by (auto simp: fifo_ok_def)
    then show ?thesis
      using s by (simp add: w_room(1) pair_ok_def writer_ok_def)
  next
    case (w_copy data n)
    have w: "unat n \<le> length data" "fifo_used (shared s) + unat n \<le> unat (fifo_size (shared s))"
      using s(3) by (simp_all add: w_copy(2) writer_ok_def)
    note c = put_copy_contents [OF s(1) w]
    have "fifo_used (put_copy (shared s) data n) = fifo_used (shared s)"
      by (simp add: fifo_used_def)
    then have "reader_ok (put_copy (shared s) data n) (reader s)"
      using s(4) c(1) by (cases "reader s") (simp_all add: reader_ok_def)
    then show ?thesis
      using s(2) put_copy_ok [OF s(1) w(1)] w c by (simp add: w_copy(1) pair_ok_def writer_ok_def fifo_used_def)
  next
    case (w_index data n)
    have w: "fifo_used (shared s) + unat n \<le> unat (fifo_size (shared s))"
      "fifo_contents (put_index (shared s) n) = fifo_contents (shared s) @ take (unat n) data"
      using s(3) by (simp_all add: w_index(2) writer_ok_def)
    have "reader_ok (put_index (shared s) n) (reader s)"
      using s(4) put_index_ok(2) [OF s(1) w(1)] w(2) by (auto simp: reader_ok_def split: reader.splits)
    then show ?thesis
      using s(2) put_index_ok(1) [OF s(1) w(1)] w(2) by (simp add: w_index(1) pair_ok_def writer_ok_def)
  next
    case (r_avail len)
    then show ?thesis
      using s get_len_unat [of "shared s" len] by (simp add: pair_ok_def reader_ok_def)
  next
    case (r_copy n)
    then show ?thesis
      using s get_index_contents(1) [OF s(1), of n] by (simp add: pair_ok_def reader_ok_def)
  next
    case (r_index bytes n)
    have r: "unat n \<le> fifo_used (shared s)" "bytes = take (unat n) (fifo_contents (shared s))"
      using s(4) by (simp_all add: r_index(2) reader_ok_def)
    then show ?thesis
      using s(2) get_index_contents(2,3) [OF s(1) r(1)] get_keeps_copied [OF s(1) r(1) s(3)]
      by (simp add: r_index(1) pair_ok_def reader_ok_def)
  qed
qed

text \<open>
  C26: without any locking, one writer and one reader exchange bytes correctly, as the comments of
  kfifo.c promise.  In every interleaving of the stages of their calls, what was sent is what was
  received followed by what the queue holds, in order; nothing is lost, duplicated or torn.
\<close>

theorem kfifo_lock_free_pair:
  assumes "fifo_ok f" "fifo_contents f = []"
    "fifo_step\<^sup>*\<^sup>* \<lparr>shared = f, writer = W_idle, reader = R_idle, sent = [], received = []\<rparr> s"
  shows "sent s = received s @ fifo_contents (shared s) \<and>
    length (fifo_contents (shared s)) \<le> unat (fifo_size (shared s))"
proof -
  have "pair_ok s"
    using assms(3)
  proof (induction rule: rtranclp_induct)
    case base
    show ?case
      using assms(1,2) by (simp add: pair_ok_def writer_ok_def reader_ok_def)
  next
    case (step s t)
    then show ?case
      using fifo_step_ok by blast
  qed
  then show ?thesis
    by (simp add: pair_ok_def fifo_ok_def)
qed

theorem kfifo_lock_free_pair_witness:
  "\<exists>s. fifo_step\<^sup>*\<^sup>* \<lparr>shared = example_fifo, writer = W_idle, reader = R_idle, sent = [], received = []\<rparr> s \<and>
     writer s = W_copied [1, 2, 3, 4, 5] 4 \<and> reader s = R_avail 0 \<and> sent s = received s @ fifo_contents (shared s)"
proof -
  let ?init = "\<lparr>shared = example_fifo, writer = W_idle, reader = R_idle, sent = [], received = []\<rparr>"
  let ?f = "put_copy example_fifo [1, 2, 3, 4, 5] 4"
  let ?s = "\<lparr>shared = ?f, writer = W_copied [1, 2, 3, 4, 5] 4, reader = R_avail 0, sent = [], received = []\<rparr>"
  have len: "put_len example_fifo (of_nat (length [1, 2, 3, 4, 5 :: u8])) = 4" "get_len example_fifo 9 = 0"
    by code_simp+
  have "fifo_step ?init (?init\<lparr>reader := R_avail 0\<rparr>)"
    using fifo_step.r_avail [of ?init 9] len(2) by simp
  moreover have "fifo_step (?init\<lparr>reader := R_avail 0\<rparr>) (?init\<lparr>reader := R_avail 0, writer := W_room [1, 2, 3, 4, 5] 4\<rparr>)"
    using fifo_step.w_room [of "?init\<lparr>reader := R_avail 0\<rparr>" "[1, 2, 3, 4, 5]"] len(1) by simp
  moreover have "fifo_step (?init\<lparr>reader := R_avail 0, writer := W_room [1, 2, 3, 4, 5] 4\<rparr>) ?s"
    using fifo_step.w_copy [of "?init\<lparr>reader := R_avail 0, writer := W_room [1, 2, 3, 4, 5] 4\<rparr>"] by simp
  ultimately have run: "fifo_step\<^sup>*\<^sup>* ?init ?s"
    by (meson rtranclp.rtrancl_into_rtrancl rtranclp.rtrancl_refl)
  show ?thesis
    using run kfifo_lock_free_pair [OF example_fifo_ok run] by (intro exI [of _ ?s]) simp
qed

end
