(* ===== verification/Script.thy ===== *)
theory Script
  imports Kernel_Prelude
begin

text \<open>
  Executing scripts: \<^verbatim>\<open>fs/binfmt_script.c\<close>.  The first bytes of the file, in a buffer of
  \<^verbatim>\<open>BINPRM_BUF_SIZE\<close> bytes, are parsed in place; pointers into the buffer are indices.  A loop
  that the code lets run until it meets a NUL also stops at the end of the buffer here, which the
  specification shows is never reached.
\<close>

definition BINPRM_BUF_SIZE :: nat where "BINPRM_BUF_SIZE = 128"
definition BINPRM_MAX_RECURSION :: nat where "BINPRM_MAX_RECURSION = 4"

definition blank :: "u8 \<Rightarrow> bool" where
  "blank c \<longleftrightarrow> c = 0x20 \<or> c = 0x09"

fun strchr :: "u8 list \<Rightarrow> u8 \<Rightarrow> nat option" where
  "strchr [] c = None"
| "strchr (x # xs) c = (if x = c then Some 0 else if x = 0 then None else map_option Suc (strchr xs c))"

text \<open>The string that starts at an index.\<close>

definition string_at :: "u8 list \<Rightarrow> nat \<Rightarrow> u8 list" where
  "string_at buf i = takeWhile (\<lambda>c. c \<noteq> 0) (drop i buf)"

text \<open>The loop that overwrites the blanks before an index with NULs.\<close>

fun strip_blanks :: "nat \<Rightarrow> u8 list \<Rightarrow> u8 list" where
  "strip_blanks 0 buf = buf"
| "strip_blanks (Suc i) buf = (if blank (buf ! i) then strip_blanks i (buf[i := 0]) else buf)"

function skip_blanks :: "u8 list \<Rightarrow> nat \<Rightarrow> nat" where
  "skip_blanks buf i = (if i < length buf \<and> blank (buf ! i) then skip_blanks buf (Suc i) else i)"
  by pat_completeness auto
termination by (relation "measure (\<lambda>(buf, i). length buf - i)") auto

function skip_word :: "u8 list \<Rightarrow> nat \<Rightarrow> nat" where
  "skip_word buf i =
     (if i < length buf \<and> buf ! i \<noteq> 0 \<and> \<not> blank (buf ! i) then skip_word buf (Suc i) else i)"
  by pat_completeness auto
termination by (relation "measure (\<lambda>(buf, i). length buf - i)") auto

function zero_blanks :: "u8 list \<Rightarrow> nat \<Rightarrow> u8 list \<times> nat" where
  "zero_blanks buf i =
     (if i < length buf \<and> blank (buf ! i) then zero_blanks (buf[i := 0]) (Suc i) else (buf, i))"
  by pat_completeness auto
termination by (relation "measure (\<lambda>(buf, i). length buf - i)") auto

text \<open>From the NUL at the end of the line to the name of the interpreter and its argument.\<close>

definition end_line :: "u8 list \<Rightarrow> u8 list" where
  "end_line buf =
     (let buf1 = buf[BINPRM_BUF_SIZE - 1 := 0];
          cp = (case strchr buf1 0x0A of Some i \<Rightarrow> i | None \<Rightarrow> BINPRM_BUF_SIZE - 1)
      in strip_blanks cp (buf1[cp := 0]))"

definition parse_first_line :: "u8 list \<Rightarrow> (u8 list \<times> u8 list option) result" where
  "parse_first_line buf =
     (let cp = skip_blanks buf 2
      in if buf ! cp = 0 then Inl ENOEXEC
         else
           let cp1 = skip_word buf cp; (buf2, cp2) = zero_blanks buf cp1
           in Inr (string_at buf2 cp, if buf2 ! cp2 \<noteq> 0 then Some (string_at buf2 cp2) else None))"

record script_bprm =
  sb_buf :: "u8 list"
  sb_recursion_depth :: nat
  sb_interp :: "u8 list"
  sb_argv :: "u8 list list"

text \<open>Outcomes of the work on the pages of arguments.\<close>

record script_env =
  remove_zero :: "unit result"
  copy_string :: "u8 list \<Rightarrow> unit result"

definition remove_arg_zero :: "script_env \<Rightarrow> u8 list list \<Rightarrow> u8 list list result" where
  "remove_arg_zero env argv =
     (if argv = [] then Inr []
      else case remove_zero env of Inl e \<Rightarrow> Inl e | Inr _ \<Rightarrow> Inr (tl argv))"

text \<open>\<^verbatim>\<open>copy_strings_kernel\<close> with one string, and the step of \<^verbatim>\<open>argc\<close> after it.\<close>

definition push_arg :: "script_env \<Rightarrow> u8 list \<Rightarrow> u8 list list result \<Rightarrow> u8 list list result" where
  "push_arg env s argv =
     (case argv of
        Inl e \<Rightarrow> Inl e
      | Inr args \<Rightarrow> (case copy_string env s of Inl e \<Rightarrow> Inl e | Inr _ \<Rightarrow> Inr (s # args)))"

text \<open>\<^verbatim>\<open>load_script\<close> up to the opening of the interpreter.\<close>

definition load_script :: "script_env \<Rightarrow> script_bprm \<Rightarrow> script_bprm result" where
  "load_script env bprm =
     (if sb_buf bprm ! 0 \<noteq> 0x23 \<or> sb_buf bprm ! 1 \<noteq> 0x21 \<or> sb_recursion_depth bprm > BINPRM_MAX_RECURSION
      then Inl ENOEXEC
      else case parse_first_line (end_line (sb_buf bprm)) of
        Inl e \<Rightarrow> Inl e
      | Inr (i_name, i_arg) \<Rightarrow>
        (let args1 = push_arg env (sb_interp bprm) (remove_arg_zero env (sb_argv bprm));
             args2 = (case i_arg of None \<Rightarrow> args1 | Some a \<Rightarrow> push_arg env a args1)
         in case push_arg env i_name args2 of
              Inl e \<Rightarrow> Inl e
            | Inr args \<Rightarrow>
                Inr (bprm\<lparr>sb_recursion_depth := sb_recursion_depth bprm + 1, sb_interp := i_name, sb_argv := args\<rparr>)))"

end
