(* ===== verification/Script_Spec.thy ===== *)
theory Script_Spec
  imports Script
begin

text \<open>
  The in-place parser of the first line of a script agrees with a definition on lists, stays inside
  the buffer, and gives the interpreter the arguments in the documented order.
\<close>

section \<open>The reference\<close>

definition rtrim :: "u8 list \<Rightarrow> u8 list" where
  "rtrim xs = rev (dropWhile blank (rev xs))"

text \<open>The first line, as far as the buffer reaches.\<close>

definition first_line :: "u8 list \<Rightarrow> u8 list" where
  "first_line buf = takeWhile (\<lambda>c. c \<noteq> 0x0A) (take (BINPRM_BUF_SIZE - 1) buf)"

text \<open>Interpreter and argument: the first word, and all of the rest as one argument.\<close>

definition script_words :: "u8 list \<Rightarrow> (u8 list \<times> u8 list option) result" where
  "script_words xs =
     (let t = dropWhile blank (rtrim xs); arg = dropWhile blank (dropWhile (\<lambda>c. \<not> blank c) t)
      in if t = [] then Inl ENOEXEC
         else Inr (takeWhile (\<lambda>c. \<not> blank c) t, if arg = [] then None else Some arg))"

section \<open>The loops\<close>

lemma blank_NUL [simp]: "\<not> blank 0"
  by (simp add: blank_def)

lemma rtrim_simps [simp]:
  "rtrim [] = []" "rtrim (xs @ [x]) = (if blank x then rtrim xs else xs @ [x])"
  by (simp_all add: rtrim_def)

lemma rtrim_prefix: "\<exists>ys. xs = rtrim xs @ ys"
  by (metis rtrim_def rev_rev_ident rev_append takeWhile_dropWhile_id)

lemma rtrim_Cons: "\<not> blank x \<Longrightarrow> rtrim (x # xs) = x # rtrim xs"
  by (induction xs rule: rev_induct) (simp_all add: rtrim_def dropWhile_append)

lemma strip_blanks_rtrim:
  "strip_blanks (length xs) (xs @ ys) = rtrim xs @ replicate (length xs - length (rtrim xs)) 0 @ ys"
proof (induction xs arbitrary: ys rule: rev_induct)
  case (snoc x xs)
  show ?case
  proof (cases "blank x")
    case True
    have len: "length (rtrim xs) \<le> length xs"
      using rtrim_prefix [of xs] by (metis length_append le_add1)
    have "strip_blanks (length (xs @ [x])) ((xs @ [x]) @ ys) = strip_blanks (length xs) (xs @ 0 # ys)"
      using True by simp
    also have "\<dots> = rtrim xs @ replicate (length xs - length (rtrim xs)) 0 @ 0 # ys"
      by (rule snoc.IH)
    finally show ?thesis
      using True len by (simp add: Suc_diff_le replicate_app_Cons_same)
  qed simp
qed simp

declare skip_blanks.simps [simp del] skip_word.simps [simp del] zero_blanks.simps [simp del]

text \<open>Each loop stops at the NUL after the text at the latest.\<close>

lemma skip_blanks_at:
  "skip_blanks (pre @ xs @ 0 # junk) (length pre) = length pre + length (takeWhile blank xs)"
proof (induction xs arbitrary: pre)
  case Nil
  show ?case by (subst skip_blanks.simps) simp
next
  case (Cons x xs)
  show ?case
    using Cons.IH [of "pre @ [x]"] by (subst skip_blanks.simps) simp
qed

lemma skip_word_at:
  "0 \<notin> set xs \<Longrightarrow>
   skip_word (pre @ xs @ 0 # junk) (length pre) = length pre + length (takeWhile (\<lambda>c. \<not> blank c) xs)"
proof (induction xs arbitrary: pre)
  case Nil
  show ?case by (subst skip_word.simps) simp
next
  case (Cons x xs)
  then show ?case
    using Cons.IH [of "pre @ [x]"] by (subst skip_word.simps) auto
qed

lemma zero_blanks_at:
  "zero_blanks (pre @ xs @ 0 # junk) (length pre) =
     (pre @ replicate (length (takeWhile blank xs)) 0 @ dropWhile blank xs @ 0 # junk,
      length pre + length (takeWhile blank xs))"
proof (induction xs arbitrary: pre)
  case Nil
  show ?case by (subst zero_blanks.simps) simp
next
  case (Cons x xs)
  show ?case
    using Cons.IH [of "pre @ [0]"] by (subst zero_blanks.simps) simp
qed

lemma string_at_text: "0 \<notin> set xs \<Longrightarrow> string_at (pre @ xs @ 0 # junk) (length pre) = xs"
  by (simp add: string_at_def takeWhile_append2 [where P = "\<lambda>c. c \<noteq> 0"]) (auto simp: takeWhile_append)

lemma strchr_line:
  "0 \<notin> set xs \<Longrightarrow> c \<notin> set xs \<Longrightarrow> c \<noteq> 0 \<Longrightarrow> strchr (xs @ c # ys) c = Some (length xs)"
  "0 \<notin> set xs \<Longrightarrow> c \<notin> set xs \<Longrightarrow> c \<noteq> 0 \<Longrightarrow> strchr (xs @ 0 # ys) c = None"
  by (induction xs) auto

section \<open>The parser\<close>

lemma end_line_shape:
  assumes "length buf = BINPRM_BUF_SIZE" "0 \<notin> set (first_line buf)"
  shows "\<exists>junk. end_line buf = rtrim (first_line buf) @ 0 # junk"
proof -
  let ?n = "BINPRM_BUF_SIZE - 1"
  let ?l = "first_line buf"
  have buf: "buf[?n := 0] = take ?n buf @ [0]"
    using assms(1) by (simp add: upd_conv_take_nth_drop BINPRM_BUF_SIZE_def)
  have nl: "0x0A \<notin> set ?l"
    unfolding first_line_def by (metis (mono_tags, lifting) set_takeWhileD)
  have "\<exists>junk. (case strchr (buf[?n := 0]) 0x0A of Some i \<Rightarrow> i | None \<Rightarrow> ?n) = length ?l \<and>
      (buf[?n := 0])[length ?l := 0] = ?l @ 0 # junk"
  proof (cases "dropWhile (\<lambda>c. c \<noteq> 0x0A) (take ?n buf)")
    case Nil
    then have t: "take ?n buf = ?l"
      unfolding first_line_def by (metis append_Nil2 takeWhile_dropWhile_id)
    then have len: "length ?l = ?n"
      using assms(1) by (metis diff_le_self length_take min.absorb2)
    have none: "strchr (?l @ [0]) 0x0A = None"
      by (rule strchr_line(2) [OF assms(2) nl]) simp
    have "(?l @ [0])[length ?l := 0] = ?l @ [0]"
      by simp
    then show ?thesis
      unfolding buf t none option.case by (intro exI [of _ "[]"] conjI) (simp only: len)
  next
    case (Cons x r)
    have "x = 0x0A"
      using Cons by (simp only: dropWhile_eq_Cons_conv not_not)
    then have "take ?n buf = ?l @ 0x0A # r"
      unfolding first_line_def using takeWhile_dropWhile_id [of "\<lambda>c. c \<noteq> 0x0A" "take ?n buf"] Cons by metis
    then show ?thesis
      using strchr_line(1) [OF assms(2) nl] unfolding buf by simp
  qed
  then obtain junk where "end_line buf = strip_blanks (length ?l) (?l @ 0 # junk)"
    unfolding end_line_def Let_def by metis
  then show ?thesis
    unfolding strip_blanks_rtrim by (cases "length ?l - length (rtrim ?l)") auto
qed

lemma parse_first_line_words:
  assumes "0 \<notin> set w"
  shows "parse_first_line (a # b # w @ 0 # junk) =
    (let t = dropWhile blank w; arg = dropWhile blank (dropWhile (\<lambda>c. \<not> blank c) t)
     in if t = [] then Inl ENOEXEC
        else Inr (takeWhile (\<lambda>c. \<not> blank c) t, if arg = [] then None else Some arg))"
proof -
  define t where "t = dropWhile blank w"
  define name where "name = takeWhile (\<lambda>c. \<not> blank c) t"
  define rest where "rest = dropWhile (\<lambda>c. \<not> blank c) t"
  define arg where "arg = dropWhile blank rest"
  define k where "k = length (takeWhile blank rest)"
  let ?pre = "a # b # takeWhile blank w"
  let ?buf = "a # b # w @ 0 # junk"
  have w: "w = takeWhile blank w @ t" "t = name @ rest" "rest = takeWhile blank rest @ arg"
    by (simp_all add: t_def name_def rest_def arg_def)
  have nz: "0 \<notin> set t" "0 \<notin> set name" "0 \<notin> set rest" "0 \<notin> set arg"
    using assms w by (metis Un_iff set_append)+
  have buf: "?buf = ?pre @ t @ 0 # junk"
    using w(1) by (metis append.assoc append_Cons)
  have cp: "skip_blanks ?buf 2 = length ?pre"
    using skip_blanks_at [of "[a, b]" w junk] by (simp add: numeral_2_eq_2)
  have at: "?buf ! length ?pre = (t @ 0 # junk) ! 0"
    unfolding buf by (simp only: nth_append_length_plus [of _ _ 0, simplified])
  show ?thesis
  proof (cases "t = []")
    case True
    then show ?thesis
      using at by (simp add: parse_first_line_def cp Let_def t_def [symmetric])
  next
    case False
    then have ne: "?buf ! length ?pre \<noteq> 0"
      using at nz(1) by (cases t) auto
    have word: "skip_word ?buf (length ?pre) = length (?pre @ name)"
      using skip_word_at [OF nz(1), of ?pre junk] unfolding buf name_def by simp
    have zero: "zero_blanks ?buf (length (?pre @ name)) =
        (?pre @ name @ replicate k 0 @ arg @ 0 # junk, length (?pre @ name @ replicate k 0))"
      using zero_blanks_at [of "?pre @ name" rest junk] w(2) unfolding buf k_def arg_def by simp
    have "k = 0 \<Longrightarrow> rest = []"
      unfolding k_def rest_def by (metis (full_types) hd_dropWhile length_0_conv takeWhile_eq_Nil_iff)
    then have tail: "\<exists>z. replicate k 0 @ arg @ 0 # junk = 0 # z"
      using w(3) by (cases k) (auto simp: arg_def)
    then have nm: "string_at (?pre @ name @ replicate k 0 @ arg @ 0 # junk) (length ?pre) = name"
      using string_at_text [OF nz(2), of ?pre] by auto
    have ar: "string_at (?pre @ name @ replicate k 0 @ arg @ 0 # junk) (length (?pre @ name @ replicate k 0)) = arg"
      using string_at_text [OF nz(4), of "?pre @ name @ replicate k 0" junk] by simp
    have "(?pre @ name @ replicate k 0 @ arg @ 0 # junk) ! length (?pre @ name @ replicate k 0) = (arg @ 0 # junk) ! 0"
      by (metis append.assoc nth_append_length_plus add.right_neutral)
    then have "(?pre @ name @ replicate k 0 @ arg @ 0 # junk) ! length (?pre @ name @ replicate k 0) \<noteq> 0 \<longleftrightarrow> arg \<noteq> []"
      using nz(4) by (cases arg) auto
    then show ?thesis
      using False ne unfolding parse_first_line_def cp Let_def word zero prod.case nm ar
      by (simp only: t_def [symmetric] name_def [symmetric] rest_def [symmetric] arg_def [symmetric] if_False) simp
  qed
qed

text \<open>
  C28: load_script reads the first line as documented.  For a buffer whose first line holds no NUL,
  the interpreter is the first word after the marker and everything after it, without the blanks
  around it, is one single argument; the new arguments are the interpreter, that argument, the name
  of the script, and the old arguments but the first.  No name, or more than the allowed nesting, is
  ENOEXEC.  A line that does not fit is cut at 127 bytes.
\<close>

theorem load_script_spec:
  assumes "length (sb_buf bprm) = BINPRM_BUF_SIZE" "take 2 (sb_buf bprm) = [0x23, 0x21]"
    "0 \<notin> set (first_line (sb_buf bprm))" "remove_zero env = Inr ()" "\<And>s. copy_string env s = Inr ()"
  shows "load_script env bprm =
    (if sb_recursion_depth bprm > BINPRM_MAX_RECURSION then Inl ENOEXEC
     else case script_words (drop 2 (first_line (sb_buf bprm))) of
       Inl e \<Rightarrow> Inl e
     | Inr (name, arg) \<Rightarrow>
         Inr (bprm\<lparr>sb_recursion_depth := sb_recursion_depth bprm + 1, sb_interp := name,
           sb_argv := name # (case arg of None \<Rightarrow> [] | Some a \<Rightarrow> [a]) @ sb_interp bprm # tl (sb_argv bprm)\<rparr>))"
proof -
  let ?buf = "sb_buf bprm" and ?l = "first_line (sb_buf bprm)"
  obtain r where buf: "?buf = 0x23 # 0x21 # r"
    using assms(2) by (metis append_Cons append_Nil append_take_drop_id)
  have l: "?l = 0x23 # 0x21 # drop 2 ?l"
    unfolding buf by (simp add: first_line_def BINPRM_BUF_SIZE_def)
  define w where "w = rtrim (drop 2 ?l)"
  have trim: "rtrim ?l = 0x23 # 0x21 # w"
    by (subst l) (simp add: rtrim_Cons blank_def w_def)
  obtain junk where e: "end_line ?buf = 0x23 # 0x21 # w @ 0 # junk"
    using end_line_shape [OF assms(1,3)] trim by auto
  have "set w \<subseteq> set ?l"
    using rtrim_prefix [of "drop 2 ?l"] set_drop_subset [of 2 ?l] unfolding w_def by (metis Un_upper1 order_trans set_append)
  then have nz: "0 \<notin> set w"
    using assms(3) by blast
  have parse: "parse_first_line (end_line ?buf) = script_words (drop 2 ?l)"
    unfolding e by (simp only: parse_first_line_words [OF nz]) (simp only: script_words_def w_def)
  have rm: "remove_arg_zero env (sb_argv bprm) = Inr (tl (sb_argv bprm))"
    by (simp add: remove_arg_zero_def assms(4))
  show ?thesis
    unfolding load_script_def parse rm
    by (auto simp: buf push_arg_def assms(5) Let_def split: sum.splits prod.splits option.splits)
qed

definition example_script :: "u8 list \<Rightarrow> script_bprm" where
  "example_script text =
     \<lparr>sb_buf = take 128 (text @ replicate 128 0), sb_recursion_depth = 0, sb_interp = [0x78], sb_argv = [[0x78], [0x79]]\<rparr>"

definition example_script_env :: script_env where
  "example_script_env = \<lparr>remove_zero = Inr (), copy_string = (\<lambda>_. Inr ())\<rparr>"

theorem load_script_spec_witness:
  "load_script example_script_env (example_script [0x23, 0x21, 0x20, 0x2F, 0x73, 0x09, 0x61, 0x20, 0x62, 0x20, 0x0A]) =
     Inr ((example_script [0x23, 0x21, 0x20, 0x2F, 0x73, 0x09, 0x61, 0x20, 0x62, 0x20, 0x0A])
       \<lparr>sb_recursion_depth := 1, sb_interp := [0x2F, 0x73],
        sb_argv := [[0x2F, 0x73], [0x61, 0x20, 0x62], [0x78], [0x79]]\<rparr>)"
proof -
  let ?b = "example_script [0x23, 0x21, 0x20, 0x2F, 0x73, 0x09, 0x61, 0x20, 0x62, 0x20, 0x0A]"
  have b: "length (sb_buf ?b) = BINPRM_BUF_SIZE" "take 2 (sb_buf ?b) = [0x23, 0x21]" "0 \<notin> set (first_line (sb_buf ?b))"
    "script_words (drop 2 (first_line (sb_buf ?b))) = Inr ([0x2F, 0x73], Some [0x61, 0x20, 0x62])"
    by code_simp+
  have "sb_recursion_depth ?b = 0" "sb_interp ?b = [0x78]" "sb_argv ?b = [[0x78], [0x79]]"
    by (simp_all add: example_script_def)
  then show ?thesis
    using load_script_spec [OF b(1-3), of example_script_env] b(4) by (simp add: example_script_env_def)
qed

text \<open>
  The name of an interpreter that does not fit is cut without an error: another program, whose name
  is a prefix, is run.
\<close>

theorem script_name_cut:
  "map_sum id sb_interp (load_script example_script_env (example_script ([0x23, 0x21] @ replicate 126 0x61))) =
     Inr (replicate 125 0x61)"
  by code_simp

end
