(* ===== verification/Crc32.thy ===== *)
theory Crc32
  imports Kernel_Prelude
begin

text \<open>
  The checksum of the boot loader, \<^verbatim>\<open>lib_generic/crc32.c\<close>: the table of the remainders of all
  bytes, as it stands in the source, and the loop over blocks of eight bytes and the rest.
\<close>

text \<open>\<^verbatim>\<open>make_crc_table\<close>, which computes the table when it is not compiled in.\<close>

definition crc_poly :: u32 where
  "crc_poly = foldl (\<lambda>poly p. poly OR push_bit (31 - p) 1) 0 [0, 1, 2, 4, 5, 7, 8, 10, 11, 12, 16, 22, 23, 26]"

definition crc_bit :: "u32 \<Rightarrow> u32" where
  "crc_bit c = (if c AND 1 \<noteq> 0 then crc_poly XOR drop_bit 1 c else drop_bit 1 c)"

definition crc_entry :: "u32 \<Rightarrow> u32" where
  "crc_entry c = (crc_bit ^^ 8) c"

definition make_crc_table :: "u32 list" where
  "make_crc_table = map (\<lambda>n. crc_entry (of_nat n)) [0..<256]"

definition crc_table :: "u32 list" where
  "crc_table =
   [0x00000000, 0x77073096, 0xEE0E612C, 0x990951BA, 0x076DC419, 0x706AF48F, 0xE963A535, 0x9E6495A3,
    0x0EDB8832, 0x79DCB8A4, 0xE0D5E91E, 0x97D2D988, 0x09B64C2B, 0x7EB17CBD, 0xE7B82D07, 0x90BF1D91,
    0x1DB71064, 0x6AB020F2, 0xF3B97148, 0x84BE41DE, 0x1ADAD47D, 0x6DDDE4EB, 0xF4D4B551, 0x83D385C7,
    0x136C9856, 0x646BA8C0, 0xFD62F97A, 0x8A65C9EC, 0x14015C4F, 0x63066CD9, 0xFA0F3D63, 0x8D080DF5,
    0x3B6E20C8, 0x4C69105E, 0xD56041E4, 0xA2677172, 0x3C03E4D1, 0x4B04D447, 0xD20D85FD, 0xA50AB56B,
    0x35B5A8FA, 0x42B2986C, 0xDBBBC9D6, 0xACBCF940, 0x32D86CE3, 0x45DF5C75, 0xDCD60DCF, 0xABD13D59,
    0x26D930AC, 0x51DE003A, 0xC8D75180, 0xBFD06116, 0x21B4F4B5, 0x56B3C423, 0xCFBA9599, 0xB8BDA50F,
    0x2802B89E, 0x5F058808, 0xC60CD9B2, 0xB10BE924, 0x2F6F7C87, 0x58684C11, 0xC1611DAB, 0xB6662D3D,
    0x76DC4190, 0x01DB7106, 0x98D220BC, 0xEFD5102A, 0x71B18589, 0x06B6B51F, 0x9FBFE4A5, 0xE8B8D433,
    0x7807C9A2, 0x0F00F934, 0x9609A88E, 0xE10E9818, 0x7F6A0DBB, 0x086D3D2D, 0x91646C97, 0xE6635C01,
    0x6B6B51F4, 0x1C6C6162, 0x856530D8, 0xF262004E, 0x6C0695ED, 0x1B01A57B, 0x8208F4C1, 0xF50FC457,
    0x65B0D9C6, 0x12B7E950, 0x8BBEB8EA, 0xFCB9887C, 0x62DD1DDF, 0x15DA2D49, 0x8CD37CF3, 0xFBD44C65,
    0x4DB26158, 0x3AB551CE, 0xA3BC0074, 0xD4BB30E2, 0x4ADFA541, 0x3DD895D7, 0xA4D1C46D, 0xD3D6F4FB,
    0x4369E96A, 0x346ED9FC, 0xAD678846, 0xDA60B8D0, 0x44042D73, 0x33031DE5, 0xAA0A4C5F, 0xDD0D7CC9,
    0x5005713C, 0x270241AA, 0xBE0B1010, 0xC90C2086, 0x5768B525, 0x206F85B3, 0xB966D409, 0xCE61E49F,
    0x5EDEF90E, 0x29D9C998, 0xB0D09822, 0xC7D7A8B4, 0x59B33D17, 0x2EB40D81, 0xB7BD5C3B, 0xC0BA6CAD,
    0xEDB88320, 0x9ABFB3B6, 0x03B6E20C, 0x74B1D29A, 0xEAD54739, 0x9DD277AF, 0x04DB2615, 0x73DC1683,
    0xE3630B12, 0x94643B84, 0x0D6D6A3E, 0x7A6A5AA8, 0xE40ECF0B, 0x9309FF9D, 0x0A00AE27, 0x7D079EB1,
    0xF00F9344, 0x8708A3D2, 0x1E01F268, 0x6906C2FE, 0xF762575D, 0x806567CB, 0x196C3671, 0x6E6B06E7,
    0xFED41B76, 0x89D32BE0, 0x10DA7A5A, 0x67DD4ACC, 0xF9B9DF6F, 0x8EBEEFF9, 0x17B7BE43, 0x60B08ED5,
    0xD6D6A3E8, 0xA1D1937E, 0x38D8C2C4, 0x4FDFF252, 0xD1BB67F1, 0xA6BC5767, 0x3FB506DD, 0x48B2364B,
    0xD80D2BDA, 0xAF0A1B4C, 0x36034AF6, 0x41047A60, 0xDF60EFC3, 0xA867DF55, 0x316E8EEF, 0x4669BE79,
    0xCB61B38C, 0xBC66831A, 0x256FD2A0, 0x5268E236, 0xCC0C7795, 0xBB0B4703, 0x220216B9, 0x5505262F,
    0xC5BA3BBE, 0xB2BD0B28, 0x2BB45A92, 0x5CB36A04, 0xC2D7FFA7, 0xB5D0CF31, 0x2CD99E8B, 0x5BDEAE1D,
    0x9B64C2B0, 0xEC63F226, 0x756AA39C, 0x026D930A, 0x9C0906A9, 0xEB0E363F, 0x72076785, 0x05005713,
    0x95BF4A82, 0xE2B87A14, 0x7BB12BAE, 0x0CB61B38, 0x92D28E9B, 0xE5D5BE0D, 0x7CDCEFB7, 0x0BDBDF21,
    0x86D3D2D4, 0xF1D4E242, 0x68DDB3F8, 0x1FDA836E, 0x81BE16CD, 0xF6B9265B, 0x6FB077E1, 0x18B74777,
    0x88085AE6, 0xFF0F6A70, 0x66063BCA, 0x11010B5C, 0x8F659EFF, 0xF862AE69, 0x616BFFD3, 0x166CCF45,
    0xA00AE278, 0xD70DD2EE, 0x4E048354, 0x3903B3C2, 0xA7672661, 0xD06016F7, 0x4969474D, 0x3E6E77DB,
    0xAED16A4A, 0xD9D65ADC, 0x40DF0B66, 0x37D83BF0, 0xA9BCAE53, 0xDEBB9EC5, 0x47B2CF7F, 0x30B5FFE9,
    0xBDBDF21C, 0xCABAC28A, 0x53B39330, 0x24B4A3A6, 0xBAD03605, 0xCDD70693, 0x54DE5729, 0x23D967BF,
    0xB3667A2E, 0xC4614AB8, 0x5D681B02, 0x2A6F2B94, 0xB40BBE37, 0xC30C8EA1, 0x5A05DF1B, 0x2D02EF8D]"

definition DO1 :: "u32 \<Rightarrow> u8 \<Rightarrow> u32" where
  "DO1 crc b = (crc_table ! unat ((crc XOR ucast b) AND 0xFF)) XOR drop_bit 8 crc"

definition DO2 :: "u32 \<Rightarrow> u8 \<Rightarrow> u8 \<Rightarrow> u32" where
  "DO2 crc a b = DO1 (DO1 crc a) b"

definition DO4 :: "u32 \<Rightarrow> u8 \<Rightarrow> u8 \<Rightarrow> u8 \<Rightarrow> u8 \<Rightarrow> u32" where
  "DO4 crc a b c d = DO2 (DO2 crc a b) c d"

definition DO8 :: "u32 \<Rightarrow> u8 \<Rightarrow> u8 \<Rightarrow> u8 \<Rightarrow> u8 \<Rightarrow> u8 \<Rightarrow> u8 \<Rightarrow> u8 \<Rightarrow> u8 \<Rightarrow> u32" where
  "DO8 crc a b c d e f g h = DO4 (DO4 crc a b c d) e f g h"

fun crc_rest :: "u32 \<Rightarrow> u8 list \<Rightarrow> u32" where
  "crc_rest crc [] = crc"
| "crc_rest crc (b # buf) = crc_rest (DO1 crc b) buf"

fun crc_loop :: "u32 \<Rightarrow> u8 list \<Rightarrow> u32" where
  "crc_loop crc (a # b # c # d # e # f # g # h # buf) = crc_loop (DO8 crc a b c d e f g h) buf"
| "crc_loop crc buf = crc_rest crc buf"

text \<open>The buffer holds as many bytes as the length says.\<close>

definition crc32_no_comp :: "u32 \<Rightarrow> u8 list \<Rightarrow> u32" where
  "crc32_no_comp crc buf = crc_loop crc buf"

definition crc32 :: "u32 \<Rightarrow> u8 list \<Rightarrow> u32" where
  "crc32 crc buf = crc_loop (crc XOR 0xFFFFFFFF) buf XOR 0xFFFFFFFF"

section \<open>The shift register\<close>

lemma crc_poly_value: "crc_poly = 0xEDB88320"
  by (simp add: crc_poly_def)

lemma crc_bit_odd: "crc_bit c = (if bit c 0 then crc_poly XOR drop_bit 1 c else drop_bit 1 c)"
  by (simp add: crc_bit_def and_one_eq mod_2_eq_odd bit_0)

text \<open>It is linear over XOR, and for a value whose low bits are clear it only shifts.\<close>

lemma crc_bit_xor: "crc_bit (x XOR y) = crc_bit x XOR crc_bit y"
  by (rule bit_eqI) (auto simp: crc_bit_odd bit_simps)

lemma crc_bits_xor: "(crc_bit ^^ n) (x XOR y) = (crc_bit ^^ n) x XOR (crc_bit ^^ n) y"
  by (induction n) (simp_all add: crc_bit_xor)

lemma crc_bits_shift: "(\<And>i. i < n \<Longrightarrow> \<not> bit x i) \<Longrightarrow> (crc_bit ^^ n) x = drop_bit n x"
proof (induction n)
  case (Suc n)
  have "(crc_bit ^^ n) x = drop_bit n x"
    using Suc by simp
  moreover have "\<not> bit (drop_bit n x) 0"
    using Suc.prems [of n] by (simp only: bit_drop_bit_eq) simp
  ultimately show ?case
    by (simp add: crc_bit_odd [of "drop_bit n x"])
qed simp

lemma xor_left_cancel: "x XOR y = x XOR (z :: u32) \<Longrightarrow> y = z"
  by (metis xor.assoc xor.left_neutral xor_self_eq)

lemma xor_right_cancel: "y XOR x = z XOR (x :: u32) \<Longrightarrow> y = z"
  by (metis xor.commute xor_left_cancel)

lemma crc_bit_inj: "inj crc_bit"
proof (rule injI)
  fix c d assume eq: "crc_bit c = crc_bit d"
  have top: "bit (crc_bit x) 31 = bit x 0" for x
    using bit_imp_le_length [of x 32] by (auto simp: crc_bit_odd crc_poly_value bit_simps)
  have low: "bit c 0 = bit d 0"
    using top eq by metis
  then have "drop_bit 1 c = drop_bit 1 d"
    using eq xor_left_cancel by (auto simp: crc_bit_odd split: if_splits)
  then have "bit c (Suc i) = bit d (Suc i)" for i
    by (metis bit_drop_bit_eq comp_apply plus_1_eq_Suc)
  with low show "c = d"
    by (intro bit_eqI) (metis not0_implies_Suc)
qed

lemma crc_bits_inj: "inj (crc_bit ^^ n)"
  by (rule inj_fn [OF crc_bit_inj])

section \<open>The table\<close>

definition remainders :: "nat \<Rightarrow> u32 list" where
  "remainders k = map (\<lambda>n. crc_entry (of_nat n)) [0..<2 ^ k]"

lemma remainders_Suc:
  assumes "k < 32"
  shows "remainders (Suc k) = remainders k @ map (\<lambda>e. crc_entry (2 ^ k) XOR e) (remainders k)"
proof -
  have "(of_nat (2 ^ k + n) :: u32) = 2 ^ k XOR of_nat n" if "n < 2 ^ k" for n
  proof -
    have "take_bit k (of_nat n :: u32) = of_nat n"
      using that by (metis of_nat_take_bit take_bit_nat_eq_self)
    then have "\<not> bit (of_nat n :: u32) i" if "k \<le> i" for i
      using that by (metis bit_take_bit_iff not_le)
    then have "(2 ^ k :: u32) AND of_nat n = 0"
      by (intro bit_eqI) (auto simp: bit_and_iff bit_power_two)
    then show ?thesis
      by (simp add: disjunctive_xor_eq_or disjunctive_add_eq_or)
  qed
  then have "crc_entry (of_nat (2 ^ k + n)) = crc_entry (2 ^ k) XOR crc_entry (of_nat n)" if "n < 2 ^ k" for n
    unfolding crc_entry_def using that crc_bits_xor by metis
  moreover have "[0..<2 ^ Suc k] = [0..<2 ^ k] @ map (\<lambda>n. 2 ^ k + n) [0..<2 ^ k]"
    using map_add_upt [of "2 ^ k" "2 ^ k"] upt_add_eq_append [of 0 "2 ^ k" "2 ^ k"] by (simp add: add.commute mult_2)
  ultimately show ?thesis
    by (simp add: remainders_def)
qed

text \<open>The remainders of the powers of two are successive states of the register.\<close>

lemma crc_power_step:
  assumes "Suc k < 32"
  shows "crc_entry (2 ^ k) = crc_bit (crc_entry (2 ^ Suc k))"
proof -
  have "crc_bit (2 ^ Suc k) = 2 ^ k"
    using assms by (intro bit_eqI) (auto simp: crc_bit_odd bit_simps)
  then show ?thesis
    unfolding crc_entry_def by (metis funpow_swap1)
qed

lemma crc_states:
  "crc_bit 0xEDB88320 = 0x76DC4190"
  "crc_bit 0x76DC4190 = 0x3B6E20C8"
  "crc_bit 0x3B6E20C8 = 0x1DB71064"
  "crc_bit 0x1DB71064 = 0x0EDB8832"
  "crc_bit 0x0EDB8832 = 0x076DC419"
  "crc_bit 0x076DC419 = 0xEE0E612C"
  "crc_bit 0xEE0E612C = 0x77073096"
  by (simp_all add: crc_bit_def crc_poly_value)

lemma crc_powers:
  "crc_entry (2 ^ 0) = 0x77073096"
  "crc_entry (2 ^ 1) = 0xEE0E612C"
  "crc_entry (2 ^ 2) = 0x076DC419"
  "crc_entry (2 ^ 3) = 0x0EDB8832"
  "crc_entry (2 ^ 4) = 0x1DB71064"
  "crc_entry (2 ^ 5) = 0x3B6E20C8"
  "crc_entry (2 ^ 6) = 0x76DC4190"
  "crc_entry (2 ^ 7) = 0xEDB88320"
proof -
  have "(crc_bit ^^ 7) (2 ^ 7) = drop_bit 7 (2 ^ 7)"
    by (rule crc_bits_shift) (metis bit_power_two less_irrefl)
  moreover have "drop_bit 7 (2 ^ 7) = (1 :: u32)" "crc_bit 1 = 0xEDB88320"
    by (simp_all add: crc_bit_def crc_poly_value)
  moreover have eight: "8 = Suc 7"
    by simp
  moreover have "crc_entry x = crc_bit ((crc_bit ^^ 7) x)" for x
    unfolding crc_entry_def eight funpow.simps(2) comp_apply ..
  ultimately show 7: "crc_entry (2 ^ 7) = 0xEDB88320"
    by (simp only:)
  have step: "crc_entry (2 ^ k) = w" if "k' = Suc k" "crc_entry (2 ^ k') = v" "crc_bit v = w" "k < 31" for k k' v w
    using crc_power_step [of k] that by simp
  show 6: "crc_entry (2 ^ 6) = 0x76DC4190"
    by (rule step [OF _ 7 crc_states(1)]) simp_all
  show 5: "crc_entry (2 ^ 5) = 0x3B6E20C8"
    by (rule step [OF _ 6 crc_states(2)]) simp_all
  show 4: "crc_entry (2 ^ 4) = 0x1DB71064"
    by (rule step [OF _ 5 crc_states(3)]) simp_all
  show 3: "crc_entry (2 ^ 3) = 0x0EDB8832"
    by (rule step [OF _ 4 crc_states(4)]) simp_all
  show 2: "crc_entry (2 ^ 2) = 0x076DC419"
    by (rule step [OF _ 3 crc_states(5)]) simp_all
  show 1: "crc_entry (2 ^ 1) = 0xEE0E612C"
    by (rule step [OF _ 2 crc_states(6)]) simp_all
  show 0: "crc_entry (2 ^ 0) = 0x77073096"
    by (rule step [OF _ 1 crc_states(7)]) simp_all
qed

text \<open>Each half of the table of the source is the half before it, shifted by one remainder.\<close>

lemma crc_table_halves:
  "take 2 crc_table = take 1 crc_table @ map (\<lambda>e. 0x77073096 XOR e) (take 1 crc_table)"
  "take 4 crc_table = take 2 crc_table @ map (\<lambda>e. 0xEE0E612C XOR e) (take 2 crc_table)"
  "take 8 crc_table = take 4 crc_table @ map (\<lambda>e. 0x076DC419 XOR e) (take 4 crc_table)"
  "take 16 crc_table = take 8 crc_table @ map (\<lambda>e. 0x0EDB8832 XOR e) (take 8 crc_table)"
  "take 32 crc_table = take 16 crc_table @ map (\<lambda>e. 0x1DB71064 XOR e) (take 16 crc_table)"
  "take 64 crc_table = take 32 crc_table @ map (\<lambda>e. 0x3B6E20C8 XOR e) (take 32 crc_table)"
  "take 128 crc_table = take 64 crc_table @ map (\<lambda>e. 0x76DC4190 XOR e) (take 64 crc_table)"
  "take 256 crc_table = take 128 crc_table @ map (\<lambda>e. 0xEDB88320 XOR e) (take 128 crc_table)"
  by (simp_all add: crc_table_def)

lemma crc_table_made: "crc_table = make_crc_table"
proof -
  have step: "remainders k' = T @ map (\<lambda>e. p XOR e) T"
    if "k' = Suc k" "k < 32" "remainders k = T" "crc_entry (2 ^ k) = p" for k k' T p
    using remainders_Suc [OF that(2)] that(1,3,4) by simp
  have r0: "remainders 0 = take 1 crc_table"
    using crc_bits_shift [of 8 0] by (simp add: remainders_def crc_entry_def crc_table_def)
  have r1: "remainders 1 = take 2 crc_table"
    unfolding crc_table_halves(1) by (rule step [OF _ _ r0 crc_powers(1)]) simp_all
  have r2: "remainders 2 = take 4 crc_table"
    unfolding crc_table_halves(2) by (rule step [OF _ _ r1 crc_powers(2)]) simp_all
  have r3: "remainders 3 = take 8 crc_table"
    unfolding crc_table_halves(3) by (rule step [OF _ _ r2 crc_powers(3)]) simp_all
  have r4: "remainders 4 = take 16 crc_table"
    unfolding crc_table_halves(4) by (rule step [OF _ _ r3 crc_powers(4)]) simp_all
  have r5: "remainders 5 = take 32 crc_table"
    unfolding crc_table_halves(5) by (rule step [OF _ _ r4 crc_powers(5)]) simp_all
  have r6: "remainders 6 = take 64 crc_table"
    unfolding crc_table_halves(6) by (rule step [OF _ _ r5 crc_powers(6)]) simp_all
  have r7: "remainders 7 = take 128 crc_table"
    unfolding crc_table_halves(7) by (rule step [OF _ _ r6 crc_powers(7)]) simp_all
  have r8: "remainders 8 = take 256 crc_table"
    unfolding crc_table_halves(8) by (rule step [OF _ _ r7 crc_powers(8)]) simp_all
  have all: "take 256 crc_table = crc_table" "(2 :: nat) ^ 8 = 256"
    by (simp_all add: crc_table_def)
  show ?thesis
    using r8 unfolding all make_crc_table_def remainders_def by (rule sym)
qed

section \<open>Correctness\<close>

text \<open>The reference: the register shifted once for each bit of the message, byte by byte.\<close>

definition crc_byte :: "u32 \<Rightarrow> u8 \<Rightarrow> u32" where
  "crc_byte c b = crc_entry (c XOR ucast b)"

definition crc_reference :: "u8 list \<Rightarrow> u32" where
  "crc_reference buf = NOT (foldl crc_byte (NOT 0) buf)"

lemma bit_0xFF: "bit (0xFF :: u32) n \<longleftrightarrow> n < 8"
proof -
  have "(0xFF :: u32) = mask 8"
    by (simp add: mask_eq_exp_minus_1)
  then show ?thesis
    by (auto simp only: bit_mask_iff possible_bit_word) simp
qed

lemma crc_table_nth: "n < 256 \<Longrightarrow> crc_table ! n = crc_entry (of_nat n)"
  by (simp add: crc_table_made make_crc_table_def)

lemma DO1_crc_byte: "DO1 c b = crc_byte c b"
proof -
  let ?x = "c XOR ucast b"
  have low: "unat (?x AND 0xFF) < 256"
    using unat_and_mask [of 8 ?x] by simp
  have "?x = (?x AND 0xFF) XOR (?x AND NOT 0xFF)"
    by (rule bit_eqI) (auto simp: bit_simps)
  then have "crc_entry ?x = crc_entry (?x AND 0xFF) XOR crc_entry (?x AND NOT 0xFF)"
    unfolding crc_entry_def by (metis crc_bits_xor)
  also have "crc_entry (?x AND NOT 0xFF) = drop_bit 8 (?x AND NOT 0xFF)"
    unfolding crc_entry_def by (rule crc_bits_shift) (simp only: bit_and_iff bit_not_iff bit_0xFF, simp)
  also have "\<dots> = drop_bit 8 c"
  proof (rule bit_eqI)
    fix n assume "possible_bit TYPE(32 word) n"
    have low: "\<not> bit (ucast b :: u32) (8 + n)"
      using bit_imp_le_length [of b "8 + n"] by (auto simp: bit_ucast_iff)
    have "bit (?x AND NOT 0xFF) (8 + n) \<longleftrightarrow> bit c (8 + n)"
      using bit_imp_le_length [of c "8 + n"] low by (auto simp only: bit_and_iff bit_not_iff bit_xor_iff bit_0xFF possible_bit_word)
    then show "bit (drop_bit 8 (?x AND NOT 0xFF)) n = bit (drop_bit 8 c) n"
      by (simp only: bit_drop_bit_eq comp_apply)
  qed
  finally show ?thesis
    using crc_table_nth [OF low] by (simp add: DO1_def crc_byte_def)
qed

lemma crc_rest_foldl: "crc_rest c buf = foldl crc_byte c buf"
  by (induction buf arbitrary: c) (simp_all add: DO1_crc_byte)

lemma crc_loop_foldl: "crc_loop c buf = foldl crc_byte c buf"
  by (induction c buf rule: crc_loop.induct) (simp_all add: DO8_def DO4_def DO2_def DO1_crc_byte crc_rest_foldl)

lemma crc_byte_inj: "inj (\<lambda>c. crc_byte c b)" "inj (crc_byte c)"
proof -
  have inj: "crc_entry x = crc_entry y \<Longrightarrow> x = y" for x y
    unfolding crc_entry_def by (rule injD [OF crc_bits_inj])
  show "inj (\<lambda>c. crc_byte c b)"
    unfolding crc_byte_def by (intro injI) (metis inj xor_right_cancel)
  show "inj (crc_byte c)"
  proof (rule injI)
    fix x y assume "crc_byte c x = crc_byte c y"
    then have "(ucast x :: u32) = ucast y"
      unfolding crc_byte_def by (metis inj xor_left_cancel)
    then have "bit (ucast x :: u32) n = bit (ucast y :: u32) n" for n
      by (simp only:)
    note bits = this [unfolded bit_ucast_iff]
    have "bit x n = bit y n" if "n < 8" for n
      using bits [of n] that by simp
    then show "x = y"
      by (intro bit_eqI) (simp only: possible_bit_word, simp)
  qed
qed

lemma crc_bytes_inj: "foldl crc_byte c buf = foldl crc_byte d buf \<Longrightarrow> c = d"
  by (induction buf arbitrary: c d) (auto dest: injD [OF crc_byte_inj(1)])

text \<open>
  C36: the checksum routine, with its table of 256 constants and its loop unrolled eight times, is the
  CRC-32 of the polynomial in the comment: the bit-by-bit shift register over the message.
\<close>

theorem crc32_reference: "crc32 0 buf = crc_reference buf"
proof -
  have "(0 :: u32) XOR 0xFFFFFFFF = NOT 0"
    by simp
  moreover have "(0xFFFFFFFF :: u32) = - 1"
    by simp
  then have "x XOR (0xFFFFFFFF :: u32) = NOT x" for x
    by (simp only: bit.xor_one_right)
  ultimately show ?thesis
    by (simp only: crc32_def crc_reference_def crc_loop_foldl)
qed

text \<open>
  The checksum detects every error within a single byte, wherever it is and however long the
  message: two messages that differ in exactly one byte have different checksums.
\<close>

lemma crc32_detects_byte_error:
  assumes "b \<noteq> b'"
  shows "crc32 crc (xs @ b # ys) \<noteq> crc32 crc (xs @ b' # ys)"
proof
  let ?c = "foldl crc_byte (crc XOR 0xFFFFFFFF) xs"
  assume "crc32 crc (xs @ b # ys) = crc32 crc (xs @ b' # ys)"
  then have "foldl crc_byte (crc_byte ?c b) ys = foldl crc_byte (crc_byte ?c b') ys"
    unfolding crc32_def crc_loop_foldl foldl_append foldl.simps by (rule xor_right_cancel)
  then have "crc_byte ?c b = crc_byte ?c b'"
    by (rule crc_bytes_inj)
  then show False
    using injD [OF crc_byte_inj(2)] assms by blast
qed

end
