(* ===== verification/Uboot_Env.thy ===== *)
theory Uboot_Env
  imports Crc32
begin

text \<open>
  The environment of the boot loader: the variables of \<^verbatim>\<open>u-boot-1.1.6\<close>, kept as one block of
  NUL-terminated \<^verbatim>\<open>name=value\<close> strings with a checksum in front.  The theory holds the commands on the
  copy in RAM (\<^verbatim>\<open>common/cmd_nvedit.c\<close>), the console assignment they trigger
  (\<^verbatim>\<open>common/console.c\<close>), the number parser (\<^verbatim>\<open>lib_generic/vsprintf.c\<close>), and the way the block
  is stored in and loaded from NAND flash (\<^verbatim>\<open>common/env_common.c\<close>, \<^verbatim>\<open>common/env_nand.c\<close>).  The
  configuration is that of the board, \<^verbatim>\<open>include/configs/EmbedSky.h\<close>: the environment is in NAND, not
  embedded and not redundant, and \<^verbatim>\<open>CONFIG_ENV_OVERWRITE\<close> is set.

  A C string is the list of its bytes before the NUL.  The size of the block, \<^verbatim>\<open>ENV_SIZE\<close>, is the
  length of the list of data bytes.  A function that reads or writes outside the block, or through a null
  pointer, returns \<^term>\<open>None\<close>.
\<close>

section \<open>Numbers and file names\<close>

definition ascii :: "string \<Rightarrow> u8 list" where
  "ascii s = map (\<lambda>c. word_of_nat (of_char c)) s"

definition isdigit :: "u8 \<Rightarrow> bool" where
  "isdigit c \<longleftrightarrow> 0x30 \<le> c \<and> c \<le> 0x39"

definition isxdigit :: "u8 \<Rightarrow> bool" where
  "isxdigit c \<longleftrightarrow> isdigit c \<or> 0x41 \<le> c \<and> c \<le> 0x46 \<or> 0x61 \<le> c \<and> c \<le> 0x66"

text \<open>The digit read by the loop of \<^verbatim>\<open>simple_strtoul\<close>; it is used on hexadecimal digits only.\<close>

definition digit_value :: "u8 \<Rightarrow> u32" where
  "digit_value c =
    (if isdigit c then ucast c - 0x30
     else (if 0x61 \<le> c \<and> c \<le> 0x7A then ucast (c - 0x20) else ucast c) - 0x41 + 10)"

fun strtoul_loop :: "u32 \<Rightarrow> u32 \<Rightarrow> u8 list \<Rightarrow> u32 \<times> u8 list" where
  "strtoul_loop base r [] = (r, [])"
| "strtoul_loop base r (c # cp) =
    (if isxdigit c \<and> digit_value c < base then strtoul_loop base (r * base + digit_value c) cp
     else (r, c # cp))"

fun strtoul_prefix :: "u8 list \<Rightarrow> u32 \<Rightarrow> u8 list \<times> u32" where
  "strtoul_prefix (z # cp) base =
    (if z = 0x30
     then (case cp of
             x # d # _ \<Rightarrow> if x = 0x78 \<and> isxdigit d then (tl cp, 16)
                          else (cp, if base = 0 then 8 else base)
           | _ \<Rightarrow> (cp, if base = 0 then 8 else base))
     else (z # cp, base))"
| "strtoul_prefix [] base = ([], base)"

definition simple_strtoul :: "u8 list \<Rightarrow> u32 \<Rightarrow> u32 \<times> u8 list" where
  "simple_strtoul cp base =
    (let (cp, base) = strtoul_prefix cp base in
     strtoul_loop (if base = 0 then 10 else base) 0 cp)"

text \<open>\<^verbatim>\<open>copy_filename\<close>: the string stored at \<^verbatim>\<open>dst\<close>, cut at a quote or at \<^verbatim>\<open>size - 1\<close> bytes.\<close>

definition copy_filename :: "u8 list \<Rightarrow> nat \<Rightarrow> u8 list" where
  "copy_filename src sz =
    (let (src, sz) = (if src \<noteq> [] \<and> hd src = 0x22 then (tl src, sz - 1) else (src, sz)) in
     take (sz - 1) (takeWhile (\<lambda>c. c \<noteq> 0x22) src))"

section \<open>State\<close>

record env_t =
  env_crc :: u32
  env_data :: "u8 list"

text \<open>A console device; \<^term>\<open>dev_start\<close> is what its \<^verbatim>\<open>start\<close> function returns, when it has one.\<close>

record device =
  dev_flags :: u32
  dev_name :: "u8 list"
  dev_start :: "int option"

datatype env_place = At_default | At_ptr

text \<open>
  The globals the code works on: \<^verbatim>\<open>gd->env_valid\<close> and \<^verbatim>\<open>gd->env_addr\<close>, the array
  \<^verbatim>\<open>default_environment\<close>, the block at \<^verbatim>\<open>env_ptr\<close>, the board data, the baud rate, the load address
  and the boot file name, and the console: the registered devices, the three files, and the devices behind the
  input and output entries of the jump table.
\<close>

record uboot =
  env_valid :: nat
  env_addr :: env_place
  default_environment :: "u8 list"
  env_ptr :: env_t
  bi_enetaddr :: "u8 list"
  bi_ip_addr :: u32
  gd_baudrate :: u32
  load_addr :: u32
  BootFile :: "u8 list"
  devlist :: "device list"
  stdio_devices :: "device option list"
  jt_input :: "device option"
  jt_output :: "device option"

abbreviation ENV_SIZE :: "uboot \<Rightarrow> nat" where
  "ENV_SIZE g \<equiv> length (env_data (env_ptr g))"

text \<open>The bytes that \<^verbatim>\<open>env_get_char\<close> and \<^verbatim>\<open>env_get_addr\<close> give access to.\<close>

definition env_get_addr :: "uboot \<Rightarrow> u8 list" where
  "env_get_addr g =
    (if env_valid g \<noteq> 0 then (case env_addr g of At_default \<Rightarrow> default_environment g | At_ptr \<Rightarrow> env_data (env_ptr g))
     else default_environment g)"

definition env_put :: "u8 list \<Rightarrow> uboot \<Rightarrow> uboot" where
  "env_put bs g =
    (if env_valid g \<noteq> 0 \<and> env_addr g = At_ptr then g\<lparr>env_ptr := (env_ptr g)\<lparr>env_data := bs\<rparr>\<rparr>
     else g\<lparr>default_environment := bs\<rparr>)"

definition env_crc_update :: "uboot \<Rightarrow> uboot" where
  "env_crc_update g = g\<lparr>env_ptr := (env_ptr g)\<lparr>env_crc := crc32 0 (env_data (env_ptr g))\<rparr>\<rparr>"

section \<open>Searching the block\<close>

text \<open>
  \<^verbatim>\<open>envmatch\<close>: the index of the value when the entry at \<^verbatim>\<open>i2\<close> has the name \<^verbatim>\<open>s1\<close>.  At the end of the
  name the byte compared is its NUL; an entry byte 0 there makes the loop run on past the end of the name.
\<close>

datatype env_match = Value nat | No_match | Overrun

fun envmatch :: "u8 list \<Rightarrow> u8 list \<Rightarrow> nat \<Rightarrow> env_match" where
  "envmatch bs s1 i2 =
    (if length bs \<le> i2 then Overrun
     else case s1 of
       [] \<Rightarrow> if bs ! i2 = 0 then Overrun else if bs ! i2 = 0x3D then Value (Suc i2) else No_match
     | c # s \<Rightarrow>
         if c = bs ! i2 then (if c = 0x3D then Value (Suc i2) else envmatch bs s (Suc i2)) else No_match)"

declare envmatch.simps [simp del]

text \<open>The inner loop of every search: the index of the NUL that ends the entry at \<^verbatim>\<open>nxt\<close>.\<close>

function entry_end :: "u8 list \<Rightarrow> nat \<Rightarrow> nat" where
  "entry_end bs nxt = (if nxt < length bs \<and> bs ! nxt \<noteq> 0 then entry_end bs (Suc nxt) else nxt)"
  by pat_completeness auto
termination by (relation "measure (\<lambda>(bs, nxt). length bs - nxt)") auto

declare entry_end.simps [simp del]

lemma entry_end_le: "i \<le> entry_end bs i"
  by (induction bs i rule: entry_end.induct) (subst entry_end.simps, auto)

text \<open>
  The search of \<^verbatim>\<open>getenv\<close>, which \<^verbatim>\<open>getenv_r\<close>, \<^verbatim>\<open>do_printenv\<close> and \<^verbatim>\<open>_do_setenv\<close> repeat: the start and the
  end of the entry with the name, and the index of its value.
\<close>

datatype env_search = Entry nat nat nat | Not_found | Astray

function env_find :: "u8 list \<Rightarrow> u8 list \<Rightarrow> nat \<Rightarrow> env_search" where
  "env_find bs name i =
    (if length bs \<le> i then Astray
     else if bs ! i = 0 then Not_found
     else let nxt = entry_end bs i in
       if length bs \<le> nxt then Astray
       else case envmatch bs name i of
         Value v \<Rightarrow> Entry i nxt v
       | Overrun \<Rightarrow> Astray
       | No_match \<Rightarrow> env_find bs name (Suc nxt))"
  by pat_completeness auto
termination
  by (relation "measure (\<lambda>(bs, name, i). length bs - i)")
    (use entry_end_le in \<open>auto intro!: diff_less_mono2 simp: less_Suc_eq_le\<close>)

declare env_find.simps [simp del]

definition getenv :: "uboot \<Rightarrow> u8 list \<Rightarrow> u8 list option option" where
  "getenv g name =
    (case env_find (env_get_addr g) name 0 of
       Entry i nxt val \<Rightarrow> Some (Some (takeWhile (\<lambda>c. c \<noteq> 0) (drop val (env_get_addr g))))
     | Not_found \<Rightarrow> Some None
     | Astray \<Rightarrow> None)"

text \<open>
  The copy of \<^verbatim>\<open>getenv_r\<close>.  \<^verbatim>\<open>mem\<close> is the memory from \<^verbatim>\<open>buf\<close> on, the buffer of \<^verbatim>\<open>len\<close> bytes and
  what follows it; \<^verbatim>\<open>p\<close> is how far \<^verbatim>\<open>buf\<close> has moved.  The comparison counts \<^verbatim>\<open>n\<close> even when it fails.
\<close>

function getenv_copy :: "u8 list \<Rightarrow> nat \<Rightarrow> u8 list \<Rightarrow> nat \<Rightarrow> nat \<Rightarrow> nat \<Rightarrow> nat \<times> nat \<times> u8 list" where
  "getenv_copy bs len mem p n val =
    (if n < len
     then (if bs ! val \<noteq> 0 then getenv_copy bs len (mem[p := bs ! val]) (Suc p) (Suc n) (Suc val)
           else (Suc n, Suc p, mem[p := bs ! val]))
     else (Suc n, p, mem))"
  by pat_completeness auto
termination by (relation "measure (\<lambda>(bs, len, mem, p, n, val). len - n)") auto

declare getenv_copy.simps [simp del]

definition getenv_r :: "uboot \<Rightarrow> u8 list \<Rightarrow> u8 list \<Rightarrow> nat \<Rightarrow> (int \<times> u8 list) option" where
  "getenv_r g name mem len =
    (case env_find (env_get_addr g) name 0 of
       Entry i nxt val \<Rightarrow>
         (let (n, p, mem) = getenv_copy (env_get_addr g) len mem 0 0 val in
          Some (int n, if len = n then mem[p := 0] else mem))
     | Not_found \<Rightarrow> Some (-1, mem)
     | Astray \<Rightarrow> None)"

section \<open>Printing\<close>

text \<open>What \<^verbatim>\<open>do_printenv\<close> writes to the console, one item for each line.\<close>

datatype env_line = Line "u8 list" | Size nat nat | Not_defined "u8 list" | Abort

text \<open>
  \<^verbatim>\<open>printenv\<close> without arguments.  \<^verbatim>\<open>ctrlc\<close> tells whether Ctrl-C is seen after the given number of lines.
\<close>

function printenv_all :: "(nat \<Rightarrow> bool) \<Rightarrow> nat \<Rightarrow> u8 list \<Rightarrow> nat \<Rightarrow> nat \<Rightarrow> (int \<times> env_line list) option" where
  "printenv_all ctrlc sz bs i k =
    (if length bs \<le> i then None
     else if bs ! i = 0 then Some (0, [Size i sz])
     else let nxt = entry_end bs i; line = Line (take (nxt - i) (drop i bs)) in
       if length bs \<le> nxt then None
       else if ctrlc k then Some (1, [line, Abort])
       else map_option (\<lambda>(r, out). (r, line # out)) (printenv_all ctrlc sz bs (Suc nxt) (Suc k)))"
  by pat_completeness auto
termination
  by (relation "measure (\<lambda>(ctrlc, sz, bs, i, k). length bs - i)")
    (use entry_end_le in \<open>auto intro!: diff_less_mono2 simp: less_Suc_eq_le\<close>)

declare printenv_all.simps [simp del]

fun printenv_names :: "u8 list \<Rightarrow> u8 list list \<Rightarrow> (int \<times> env_line list) option" where
  "printenv_names bs [] = Some (0, [])"
| "printenv_names bs (name # names) =
    (case env_find bs name 0 of
       Entry i nxt k \<Rightarrow>
         map_option (\<lambda>(r, out). (r, Line (name @ 0x3D # take (nxt - k) (drop k bs)) # out))
           (printenv_names bs names)
     | Not_found \<Rightarrow> map_option (\<lambda>(r, out). (r + 1, Not_defined name # out)) (printenv_names bs names)
     | Astray \<Rightarrow> None)"

definition do_printenv :: "(nat \<Rightarrow> bool) \<Rightarrow> u8 list list \<Rightarrow> uboot \<Rightarrow> (int \<times> env_line list) option" where
  "do_printenv ctrlc names g =
    (if names = [] then printenv_all ctrlc (ENV_SIZE g) (env_get_addr g) 0 0
     else printenv_names (env_get_addr g) names)"

section \<open>Console assignment\<close>

text \<open>The files are 0 for \<^verbatim>\<open>stdin\<close>, 1 for \<^verbatim>\<open>stdout\<close> and 2 for \<^verbatim>\<open>stderr\<close>.\<close>

definition console_setfile :: "nat \<Rightarrow> device \<Rightarrow> uboot \<Rightarrow> int \<times> uboot" where
  "console_setfile file dev g =
    (if file \<le> 2
     then (let error = (case dev_start dev of None \<Rightarrow> 0 | Some e \<Rightarrow> e) in
           if error < 0 then (error, g)
           else (error, g\<lparr>stdio_devices := (stdio_devices g)[file := Some dev],
                          jt_input := (if file = 0 then Some dev else jt_input g),
                          jt_output := (if file = 1 then Some dev else jt_output g)\<rparr>))
     else (-1, g))"

definition console_assign :: "nat \<Rightarrow> u8 list \<Rightarrow> uboot \<Rightarrow> int \<times> uboot" where
  "console_assign file devname g =
    (if file \<le> 2
     then (case find (\<lambda>dev. dev_name dev = devname) (devlist g) of
             None \<Rightarrow> (-1, g)
           | Some dev \<Rightarrow>
               if dev_flags dev AND (if file = 0 then 1 else 2) \<noteq> 0 then console_setfile file dev g
               else (-1, g))
     else (-1, g))"

section \<open>Setting a variable\<close>

definition console_file :: "u8 list \<Rightarrow> nat option" where
  "console_file name =
    (if name = ascii ''stdin'' then Some 0
     else if name = ascii ''stdout'' then Some 1
     else if name = ascii ''stderr'' then Some 2
     else None)"

text \<open>
  The checks made before a variable that exists is replaced or deleted.  \<^verbatim>\<open>vals\<close> are the arguments
  \<^verbatim>\<open>argv[2]\<close> and on, up to the null pointer that ends \<^verbatim>\<open>argv\<close>; the result tells whether to go on.
\<close>

definition setenv_console :: "nat \<Rightarrow> u8 list \<Rightarrow> u8 list list \<Rightarrow> uboot \<Rightarrow> (bool \<times> uboot) option" where
  "setenv_console argc name vals g =
    (case console_file name of
       None \<Rightarrow> Some (True, g)
     | Some console \<Rightarrow>
         if argc < 3 then Some (False, g)
         else case vals of
           [] \<Rightarrow> None
         | v # _ \<Rightarrow> (let (r, g) = console_assign console v g in Some (0 \<le> r, g)))"

definition baudrate_table :: "u32 list" where
  "baudrate_table = [9600, 19200, 38400, 57600, 115200]"

text \<open>The wait for the Enter key at the new rate is taken to end.\<close>

definition setenv_baudrate :: "u8 list \<Rightarrow> u8 list list \<Rightarrow> uboot \<Rightarrow> (bool \<times> uboot) option" where
  "setenv_baudrate name vals g =
    (if name = ascii ''baudrate''
     then (case vals of
             [] \<Rightarrow> None
           | v # _ \<Rightarrow> (let baudrate = fst (simple_strtoul v 10) in
                      if baudrate \<in> set baudrate_table then Some (True, g\<lparr>gd_baudrate := baudrate\<rparr>)
                      else Some (False, g)))
     else Some (True, g))"

text \<open>The loop that moves the entries after the deleted one down, from \<^verbatim>\<open>nxt\<close> to \<^verbatim>\<open>env\<close>.\<close>

function env_shift :: "u8 list \<Rightarrow> nat \<Rightarrow> nat \<Rightarrow> u8 list option" where
  "env_shift bs e nxt =
    (if length bs \<le> Suc nxt then None
     else let bs' = bs[e := bs ! nxt] in
       if bs' ! e = 0 \<and> bs' ! Suc nxt = 0 then Some (bs'[Suc e := 0])
       else env_shift bs' (Suc e) (Suc nxt))"
  by pat_completeness auto
termination by (relation "measure (\<lambda>(bs, e, nxt). length bs - nxt)") (auto simp: Let_def)

declare env_shift.simps [simp del]

definition env_delete :: "u8 list \<Rightarrow> nat \<Rightarrow> nat \<Rightarrow> u8 list option" where
  "env_delete bs e nxt =
    (if length bs \<le> Suc nxt then None
     else if bs ! Suc nxt = 0 then Some (if 0 < e then bs[e := 0] else bs[0 := 0, 1 := 0])
     else env_shift bs e (Suc nxt))"

definition setenv_delete :: "nat \<Rightarrow> u8 list \<Rightarrow> u8 list list \<Rightarrow> uboot \<Rightarrow> (bool \<times> uboot) option" where
  "setenv_delete argc name vals g =
    (case env_find (env_get_addr g) name 0 of
       Astray \<Rightarrow> None
     | Not_found \<Rightarrow> Some (True, g)
     | Entry e nxt oldval \<Rightarrow>
         (case setenv_console argc name vals g of
            Some (True, g) \<Rightarrow>
              (case setenv_baudrate name vals g of
                 Some (True, g) \<Rightarrow>
                   map_option (\<lambda>bs. (True, env_put bs g)) (env_delete (env_get_addr g) e nxt)
               | r \<Rightarrow> r)
          | r \<Rightarrow> r))"

text \<open>The end of the block: the first of two NUL bytes in a row.\<close>

function env_end :: "u8 list \<Rightarrow> nat \<Rightarrow> nat option" where
  "env_end bs e =
    (if length bs \<le> Suc e then None
     else if bs ! e \<noteq> 0 \<or> bs ! Suc e \<noteq> 0 then env_end bs (Suc e)
     else Some e)"
  by pat_completeness auto
termination by (relation "measure (\<lambda>(bs, e). length bs - e)") auto

declare env_end.simps [simp del]

fun put_str :: "u8 list \<Rightarrow> nat \<Rightarrow> u8 list \<Rightarrow> u8 list" where
  "put_str bs e [] = bs[e := 0]"
| "put_str bs e (c # s) = put_str (bs[e := c]) (Suc e) s"

fun put_vals :: "u8 list \<Rightarrow> nat \<Rightarrow> u8 \<Rightarrow> u8 list list \<Rightarrow> u8 list \<times> nat" where
  "put_vals bs e sep [] = (bs, e)"
| "put_vals bs e sep (v # vs) = put_vals (put_str (bs[e := sep]) (Suc e) v) (Suc e + length v) 0x20 vs"

definition setenv_append :: "u8 list \<Rightarrow> u8 list list \<Rightarrow> uboot \<Rightarrow> (bool \<times> uboot) option" where
  "setenv_append name vals g =
    (case env_end (env_get_addr g) 0 of
       None \<Rightarrow> None
     | Some e \<Rightarrow>
         (let e = (if 0 < e then Suc e else e);
              len = length name + 2 + sum_list (map (\<lambda>v. length v + 1) vals) in
          if ENV_SIZE g < e + len then Some (False, g)
          else let bs = put_str (env_get_addr g) e name;
                   (bs, e) = put_vals bs (e + length name) 0x3D vals in
            Some (True, env_put (bs[Suc e := 0]) g)))"

section \<open>Variables with a meaning to the boot loader\<close>

text \<open>\<^verbatim>\<open>s = (*e) ? e+1 : e\<close>\<close>

fun fields :: "nat \<Rightarrow> u32 \<Rightarrow> u8 list \<Rightarrow> u32 list" where
  "fields 0 base s = []"
| "fields (Suc i) base s = (let (v, e) = simple_strtoul s base in v # fields i base (tl e))"

definition htonl :: "u32 \<Rightarrow> u32" where
  "htonl x = push_bit 24 x OR (push_bit 8 x AND 0xFF0000) OR (drop_bit 8 x AND 0xFF00) OR drop_bit 24 x"

definition parse_ip :: "u8 list \<Rightarrow> u32" where
  "parse_ip s = htonl (foldl (\<lambda>addr v. push_bit 8 addr OR (v AND 0xFF)) 0 (fields 4 10 s))"

definition setenv_update :: "u8 list \<Rightarrow> u8 list \<Rightarrow> uboot \<Rightarrow> uboot" where
  "setenv_update name v g =
    (if name = ascii ''ethaddr'' then g\<lparr>bi_enetaddr := map ucast (fields 6 16 v)\<rparr>
     else if name = ascii ''ipaddr'' then g\<lparr>bi_ip_addr := parse_ip v\<rparr>
     else if name = ascii ''loadaddr'' then g\<lparr>load_addr := fst (simple_strtoul v 16)\<rparr>
     else if name = ascii ''bootfile'' then g\<lparr>BootFile := copy_filename v 128\<rparr>
     else g)"

text \<open>\<^verbatim>\<open>_do_setenv\<close>: the value returned and the new state.\<close>

definition do_setenv_main :: "nat \<Rightarrow> u8 list \<Rightarrow> u8 list list \<Rightarrow> uboot \<Rightarrow> (int \<times> uboot) option" where
  "do_setenv_main argc name vals g =
    (if 0x3D \<in> set name then Some (1, g)
     else case setenv_delete argc name vals g of
       None \<Rightarrow> None
     | Some (False, g) \<Rightarrow> Some (1, g)
     | Some (True, g) \<Rightarrow>
         if argc < 3 \<or> vals = [] then Some (0, env_crc_update g)
         else (case setenv_append name vals g of
                 None \<Rightarrow> None
               | Some (False, g) \<Rightarrow> Some (1, g)
               | Some (True, g) \<Rightarrow> Some (0, setenv_update name (hd vals) (env_crc_update g))))"

definition setenv :: "u8 list \<Rightarrow> u8 list option \<Rightarrow> uboot \<Rightarrow> uboot option" where
  "setenv varname varvalue g =
    map_option snd (do_setenv_main 3 varname (case varvalue of None \<Rightarrow> [] | Some v \<Rightarrow> [v]) g)"

text \<open>The command \<^verbatim>\<open>setenv\<close> with its arguments after the command name.\<close>

fun do_setenv :: "u8 list list \<Rightarrow> uboot \<Rightarrow> (int \<times> uboot) option" where
  "do_setenv [] g = Some (1, g)"
| "do_setenv (name # vals) g = do_setenv_main (2 + length vals) name vals g"

section \<open>Flash\<close>

text \<open>
  The NAND driver is a parameter: \<^verbatim>\<open>erase\<close> gives the value returned by \<^verbatim>\<open>nand_erase\<close> and the new contents of
  the flash, \<^verbatim>\<open>write\<close> and \<^verbatim>\<open>read\<close> the value returned, the number of bytes done, and the new contents or
  the image read.
\<close>

abbreviation CFG_ENV_SIZE :: "uboot \<Rightarrow> nat" where
  "CFG_ENV_SIZE g \<equiv> ENV_SIZE g + 4"

definition saveenv ::
  "('f \<Rightarrow> int \<times> 'f) \<Rightarrow> ('f \<Rightarrow> env_t \<Rightarrow> int \<times> nat \<times> 'f) \<Rightarrow> uboot \<Rightarrow> 'f \<Rightarrow> int \<times> 'f" where
  "saveenv nand_erase nand_write g flash =
    (let (err, flash) = nand_erase flash in
     if err \<noteq> 0 then (1, flash)
     else let (ret, total, flash) = nand_write flash (env_ptr g) in
       if ret \<noteq> 0 \<or> total \<noteq> CFG_ENV_SIZE g then (1, flash) else (ret, flash))"

definition do_saveenv ::
  "('f \<Rightarrow> int \<times> 'f) \<Rightarrow> ('f \<Rightarrow> env_t \<Rightarrow> int \<times> nat \<times> 'f) \<Rightarrow> uboot \<Rightarrow> 'f \<Rightarrow> int \<times> 'f" where
  "do_saveenv nand_erase nand_write g flash =
    (let (r, flash) = saveenv nand_erase nand_write g flash in (if r \<noteq> 0 then 1 else 0, flash))"

definition default_block :: "uboot \<Rightarrow> env_t" where
  "default_block g =
    (let bs = default_environment g @ replicate (ENV_SIZE g - length (default_environment g)) 0 in
     \<lparr>env_crc = crc32 0 bs, env_data = bs\<rparr>)"

text \<open>
  \<^verbatim>\<open>use_default\<close> compares the size with \<^verbatim>\<open>CFG_ENV_SIZE\<close>, that is, with the data and the checksum; between the
  two bounds the copy runs past the allocated block.
\<close>

definition use_default :: "uboot \<Rightarrow> uboot option" where
  "use_default g =
    (if CFG_ENV_SIZE g < length (default_environment g) then Some g
     else if ENV_SIZE g < length (default_environment g) then None
     else Some (g\<lparr>env_ptr := default_block g, env_valid := 1\<rparr>))"

definition env_relocate_spec :: "('f \<Rightarrow> int \<times> nat \<times> env_t) \<Rightarrow> 'f \<Rightarrow> uboot \<Rightarrow> uboot option" where
  "env_relocate_spec nand_read flash g =
    (let (ret, total, img) = nand_read flash; g = g\<lparr>env_ptr := img\<rparr> in
     if ret \<noteq> 0 \<or> total \<noteq> CFG_ENV_SIZE g then use_default g
     else if crc32 0 (env_data (env_ptr g)) \<noteq> env_crc (env_ptr g) then use_default g
     else Some g)"

definition env_init :: "uboot \<Rightarrow> uboot" where
  "env_init g = g\<lparr>env_addr := At_default, env_valid := 1\<rparr>"

text \<open>\<^verbatim>\<open>block\<close> is the block returned by \<^verbatim>\<open>malloc\<close>, with whatever contents it has.\<close>

definition env_relocate :: "('f \<Rightarrow> int \<times> nat \<times> env_t) \<Rightarrow> 'f \<Rightarrow> env_t \<Rightarrow> uboot \<Rightarrow> uboot option" where
  "env_relocate nand_read flash block g =
    (let g = g\<lparr>env_ptr := block\<rparr> in
     if env_valid g = 0
     then (if ENV_SIZE g < length (default_environment g) then Some g
           else Some (g\<lparr>env_ptr := default_block g, env_valid := 1, env_addr := At_ptr\<rparr>))
     else map_option (\<lambda>g. g\<lparr>env_addr := At_ptr\<rparr>) (env_relocate_spec nand_read flash g))"

end
