(* ===== verification/Uboot_Env_Spec.thy ===== *)
theory Uboot_Env_Spec
  imports Uboot_Env "HOL-Library.Sublist"
begin

text \<open>
  What the environment commands do in terms of variables: a block of bytes holds a list of
  \<^verbatim>\<open>name=value\<close> entries, and the byte loops of \<^verbatim>\<open>getenv\<close> and \<^verbatim>\<open>setenv\<close> are look-up and update of a
  finite map.  The map laws are the interface \<^verbatim>\<open>variable_store\<close>, interpreted on the commands; on top of it
  come the stored copy in flash and what survives a reboot.
\<close>

section \<open>Blocks and entries\<close>

definition env_entry :: "u8 list \<Rightarrow> bool" where
  "env_entry e \<longleftrightarrow> 0 \<notin> set e \<and> 0x3D \<in> set e"

definition env_name :: "u8 list \<Rightarrow> bool" where
  "env_name n \<longleftrightarrow> 0 \<notin> set n \<and> 0x3D \<notin> set n"

definition entry_name :: "u8 list \<Rightarrow> u8 list" where
  "entry_name e = takeWhile (\<lambda>c. c \<noteq> 0x3D) e"

definition entry_value :: "u8 list \<Rightarrow> u8 list" where
  "entry_value e = tl (dropWhile (\<lambda>c. c \<noteq> 0x3D) e)"

definition flat :: "u8 list list \<Rightarrow> u8 list" where
  "flat es = concat (map (\<lambda>e. e @ [0]) es)"

text \<open>The block starts with the entries and is closed by one more NUL; an empty block is two NULs.\<close>

definition holds :: "u8 list \<Rightarrow> u8 list list \<Rightarrow> bool" where
  "holds bs es \<longleftrightarrow>
    prefix (flat es @ (if es = [] then [0, 0] else [0])) bs \<and> list_all env_entry es \<and> distinct (map entry_name es)"

definition env_map :: "u8 list list \<Rightarrow> u8 list \<Rightarrow> u8 list option" where
  "env_map es = map_of (map (\<lambda>e. (entry_name e, entry_value e)) es)"

definition without :: "u8 list \<Rightarrow> u8 list list \<Rightarrow> u8 list list" where
  "without n es = filter (\<lambda>e. entry_name e \<noteq> n) es"

fun joined :: "u8 list list \<Rightarrow> u8 list" where
  "joined [] = []"
| "joined [v] = v"
| "joined (v # vs) = v @ 0x20 # joined vs"

definition new_entry :: "u8 list \<Rightarrow> u8 list list \<Rightarrow> u8 list" where
  "new_entry n vs = n @ 0x3D # joined vs"

lemma flat_simps [simp]:
  "flat [] = []" "flat (e # es) = e @ 0 # flat es" "flat (as @ bs) = flat as @ flat bs"
  by (simp_all add: flat_def)

lemma env_entry_nonempty [simp]: "\<not> env_entry []"
  by (simp add: env_entry_def)

lemma entry_split:
  assumes "env_entry e"
  shows "e = entry_name e @ 0x3D # entry_value e"
proof -
  from assms have "dropWhile (\<lambda>c. c \<noteq> 0x3D) e \<noteq> []"
    by (auto simp: env_entry_def dropWhile_eq_Nil_conv)
  moreover from this have "hd (dropWhile (\<lambda>c. c \<noteq> 0x3D) e) = 0x3D"
    using hd_dropWhile by blast
  ultimately have "dropWhile (\<lambda>c. c \<noteq> 0x3D) e = 0x3D # entry_value e"
    unfolding entry_value_def by (metis list.collapse)
  then show ?thesis
    unfolding entry_name_def by (metis takeWhile_dropWhile_id)
qed

lemma new_entry_parts:
  assumes "env_name n"
  shows "entry_name (new_entry n vs) = n" "entry_value (new_entry n vs) = joined vs"
proof -
  have *: "\<forall>c\<in>set n. c \<noteq> 0x3D" using assms by (auto simp: env_name_def)
  then show "entry_name (new_entry n vs) = n"
    by (simp add: entry_name_def new_entry_def takeWhile_append2)
  from * show "entry_value (new_entry n vs) = joined vs"
    by (simp add: entry_value_def new_entry_def dropWhile_append2)
qed

lemma joined_no_nul: "\<forall>v\<in>set vs. 0 \<notin> set v \<Longrightarrow> 0 \<notin> set (joined vs)"
  by (induction vs rule: joined.induct) auto

lemma new_entry_ok: "env_name n \<Longrightarrow> \<forall>v\<in>set vs. 0 \<notin> set v \<Longrightarrow> env_entry (new_entry n vs)"
  using joined_no_nul [of vs] by (auto simp: env_entry_def new_entry_def env_name_def)

lemma without_absent: "n \<notin> set (map entry_name es) \<Longrightarrow> without n es = es"
  by (force simp: without_def filter_id_conv)

lemma without_split:
  assumes "distinct (map entry_name (as @ e # cs))"
  shows "without (entry_name e) (as @ e # cs) = as @ cs"
proof -
  have "without (entry_name e) as = as" "without (entry_name e) cs = cs"
    using assms by (auto intro!: without_absent)
  then show ?thesis by (simp add: without_def)
qed

lemma env_map_without: "env_map (without n es) = (env_map es)(n := None)"
  by (rule ext) (induction es, auto simp: env_map_def without_def)

lemma env_map_snoc:
  assumes "n \<notin> set (map entry_name es)" "entry_name e = n"
  shows "env_map (es @ [e]) = (env_map es)(n \<mapsto> entry_value e)"
proof -
  have "env_map es n = None" using assms(1) by (simp add: env_map_def map_of_eq_None_iff image_image)
  then show ?thesis using assms(2) by (auto simp: env_map_def map_add_def fun_eq_iff split: option.splits)
qed

lemma env_map_entry:
  assumes "distinct (map entry_name (as @ e # cs))"
  shows "env_map (as @ e # cs) (entry_name e) = Some (entry_value e)"
proof -
  have "map_of (map (\<lambda>e. (entry_name e, entry_value e)) as) (entry_name e) = None"
    using assms by (auto simp: map_of_eq_None_iff)
  then show ?thesis by (simp add: env_map_def map_add_def)
qed

lemma env_map_none: "env_map es n = None \<longleftrightarrow> n \<notin> set (map entry_name es)"
  by (simp add: env_map_def map_of_eq_None_iff image_image)

section \<open>The search\<close>

lemma entry_end_entry:
  assumes "0 \<notin> set e"
  shows "entry_end (pre @ e @ 0 # r) (length pre) = length pre + length e"
  using assms
proof (induction e arbitrary: pre)
  case Nil
  then show ?case by (subst entry_end.simps) simp
next
  case (Cons c e)
  from Cons.IH [of "pre @ [c]"] Cons.prems show ?case
    by (subst entry_end.simps) simp
qed

lemma envmatch_entry:
  assumes "env_entry e" "env_name n"
  shows "envmatch (pre @ e @ r) n (length pre) =
    (if entry_name e = n then Value (length pre + length n + 1) else No_match)"
  using assms
proof (induction n arbitrary: pre e)
  case Nil
  then obtain d e' where "e = d # e'" by (cases e) auto
  with Nil show ?case
    by (subst envmatch.simps) (auto simp: env_entry_def entry_name_def)
next
  case (Cons c s)
  then obtain d e' where e: "e = d # e'" by (cases e) auto
  show ?case
  proof (cases "c = d")
    case True
    with Cons.prems e have "env_entry e'" "env_name s" "d \<noteq> 0x3D"
      by (auto simp: env_entry_def env_name_def)
    with Cons.IH [of e' "pre @ [d]"] True e show ?thesis
      by (subst envmatch.simps) (auto simp: entry_name_def)
  next
    case False
    then show ?thesis
      by (subst envmatch.simps) (auto simp: e entry_name_def)
  qed
qed

lemma env_find_skip:
  assumes "list_all env_entry bs" "env_name n" "n \<notin> set (map entry_name bs)"
  shows "env_find (pre @ flat bs @ r) n (length pre) =
    env_find (pre @ flat bs @ r) n (length (pre @ flat bs))"
  using assms
proof (induction bs arbitrary: pre)
  case (Cons e bs)
  let ?m = "pre @ e @ 0 # flat bs @ r"
  from Cons.prems have e: "env_entry e" "0 \<notin> set e" "e \<noteq> []"
    by (auto simp: env_entry_def)
  then have byte: "?m ! length pre \<noteq> 0"
    by (cases e) auto
  have "env_find ?m n (length pre) = env_find ?m n (Suc (length pre + length e))"
    using byte e Cons.prems entry_end_entry [OF e(2), of pre "flat bs @ r"]
      envmatch_entry [OF e(1) Cons.prems(2), of pre "0 # flat bs @ r"]
    by (subst env_find.simps) auto
  with Cons.IH [of "pre @ e @ [0]"] Cons.prems show ?case
    by simp
qed simp

lemma env_find_absent:
  assumes "list_all env_entry es" "env_name n" "n \<notin> set (map entry_name es)"
  shows "env_find (flat es @ 0 # r) n 0 = Not_found"
  using env_find_skip [OF assms, of "[]" "0 # r"]
  by (simp add: env_find.simps [of _ _ "length (flat es)"])

lemma env_find_present:
  assumes "list_all env_entry as" "env_entry e" "env_name n" "n \<notin> set (map entry_name as)" "entry_name e = n"
  shows "env_find (flat as @ e @ 0 # r) n 0 =
    Entry (length (flat as)) (length (flat as) + length e) (length (flat as) + length n + 1)"
proof -
  from assms(2) have "0 \<notin> set e" "e \<noteq> []" by (auto simp: env_entry_def)
  then have byte: "(flat as @ e @ 0 # r) ! length (flat as) \<noteq> 0"
    by (cases e) auto
  show ?thesis
    using env_find_skip [OF assms(1,3,4), of "[]" "e @ 0 # r"] byte assms
      entry_end_entry [OF \<open>0 \<notin> set e\<close>, of "flat as" r] envmatch_entry [of e n "flat as" "0 # r"]
    by (simp add: env_find.simps [of _ _ "length (flat as)"])
qed

lemma holds_split:
  assumes "holds bs es"
  obtains r where "bs = flat es @ 0 # r" "es = [] \<Longrightarrow> r \<noteq> [] \<and> hd r = 0"
  using assms by (cases "es = []") (auto simp: holds_def prefix_def)

lemma holdsI:
  assumes "list_all env_entry es" "distinct (map entry_name es)" "bs = flat es @ 0 # r"
    "es = [] \<Longrightarrow> r \<noteq> [] \<and> hd r = 0"
  shows "holds bs es"
  using assms by (cases r) (auto simp: holds_def prefix_def)

lemma holds_entries: "holds bs es \<Longrightarrow> list_all env_entry es" "holds bs es \<Longrightarrow> distinct (map entry_name es)"
  by (auto simp: holds_def)

lemma entry_member_split:
  assumes "distinct (map entry_name es)" "n \<in> set (map entry_name es)"
  obtains as e cs where "es = as @ e # cs" "entry_name e = n" "n \<notin> set (map entry_name as)"
proof -
  from assms(2) obtain e where "e \<in> set es" "entry_name e = n" by auto
  then obtain as cs where "es = as @ e # cs" by (meson split_list)
  with assms(1) \<open>entry_name e = n\<close> that show thesis by auto
qed

lemma getenv_holds:
  assumes "holds (env_get_addr g) es" "env_name n"
  shows "getenv g n = Some (env_map es n)"
proof -
  from assms(1) obtain r where bs: "env_get_addr g = flat es @ 0 # r"
    by (rule holds_split)
  show ?thesis
  proof (cases "n \<in> set (map entry_name es)")
    case True
    with holds_entries(2) [OF assms(1)] obtain as e cs
      where es: "es = as @ e # cs" "entry_name e = n" "n \<notin> set (map entry_name as)"
      by (rule entry_member_split)
    with holds_entries(1) [OF assms(1)] have wf: "list_all env_entry as" "env_entry e" by auto
    have "e = n @ 0x3D # entry_value e"
      using entry_split [OF wf(2)] es(2) by simp
    then have "env_get_addr g = flat as @ n @ 0x3D # entry_value e @ 0 # flat cs @ 0 # r"
      using bs es(1) by (metis append.assoc append_Cons flat_simps(2,3))
    then have drop: "drop (length (flat as) + length n + 1) (env_get_addr g) = entry_value e @ 0 # flat cs @ 0 # r"
      by simp
    have "0 \<notin> set (entry_value e)"
      using wf(2) entry_split [OF wf(2)] by (metis Un_iff env_entry_def set_append set_subset_Cons subsetD)
    then have "takeWhile (\<lambda>c. c \<noteq> 0) (drop (length (flat as) + length n + 1) (env_get_addr g)) = entry_value e"
      unfolding drop by (subst takeWhile_append2) auto
    moreover have "env_map es n = Some (entry_value e)"
      using env_map_entry holds_entries(2) [OF assms(1)] unfolding es(1) es(2) [symmetric] by blast
    ultimately show ?thesis
      using env_find_present [OF wf assms(2) es(3) es(2), of "flat cs @ 0 # r"]
      by (simp add: getenv_def bs es(1))
  next
    case False
    then show ?thesis
      using env_find_absent [OF holds_entries(1) [OF assms(1)] assms(2) False, of r] env_map_none [THEN iffD2, OF False]
      by (simp add: getenv_def bs)
  qed
qed

section \<open>Deleting and appending\<close>

fun no_double_nul :: "u8 list \<Rightarrow> bool" where
  "no_double_nul (x # y # s) \<longleftrightarrow> \<not> (x = 0 \<and> y = 0) \<and> no_double_nul (y # s)"
| "no_double_nul _ \<longleftrightarrow> True"

lemma no_double_nul_append:
  assumes "0 \<notin> set e" "no_double_nul s" "s \<noteq> [] \<Longrightarrow> hd s \<noteq> 0"
  shows "no_double_nul (e @ 0 # s)"
  using assms
proof (induction e)
  case Nil
  then show ?case by (cases s) auto
next
  case (Cons c e)
  then show ?case by (cases e) auto
qed

lemma flat_block:
  assumes "list_all env_entry es"
  shows "no_double_nul (flat es)" "es \<noteq> [] \<Longrightarrow> flat es \<noteq> [] \<and> hd (flat es) \<noteq> 0 \<and> last (flat es) = 0"
proof -
  have hd: "hd (flat es) \<noteq> 0" if "flat es \<noteq> []" "list_all env_entry es" for es
    using that by (cases es; cases "hd es") (auto simp: env_entry_def)
  from assms show "no_double_nul (flat es)"
    by (induction es) (auto intro!: no_double_nul_append dest: hd simp: env_entry_def)
  assume "es \<noteq> []"
  then have "flat es \<noteq> []" by (cases es) auto
  moreover have "last (flat es) = 0" if "es \<noteq> []" for es
    using that by (induction es) (auto simp: flat_def)
  ultimately show "flat es \<noteq> [] \<and> hd (flat es) \<noteq> 0 \<and> last (flat es) = 0"
    using hd [OF _ assms] \<open>es \<noteq> []\<close> by blast
qed

lemma env_shift_moves:
  assumes "s \<noteq> []" "no_double_nul s" "last s = 0" "gap \<noteq> []"
  shows "\<exists>r'. env_shift (pre @ gap @ s @ 0 # r) (length pre) (length pre + length gap) = Some (pre @ s @ 0 # r')
    \<and> length r' = length gap + length r"
  using assms
proof (induction s arbitrary: pre gap)
  case (Cons x s)
  then obtain y gap' where gap: "gap = y # gap'" by (cases gap) auto
  have at: "(pre @ gap @ (x # s) @ 0 # r) ! (length pre + length gap) = x"
    using nth_append_length [of "pre @ gap" x "s @ 0 # r"] by simp
  show ?case
  proof (cases s)
    case Nil
    with Cons.prems have "x = 0" by simp
    obtain z zs where "gap' @ 0 # 0 # r = z # zs" by (cases "gap' @ 0 # 0 # r") auto
    moreover from this have "length zs = length gap + length r" using gap by (metis length_Cons length_append add_Suc_right add_Suc nat.inject)
    moreover have "zs ! length gap' = 0"
    proof -
      have "(gap' @ [0] @ 0 # r) ! Suc (length gap') = 0" by (simp add: nth_append)
      then show ?thesis using \<open>gap' @ 0 # 0 # r = z # zs\<close> by simp
    qed
    ultimately show ?thesis
      using at \<open>x = 0\<close> Nil gap
      by (subst env_shift.simps) (auto simp: Let_def nth_append list_update_append nth_Cons' intro!: exI [of _ zs])
  next
    case (Cons y s')
    let ?bs = "(pre @ [x]) @ (gap' @ [x]) @ s @ 0 # r"
    from Cons Cons.prems have "\<not> (x = 0 \<and> y = 0)" "no_double_nul s" "last s = 0" "s \<noteq> []"
      by auto
    then have "\<exists>r'. env_shift ?bs (length (pre @ [x])) (length (pre @ [x]) + length (gap' @ [x])) =
        Some ((pre @ [x]) @ s @ 0 # r') \<and> length r' = length (gap' @ [x]) + length r"
      by (intro Cons.IH) auto
    moreover have "env_shift (pre @ gap @ (x # s) @ 0 # r) (length pre) (length pre + length gap) =
        env_shift ?bs (length (pre @ [x])) (length (pre @ [x]) + length (gap' @ [x]))"
      using at \<open>\<not> (x = 0 \<and> y = 0)\<close> gap Cons
      by (subst env_shift.simps) (auto simp: Let_def list_update_append nth_append)
    ultimately show ?thesis
      using gap by simp
  qed
qed simp

lemma env_end_block:
  assumes "s \<noteq> []" "no_double_nul s" "last s = 0"
  shows "env_end (pre @ s @ 0 # r) (length pre) = Some (length pre + length s - 1)"
  using assms
proof (induction s arbitrary: pre)
  case (Cons x s)
  show ?case
  proof (cases s)
    case Nil
    with Cons.prems show ?thesis by (subst env_end.simps) (simp add: nth_append)
  next
    case (Cons y s')
    with Cons.prems have "\<not> (x = 0 \<and> y = 0)" "no_double_nul s" "last s = 0" "s \<noteq> []"
      by auto
    with Cons.IH [of "pre @ [x]"] Cons show ?thesis
      by (subst env_end.simps) (auto simp: nth_append)
  qed
qed simp

lemma put_str_writes:
  "length s < length gap \<Longrightarrow> put_str (pre @ gap) (length pre) s = pre @ s @ 0 # drop (Suc (length s)) gap"
proof (induction s arbitrary: pre gap)
  case Nil
  then show ?case by (cases gap) (auto simp: list_update_append)
next
  case (Cons c s)
  then obtain y gap' where gap: "gap = y # gap'" by (cases gap) auto
  with Cons.IH [of gap' "pre @ [c]"] Cons.prems show ?case
    by (simp add: list_update_append)
qed

lemma put_vals_writes:
  assumes "vs \<noteq> []" "Suc (length (joined vs)) < length gap"
  shows "put_vals (pre @ gap) (length pre) sep vs =
    (pre @ sep # joined vs @ 0 # drop (length (joined vs) + 2) gap, length pre + 1 + length (joined vs))"
  using assms
proof (induction vs arbitrary: pre gap sep rule: joined.induct)
  case 1
  then show ?case by simp
next
  case (2 v)
  then obtain y gap' where "gap = y # gap'" by (cases gap) auto
  with 2 put_str_writes [of v gap' "pre @ [sep]"] show ?case
    by (simp add: list_update_append)
next
  case (3 v w vs)
  then obtain y gap' where gap: "gap = y # gap'" by (cases gap) auto
  let ?gap = "0 # drop (Suc (length v)) gap'"
  have "put_vals (pre @ gap) (length pre) sep (v # w # vs) =
      put_vals ((pre @ sep # v) @ ?gap) (length (pre @ sep # v)) 0x20 (w # vs)"
    using put_str_writes [of v gap' "pre @ [sep]"] gap 3(3) by (simp add: list_update_append)
  also have "\<dots> = ((pre @ sep # v) @ 0x20 # joined (w # vs) @ 0 # drop (length (joined (w # vs)) + 2) ?gap,
      length (pre @ sep # v) + 1 + length (joined (w # vs)))"
    using gap 3(3) by (intro 3(1)) auto
  finally show ?case
    using gap by (simp add: algebra_simps)
qed

lemma length_joined: "vs \<noteq> [] \<Longrightarrow> sum_list (map (\<lambda>v. length v + 1) vs) = Suc (length (joined vs))"
  by (induction vs rule: joined.induct) auto

lemma env_delete_holds:
  assumes "holds bs (as @ e # cs)"
  shows "\<exists>bs'. env_delete bs (length (flat as)) (length (flat as) + length e) = Some bs' \<and>
    holds bs' (as @ cs) \<and> length bs' = length bs"
proof -
  from assms obtain r where bs: "bs = flat as @ e @ 0 # flat cs @ 0 # r"
    by (rule holds_split) simp
  from assms have wf: "list_all env_entry (as @ cs)" "distinct (map entry_name (as @ cs))" and e: "e \<noteq> []"
    by (auto simp: holds_def)
  show ?thesis
  proof (cases "cs = []")
    case True
    obtain c e' where e': "e = c # e'" using e by (cases e) auto
    have nth: "bs ! Suc (length (flat as) + length e) = 0"
      using nth_append_length [of "flat as @ e @ [0]" 0 r] by (simp add: bs True)
    show ?thesis
    proof (cases "as = []")
      case True
      obtain d t where dt: "e' @ 0 # 0 # r = d # t" by (cases "e' @ 0 # 0 # r") auto
      have "length t = Suc (length e' + length r)"
        using arg_cong [OF dt, of length] by simp
      then show ?thesis
        using dt \<open>cs = []\<close> True nth e' wf bs
        by (auto simp: env_delete_def intro!: holdsI [where r = "0 # t"])
    next
      case False
      then have "0 < length (flat as)" using flat_block(2) [of as] wf by auto
      with \<open>cs = []\<close> nth e' wf bs False show ?thesis
        by (auto simp: env_delete_def list_update_append intro!: holdsI [where r = "e' @ 0 # 0 # r"])
    qed
  next
    case False
    with wf flat_block [of cs] have cs: "flat cs \<noteq> []" "no_double_nul (flat cs)" "last (flat cs) = 0" "hd (flat cs) \<noteq> 0"
      by auto
    then have nth: "bs ! Suc (length (flat as) + length e) \<noteq> 0"
      using nth_append_length [of "flat as @ e @ [0]" "hd (flat cs)" "tl (flat cs) @ 0 # r"]
      by (cases "flat cs") (simp_all add: bs)
    from env_shift_moves [OF cs(1-3), of "e @ [0]" "flat as" r] obtain r'
      where r': "env_shift bs (length (flat as)) (Suc (length (flat as) + length e)) = Some (flat as @ flat cs @ 0 # r')"
        "length r' = length e + 1 + length r"
      by (auto simp: bs)
    then have "env_delete bs (length (flat as)) (length (flat as) + length e) = Some (flat as @ flat cs @ 0 # r')"
      using nth by (simp add: env_delete_def bs)
    moreover have "holds (flat as @ flat cs @ 0 # r') (as @ cs)"
      using wf False by (intro holdsI) auto
    ultimately show ?thesis
      using r'(2) by (auto simp: bs)
  qed
qed

section \<open>Setting a variable\<close>

definition relocated :: "uboot \<Rightarrow> bool" where
  "relocated g \<longleftrightarrow> env_valid g \<noteq> 0 \<and> env_addr g = At_ptr"

abbreviation env_block :: "uboot \<Rightarrow> u8 list" where
  "env_block g \<equiv> env_data (env_ptr g)"

text \<open>The checksum in front of the block is right.\<close>

definition crc_ok :: "env_t \<Rightarrow> bool" where
  "crc_ok e \<longleftrightarrow> env_crc e = crc32 0 (env_data e)"

text \<open>The variable has no side effect that can refuse the command.\<close>

definition plain_name :: "u8 list \<Rightarrow> bool" where
  "plain_name n \<longleftrightarrow> env_name n \<and> console_file n = None \<and> n \<noteq> ascii ''baudrate''"

definition fits :: "uboot \<Rightarrow> u8 list list \<Rightarrow> u8 list \<Rightarrow> u8 list list \<Rightarrow> bool" where
  "fits g es n vs \<longleftrightarrow> length (flat (without n es)) + length (new_entry n vs) + 2 \<le> ENV_SIZE g"

definition with_block :: "u8 list \<Rightarrow> uboot \<Rightarrow> uboot" where
  "with_block bs g = g\<lparr>env_ptr := (env_ptr g)\<lparr>env_data := bs\<rparr>\<rparr>"

lemma relocated_env [simp]:
  "relocated g \<Longrightarrow> env_get_addr g = env_block g"
  "relocated g \<Longrightarrow> env_put bs g = with_block bs g"
  by (simp_all add: relocated_def env_get_addr_def env_put_def with_block_def)

lemma with_block_simps [simp]:
  "env_block (with_block bs g) = bs" "env_crc (env_ptr (with_block bs g)) = env_crc (env_ptr g)"
  "relocated (with_block bs g) = relocated g" "with_block bs (with_block bs' g) = with_block bs g"
  "with_block (env_block g) g = g"
  by (simp_all add: with_block_def relocated_def)

lemma env_crc_update_simps [simp]:
  "env_block (env_crc_update g) = env_block g" "crc_ok (env_ptr (env_crc_update g))"
  "relocated (env_crc_update g) = relocated g"
  by (simp_all add: env_crc_update_def crc_ok_def relocated_def)

lemma setenv_update_simps [simp]:
  "env_ptr (setenv_update n v g) = env_ptr g" "relocated (setenv_update n v g) = relocated g"
  by (simp_all add: setenv_update_def relocated_def)

lemma setenv_delete_present:
  assumes "relocated g" "holds (env_block g) es" "env_name n" "n \<in> set (map entry_name es)"
  shows "\<exists>e nxt v bs. env_find (env_block g) n 0 = Entry e nxt v \<and> env_delete (env_block g) e nxt = Some bs \<and>
    holds bs (without n es) \<and> length bs = ENV_SIZE g"
proof -
  from holds_entries(2) [OF assms(2)] assms(4) obtain as e cs
    where es: "es = as @ e # cs" "entry_name e = n" "n \<notin> set (map entry_name as)"
    by (rule entry_member_split)
  obtain r where bs: "env_block g = flat as @ e @ 0 # flat cs @ 0 # r"
    using assms(2) by (rule holds_split) (simp add: es)
  have "list_all env_entry as" "env_entry e"
    using holds_entries(1) [OF assms(2)] es by auto
  then have "env_find (env_block g) n 0 =
      Entry (length (flat as)) (length (flat as) + length e) (length (flat as) + length n + 1)"
    unfolding bs using env_find_present es assms(3) by blast
  moreover have "without n es = as @ cs"
    using without_split holds_entries(2) [OF assms(2)] unfolding es(1) es(2) [symmetric] by blast
  ultimately show ?thesis
    using env_delete_holds [OF assms(2) [unfolded es(1)]] by auto
qed

lemma env_find_not_found:
  assumes "holds bs es" "env_name n" "n \<notin> set (map entry_name es)"
  shows "env_find bs n 0 = Not_found"
proof -
  from assms(1) obtain r where "bs = flat es @ 0 # r" by (rule holds_split)
  then show ?thesis
    using env_find_absent [OF holds_entries(1) [OF assms(1)] assms(2,3)] by simp
qed

lemma setenv_delete_holds:
  assumes "relocated g" "holds (env_block g) es" "plain_name n"
  shows "\<exists>bs. setenv_delete argc n vs g = Some (True, with_block bs g) \<and>
    holds bs (without n es) \<and> length bs = ENV_SIZE g"
proof (cases "n \<in> set (map entry_name es)")
  case True
  then show ?thesis
    using setenv_delete_present [OF assms(1,2) _ True] assms(1,3)
    by (auto simp: setenv_delete_def setenv_console_def setenv_baudrate_def plain_name_def)
next
  case False
  then show ?thesis
    using env_find_not_found [OF assms(2) _ False] without_absent [OF False] assms
    by (intro exI [of _ "env_block g"]) (simp add: setenv_delete_def plain_name_def)
qed

lemma env_end_holds:
  assumes "holds bs es"
  shows "\<exists>e. env_end bs 0 = Some e \<and> (if 0 < e then Suc e else e) = length (flat es)"
proof (cases "es = []")
  case True
  with assms show ?thesis
    by (auto simp: holds_def prefix_def env_end.simps [of _ 0])
next
  case False
  from assms obtain r where bs: "bs = flat es @ 0 # r" by (rule holds_split)
  note blk = flat_block [OF holds_entries(1) [OF assms]]
  from blk False have "env_end bs 0 = Some (length (flat es) - 1)"
    using env_end_block [of "flat es" "[]" r] by (simp add: bs)
  moreover have "1 < length (flat es)"
    using False blk(2) by (cases "flat es" rule: list.exhaust; cases "tl (flat es)") auto
  ultimately show ?thesis by simp
qed

lemma setenv_append_holds:
  assumes "relocated g" "holds (env_block g) es" "env_name n" "n \<notin> set (map entry_name es)"
    "vs \<noteq> []" "\<forall>v\<in>set vs. 0 \<notin> set v"
  shows "if length (flat es) + length (new_entry n vs) + 2 \<le> ENV_SIZE g
    then \<exists>bs. setenv_append n vs g = Some (True, with_block bs g) \<and>
      holds bs (es @ [new_entry n vs]) \<and> length bs = ENV_SIZE g
    else setenv_append n vs g = Some (False, g)"
proof -
  obtain e where e: "env_end (env_block g) 0 = Some e" "(if 0 < e then Suc e else e) = length (flat es)"
    using env_end_holds [OF assms(2)] by blast
  obtain r where bs: "env_block g = flat es @ 0 # r"
    using assms(2) by (rule holds_split)
  have len: "length n + 2 + sum_list (map (\<lambda>v. length v + 1) vs) = length (new_entry n vs) + 2"
    using length_joined [OF assms(5)] by (simp add: new_entry_def)
  show ?thesis
  proof (cases "length (flat es) + length (new_entry n vs) + 2 \<le> ENV_SIZE g")
    case True
    define gap where "gap = 0 # r"
    have room: "length n + length (joined vs) + 3 \<le> length gap"
      using True by (simp add: bs new_entry_def gap_def)
    have 1: "put_str (env_block g) (length (flat es)) n = (flat es @ n) @ 0 # drop (Suc (length n)) gap"
      using put_str_writes [of n gap "flat es"] room by (simp add: bs gap_def)
    let ?rest = "drop (length (joined vs) + 2) (0 # drop (Suc (length n)) gap)"
    have "put_vals ((flat es @ n) @ 0 # drop (Suc (length n)) gap) (length (flat es @ n)) 0x3D vs =
        ((flat es @ n) @ 0x3D # joined vs @ 0 # ?rest, length (flat es @ n) + 1 + length (joined vs))"
      using room by (intro put_vals_writes assms(5)) simp
    moreover obtain x t where x: "?rest = x # t"
      using room by (cases ?rest) auto
    ultimately have 2: "put_vals (put_str (env_block g) (length (flat es)) n) (length (flat es) + length n) 0x3D vs =
        (flat (es @ [new_entry n vs]) @ x # t, length (flat es) + length n + 1 + length (joined vs))"
      by (simp add: 1 new_entry_def)
    have "(flat (es @ [new_entry n vs]) @ x # t)[Suc (length (flat es) + length n + 1 + length (joined vs)) := 0] =
        flat (es @ [new_entry n vs]) @ 0 # t"
      by (simp add: new_entry_def list_update_append)
    then have "setenv_append n vs g = Some (True, with_block (flat (es @ [new_entry n vs]) @ 0 # t) g)"
      using e True assms(1) by (simp only: setenv_append_def relocated_env Let_def option.case 2 prod.case e len) (simp add: add.assoc)
    moreover have "holds (flat (es @ [new_entry n vs]) @ 0 # t) (es @ [new_entry n vs])"
      using holds_entries [OF assms(2)] new_entry_ok [OF assms(3,6)] new_entry_parts(1) [OF assms(3), of vs] assms(4)
      by (intro holdsI) auto
    moreover have "length (flat (es @ [new_entry n vs]) @ 0 # t) = ENV_SIZE g"
      using arg_cong [OF x, of length] room by (simp add: bs gap_def new_entry_def)
    ultimately show ?thesis
      using True by auto
  next
    case False
    then show ?thesis
      using e assms(1) by (simp only: setenv_append_def relocated_env Let_def option.case e len) simp
  qed
qed

text \<open>
  The command \<^verbatim>\<open>setenv\<close> on entries: the old definition goes, the new one is appended when there is room for
  it, and the checksum is brought up to date unless there is none.
\<close>

definition env_after :: "uboot \<Rightarrow> u8 list list \<Rightarrow> u8 list \<Rightarrow> u8 list list \<Rightarrow> u8 list list" where
  "env_after g es n vs = without n es @ (if vs \<noteq> [] \<and> fits g es n vs then [new_entry n vs] else [])"

lemma without_names: "n \<notin> set (map entry_name (without n es))"
  by (auto simp: without_def)

lemma do_setenv_main_holds:
  assumes "relocated g" "holds (env_block g) es" "plain_name n" "\<forall>v\<in>set vs. 0 \<notin> set v"
    "argc = 3 \<or> argc = 2 + length vs"
  shows "\<exists>g'. do_setenv_main argc n vs g = Some (if vs = [] \<or> fits g es n vs then 0 else 1, g') \<and>
    relocated g' \<and> ENV_SIZE g' = ENV_SIZE g \<and> holds (env_block g') (env_after g es n vs) \<and>
    (if vs = [] \<or> fits g es n vs then crc_ok (env_ptr g') else env_crc (env_ptr g') = env_crc (env_ptr g))"
proof -
  from assms(3) have n: "env_name n" by (simp add: plain_name_def)
  then have no_eq: "0x3D \<notin> set n" by (simp add: env_name_def)
  from setenv_delete_holds [OF assms(1-3)] obtain bs
    where del: "setenv_delete argc n vs g = Some (True, with_block bs g)"
      and bs: "holds bs (without n es)" "length bs = ENV_SIZE g" by blast
  show ?thesis
  proof (cases "vs = []")
    case True
    with del bs assms(1) no_eq show ?thesis by (simp add: do_setenv_main_def env_after_def)
  next
    case False
    with assms(5) have argc: "\<not> argc < 3" by (cases vs) auto
    let ?g = "with_block bs g"
    have app: "if fits g es n vs
      then \<exists>bs'. setenv_append n vs ?g = Some (True, with_block bs' ?g) \<and>
        holds bs' (without n es @ [new_entry n vs]) \<and> length bs' = ENV_SIZE ?g
      else setenv_append n vs ?g = Some (False, ?g)"
      using setenv_append_holds [of ?g "without n es" n vs, OF _ _ n without_names False assms(4)] assms(1) bs
      by (simp add: fits_def)
    show ?thesis
    proof (cases "fits g es n vs")
      case True
      with app obtain bs' where "setenv_append n vs ?g = Some (True, with_block bs' g)"
        "holds bs' (without n es @ [new_entry n vs])" "length bs' = ENV_SIZE g"
        using bs by auto
      with del no_eq argc False True assms(1) show ?thesis
        by (simp add: do_setenv_main_def env_after_def)
    next
      case fits: False
      with app del no_eq argc False bs assms(1) show ?thesis
        by (simp add: do_setenv_main_def env_after_def)
    qed
  qed
qed

lemma do_setenv_holds:
  assumes "relocated g" "holds (env_block g) es" "plain_name n" "\<forall>v\<in>set vs. 0 \<notin> set v"
  shows "\<exists>g'. do_setenv (n # vs) g = Some (if vs = [] \<or> fits g es n vs then 0 else 1, g') \<and>
    relocated g' \<and> ENV_SIZE g' = ENV_SIZE g \<and> holds (env_block g') (env_after g es n vs) \<and>
    (if vs = [] \<or> fits g es n vs then crc_ok (env_ptr g') else env_crc (env_ptr g') = env_crc (env_ptr g))"
  using do_setenv_main_holds [OF assms, of "2 + length vs"] by simp

lemma env_map_after:
  assumes "env_name n"
  shows "env_map (env_after g es n vs) = (env_map es)(n := if vs \<noteq> [] \<and> fits g es n vs then Some (joined vs) else None)"
  using env_map_snoc [OF without_names, of "new_entry n vs" n es] new_entry_parts [OF assms, of vs]
  by (auto simp: env_after_def env_map_without fun_eq_iff)

lemma do_setenv_map:
  assumes "relocated g" "holds (env_block g) es" "plain_name n" "\<forall>v\<in>set vs. 0 \<notin> set v"
  shows "\<exists>g'. do_setenv (n # vs) g = Some (if vs = [] \<or> fits g es n vs then 0 else 1, g') \<and>
    relocated g' \<and> ENV_SIZE g' = ENV_SIZE g \<and> (\<exists>es'. holds (env_block g') es') \<and>
    (\<forall>m. env_name m \<longrightarrow>
      getenv g' m =
        (if m = n then Some (if vs \<noteq> [] \<and> fits g es n vs then Some (joined vs) else None) else getenv g m))"
proof -
  obtain g' where g': "do_setenv (n # vs) g = Some (if vs = [] \<or> fits g es n vs then 0 else 1, g')"
    "relocated g'" "ENV_SIZE g' = ENV_SIZE g" "holds (env_block g') (env_after g es n vs)"
    using do_setenv_holds [OF assms] by blast
  have "env_name n" using assms(3) by (simp add: plain_name_def)
  then have "getenv g' m =
      (if m = n then Some (if vs \<noteq> [] \<and> fits g es n vs then Some (joined vs) else None) else getenv g m)"
    if "env_name m" for m
    using that g'(2,4) assms(1,2) getenv_holds [of g' "env_after g es n vs" m] getenv_holds [of g es m]
    by (simp add: env_map_after)
  with g' show ?thesis by blast
qed

text \<open>
  C29: the command \<^verbatim>\<open>setenv name value...\<close> on a well-formed block is an update of the variables.  When the
  entry fits in the block it returns 0, and afterwards \<^verbatim>\<open>getenv\<close> gives the joined value for that name and
  what it gave before for every other name; without a value the variable is gone; when there is no room
  the command returns 1 and the variable is gone.  The block stays well-formed and keeps its size.
\<close>

theorem setenv_updates_map:
  assumes "relocated g" "holds (env_block g) es" "plain_name n" "\<forall>v\<in>set vs. 0 \<notin> set v"
  shows "\<exists>g'. do_setenv (n # vs) g = Some (if vs = [] \<or> fits g es n vs then 0 else 1, g') \<and>
    relocated g' \<and> ENV_SIZE g' = ENV_SIZE g \<and> (\<exists>es'. holds (env_block g') es') \<and>
    (\<forall>m. env_name m \<longrightarrow>
      getenv g' m =
        (if m = n then Some (if vs \<noteq> [] \<and> fits g es n vs then Some (joined vs) else None) else getenv g m))"
  using assms by (rule do_setenv_map)

lemma ascii_simps [simp]: "ascii [] = []" "ascii (c # s) = word_of_nat (of_char c) # ascii s"
  by (simp_all add: ascii_def)

definition sample_block :: "u8 list" where
  "sample_block = ascii ''a=1'' @ [0] @ ascii ''b=22'' @ [0, 0, 7, 7, 7]"

definition sample_uboot :: uboot where
  "sample_uboot =
    \<lparr>env_valid = 1, env_addr = At_ptr, default_environment = ascii ''d=4'' @ [0, 0],
     env_ptr = \<lparr>env_crc = crc32 0 sample_block, env_data = sample_block\<rparr>,
     bi_enetaddr = [], bi_ip_addr = 0, gd_baudrate = 115200, load_addr = 0, BootFile = [],
     devlist = [], stdio_devices = [None, None, None], jt_input = None, jt_output = None\<rparr>"

definition sample_entries :: "u8 list list" where
  "sample_entries = [ascii ''a=1'', ascii ''b=22'']"

lemma sample_ok: "relocated sample_uboot" "holds (env_block sample_uboot) sample_entries"
  "ENV_SIZE sample_uboot = 13" "crc_ok (env_ptr sample_uboot)"
  by (simp_all add: sample_uboot_def relocated_def sample_block_def sample_entries_def holds_def crc_ok_def
      env_entry_def entry_name_def)

lemma sample_names: "plain_name (ascii ''a'')" "plain_name (ascii ''b'')"
  by (simp_all add: plain_name_def env_name_def console_file_def)

theorem setenv_updates_map_witness:
  "\<exists>g'. do_setenv [ascii ''a'', ascii ''33''] sample_uboot = Some (0, g') \<and>
    getenv g' (ascii ''a'') = Some (Some (ascii ''33'')) \<and>
    getenv g' (ascii ''b'') = getenv sample_uboot (ascii ''b'')"
proof -
  have "fits sample_uboot sample_entries (ascii ''a'') [ascii ''33'']"
    by (simp add: fits_def sample_ok(3) sample_entries_def without_def entry_name_def new_entry_def)
  moreover have "\<forall>v\<in>set [ascii ''33'']. 0 \<notin> set v" by simp
  ultimately show ?thesis
    using setenv_updates_map [OF sample_ok(1,2) sample_names(1), of "[ascii ''33'']"] sample_names
    by (fastforce simp: plain_name_def)
qed

section \<open>Every command returns\<close>

text \<open>The side effects of a command leave the block alone.\<close>

lemma console_assign_env [simp]:
  "env_ptr (snd (console_assign f v g)) = env_ptr g" "relocated (snd (console_assign f v g)) = relocated g"
  by (auto simp: console_assign_def console_setfile_def relocated_def Let_def split: option.splits)

lemma setenv_console_env:
  assumes "setenv_console argc n vs g = Some (b, g')"
  shows "env_ptr g' = env_ptr g" "relocated g' = relocated g"
  using assms console_assign_env [of _ _ g]
  by (auto simp: setenv_console_def Let_def case_prod_beta split: option.splits if_splits list.splits)

lemma setenv_baudrate_env:
  assumes "setenv_baudrate n vs g = Some (b, g')"
  shows "env_ptr g' = env_ptr g" "relocated g' = relocated g"
  using assms
  by (auto simp: setenv_baudrate_def Let_def relocated_def split: option.splits if_splits list.splits prod.splits)

lemma setenv_delete_any:
  assumes "relocated g" "holds (env_block g) es" "env_name n"
  shows "setenv_delete argc n vs g = None \<and> vs = [] \<and> n \<in> set (map entry_name es) \<and>
      (n = ascii ''baudrate'' \<or> \<not> argc < 3) \<or>
    (\<exists>b g'. setenv_delete argc n vs g = Some (b, g') \<and> relocated g' \<and> ENV_SIZE g' = ENV_SIZE g \<and>
      holds (env_block g') (if b then without n es else es))"
proof (cases "n \<in> set (map entry_name es)")
  case True
  from setenv_delete_present [OF assms True] obtain e nxt v bs
    where find: "env_find (env_block g) n 0 = Entry e nxt v" "env_delete (env_block g) e nxt = Some bs"
      and bs: "holds bs (without n es)" "length bs = ENV_SIZE g" by blast
  show ?thesis
  proof (cases "setenv_console argc n vs g")
    case None
    then have "vs = []" "\<not> argc < 3"
      by (auto simp: setenv_console_def Let_def case_prod_beta split: option.splits if_splits list.splits)
    with None find True assms(1) show ?thesis by (simp add: setenv_delete_def)
  next
    case (Some r)
    then obtain b1 g1 where 1: "setenv_console argc n vs g = Some (b1, g1)" by (cases r) auto
    note g1 = setenv_console_env [OF 1]
    show ?thesis
    proof (cases b1)
      case False
      with 1 g1 find assms show ?thesis by (auto simp: setenv_delete_def)
    next
      case b1: True
      show ?thesis
      proof (cases "setenv_baudrate n vs g1")
        case None
        then have "vs = []" "n = ascii ''baudrate''"
          by (auto simp: setenv_baudrate_def Let_def split: if_splits list.splits)
        with None 1 b1 find True assms(1) show ?thesis by (simp add: setenv_delete_def)
      next
        case (Some r')
        then obtain b2 g2 where 2: "setenv_baudrate n vs g1 = Some (b2, g2)" by (cases r') auto
        with setenv_baudrate_env [OF 2] 1 b1 g1 find bs assms show ?thesis
          by (cases b2) (auto simp: setenv_delete_def)
      qed
    qed
  qed
next
  case False
  then show ?thesis
    using env_find_not_found [OF assms(2,3) False] without_absent [OF False] assms
    by (auto simp: setenv_delete_def)
qed

lemma setenv_delete_no_baudrate:
  assumes "relocated g" "holds (env_block g) es" "ascii ''baudrate'' \<in> set (map entry_name es)"
  shows "setenv_delete argc (ascii ''baudrate'') [] g = None"
proof -
  have "env_name (ascii ''baudrate'')" "console_file (ascii ''baudrate'') = None"
    by (simp_all add: env_name_def console_file_def)
  with setenv_delete_present [OF assms(1,2) _ assms(3)] assms(1) show ?thesis
    by (auto simp: setenv_delete_def setenv_console_def setenv_baudrate_def)
qed

lemma do_setenv_rest:
  assumes del: "setenv_delete (2 + length vs) n vs g = Some (b, g1)"
    and g1: "relocated g1" "ENV_SIZE g1 = ENV_SIZE g" "holds (env_block g1) (if b then without n es else es)"
    and ok: "env_name n" "\<forall>v\<in>set vs. 0 \<notin> set v"
  shows "\<exists>r g'. do_setenv (n # vs) g = Some (r, g') \<and> relocated g' \<and> ENV_SIZE g' = ENV_SIZE g \<and>
    (\<exists>es'. holds (env_block g') es')"
proof -
  have no_eq: "0x3D \<notin> set n" using ok(1) by (simp add: env_name_def)
  show ?thesis
  proof (cases "b \<and> vs \<noteq> []")
    case True
    then have vs: "vs \<noteq> []" and h: "holds (env_block g1) (without n es)" and d: "setenv_delete (2 + length vs) n vs g = Some (True, g1)"
      using g1 del by simp_all
    from setenv_append_holds [OF g1(1) h ok(1) without_names vs ok(2)] obtain b' g2
      where "setenv_append n vs g1 = Some (b', g2)" "relocated g2" "ENV_SIZE g2 = ENV_SIZE g1"
        "\<exists>es'. holds (env_block g2) es'"
      using g1(1) h by (fastforce split: if_splits)
    then show ?thesis
      using no_eq d g1(2) vs by (cases b') (simp_all add: do_setenv_main_def)
  next
    case False
    then show ?thesis
      using no_eq del g1 by (cases b) (auto simp: do_setenv_main_def)
  qed
qed



section \<open>Sequences of commands\<close>

text \<open>
  A store of variables as its clients see it: \<^verbatim>\<open>put\<close> sets a variable, or removes it when there is no value, and
  tells whether it did; a refused value leaves the variable unset.
\<close>

locale variable_store =
  fixes ok :: "'s \<Rightarrow> bool"
    and look :: "'s \<Rightarrow> 'k \<Rightarrow> 'v option"
    and put :: "'k \<Rightarrow> 'v option \<Rightarrow> 's \<Rightarrow> bool \<times> 's"
    and key :: "'k \<Rightarrow> bool"
    and val :: "'v \<Rightarrow> bool"
  assumes put_ok: "ok s \<Longrightarrow> key k \<Longrightarrow> pred_option val v \<Longrightarrow> ok (snd (put k v s))"
    and put_look: "ok s \<Longrightarrow> key k \<Longrightarrow> pred_option val v \<Longrightarrow> key k' \<Longrightarrow>
      look (snd (put k v s)) k' = (if k' = k then (if fst (put k v s) then v else None) else look s k')"
begin

definition run :: "('k \<times> 'v option) list \<Rightarrow> 's \<Rightarrow> 's" where
  "run cs s = fold (\<lambda>(k, v). snd \<circ> put k v) cs s"

lemma run_simps [simp]:
  "run [] s = s" "run ((k, v) # cs) s = run cs (snd (put k v s))" "run (cs @ ds) s = run ds (run cs s)"
  by (simp_all add: run_def)

lemma run_ok:
  "ok s \<Longrightarrow> \<forall>(k, v)\<in>set cs. key k \<and> pred_option val v \<Longrightarrow> ok (run cs s)"
  by (induction cs arbitrary: s) (auto simp: put_ok)

lemma run_frame:
  "ok s \<Longrightarrow> \<forall>(k, v)\<in>set cs. key k \<and> pred_option val v \<Longrightarrow> key k' \<Longrightarrow> k' \<notin> fst ` set cs \<Longrightarrow>
    look (run cs s) k' = look s k'"
  by (induction cs arbitrary: s) (auto simp: put_ok put_look)

text \<open>The last command on a variable decides.\<close>

lemma run_last:
  assumes "ok s" "\<forall>(k, v)\<in>set (cs @ (k, v) # ds). key k \<and> pred_option val v" "k \<notin> fst ` set ds"
  shows "look (run (cs @ (k, v) # ds) s) k = (if fst (put k v (run cs s)) then v else None)"
proof -
  let ?s = "run cs s"
  have s: "ok ?s" using assms run_ok by auto
  have "look (run ds (snd (put k v ?s))) k = look (snd (put k v ?s)) k"
    using assms s by (intro run_frame) (auto simp: put_ok)
  then show ?thesis using assms s put_look [of ?s k v k] by simp
qed

end

definition env_ok :: "uboot \<Rightarrow> bool" where
  "env_ok g \<longleftrightarrow> relocated g \<and> (\<exists>es. holds (env_block g) es)"

definition env_look :: "uboot \<Rightarrow> u8 list \<Rightarrow> u8 list option" where
  "env_look g n = (case getenv g n of None \<Rightarrow> None | Some v \<Rightarrow> v)"

text \<open>The call \<^verbatim>\<open>setenv(name, value)\<close>, with the value returned by the function behind it.\<close>

definition env_set :: "u8 list \<Rightarrow> u8 list option \<Rightarrow> uboot \<Rightarrow> bool \<times> uboot" where
  "env_set n v g =
    (case do_setenv_main 3 n (case v of None \<Rightarrow> [] | Some v \<Rightarrow> [v]) g of
       None \<Rightarrow> (False, g) | Some (r, g') \<Rightarrow> (r = 0, g'))"

lemma env_set_holds:
  assumes "env_ok g" "plain_name n" "pred_option (\<lambda>v. 0 \<notin> set v) v"
  shows "setenv n v g = Some (snd (env_set n v g))" "env_ok (snd (env_set n v g))"
    "env_name m \<Longrightarrow> env_look (snd (env_set n v g)) m =
      (if m = n then (if fst (env_set n v g) then v else None) else env_look g m)"
proof -
  let ?vs = "case v of None \<Rightarrow> [] | Some v \<Rightarrow> [v]"
  from assms(1) obtain es where g: "relocated g" "holds (env_block g) es" by (auto simp: env_ok_def)
  have vs: "\<forall>v\<in>set ?vs. 0 \<notin> set v" using assms(3) by (cases v) auto
  from do_setenv_main_holds [OF g assms(2) vs, of 3] obtain g'
    where g': "do_setenv_main 3 n ?vs g = Some (if ?vs = [] \<or> fits g es n ?vs then 0 else 1, g')"
      "relocated g'" "holds (env_block g') (env_after g es n ?vs)" by auto
  then have set: "env_set n v g = (?vs = [] \<or> fits g es n ?vs, g')"
    by (simp add: env_set_def)
  show "setenv n v g = Some (snd (env_set n v g))"
    using g' set by (simp add: setenv_def)
  show "env_ok (snd (env_set n v g))"
    using g' set by (auto simp: env_ok_def)
  assume "env_name m"
  then show "env_look (snd (env_set n v g)) m =
      (if m = n then (if fst (env_set n v g) then v else None) else env_look g m)"
    using g' g set assms(2) getenv_holds [of g' "env_after g es n ?vs" m] getenv_holds [of g es m]
    by (cases v) (simp_all add: env_look_def env_map_after plain_name_def)
qed

interpretation environment: variable_store env_ok env_look env_set plain_name "\<lambda>v. 0 \<notin> set v"
  by unfold_locales (use env_set_holds in \<open>auto simp: plain_name_def\<close>)

primrec setenvs :: "(u8 list \<times> u8 list option) list \<Rightarrow> uboot \<Rightarrow> uboot option" where
  "setenvs [] g = Some g"
| "setenvs (c # cs) g = Option.bind (setenv (fst c) (snd c) g) (setenvs cs)"

lemma setenvs_run:
  assumes "env_ok g" "\<forall>(n, v)\<in>set cs. plain_name n \<and> pred_option (\<lambda>v. 0 \<notin> set v) v"
  shows "setenvs cs g = Some (environment.run cs g)"
  using assms by (induction cs arbitrary: g) (auto simp: env_set_holds)

text \<open>
  Any sequence of calls \<^verbatim>\<open>setenv(name, value)\<close> returns and leaves a well-formed block; afterwards a
  variable that no call names reads as before, and one that is named reads as the last call on it left it: the
  value of that call, or nothing when the call deleted the variable or found no room.
\<close>

theorem setenv_sequences:
  assumes "env_ok g" "\<forall>(n, v)\<in>set cs. plain_name n \<and> pred_option (\<lambda>v. 0 \<notin> set v) v" "plain_name m"
  shows "\<exists>g'. setenvs cs g = Some g' \<and> env_ok g' \<and>
    (m \<notin> fst ` set cs \<longrightarrow> env_look g' m = env_look g m) \<and>
    (\<forall>as v bs. cs = as @ (m, v) # bs \<and> m \<notin> fst ` set bs \<longrightarrow>
      (\<exists>h. setenvs as g = Some h \<and> env_look g' m = (if fst (env_set m v h) then v else None)))"
proof -
  have run: "setenvs cs g = Some (environment.run cs g)" "env_ok (environment.run cs g)"
    using assms setenvs_run environment.run_ok by auto
  have "setenvs as g = Some (environment.run as g) \<and>
      env_look (environment.run cs g) m = (if fst (env_set m v (environment.run as g)) then v else None)"
    if "cs = as @ (m, v) # bs" "m \<notin> fst ` set bs" for as v bs
    using assms(1,2) that(2) setenvs_run [of g as] environment.run_last [of g as m v bs]
    unfolding that(1) by auto
  then show ?thesis
    using run environment.run_frame [OF assms] by blast
qed

theorem setenv_sequences_witness:
  "\<exists>g'. setenvs [(ascii ''a'', None)] sample_uboot = Some g' \<and>
    env_look g' (ascii ''b'') = env_look sample_uboot (ascii ''b'')"
proof -
  have "env_ok sample_uboot" using sample_ok by (auto simp: env_ok_def)
  from setenv_sequences [OF this _ sample_names(2), of "[(ascii ''a'', None)]"] show ?thesis
    using sample_names by auto
qed

end
