(* ===== verification/Uboot_Boot_Spec.thy ===== *)
theory Uboot_Boot_Spec
  imports Uboot_Env_Spec
begin

text \<open>
  Reading the environment into a buffer and printing it, and the stored copy: what a saved environment
  gives after the next boot, what a damaged one gives, and what happens to it when a variable did not fit.
\<close>

section \<open>Copying a value out\<close>

lemma getenv_copy_value:
  assumes "0 \<notin> set v" "length dn \<le> len" "len < length dn + length rest"
  shows "getenv_copy (pre @ v @ 0 # r) len (dn @ rest) (length dn) (length dn) (length pre) =
    (if length dn + length v < len
     then (length dn + length v + 1, length dn + length v + 1, dn @ v @ 0 # drop (Suc (length v)) rest)
     else (len + 1, len, dn @ take (len - length dn) v @ drop (len - length dn) rest))"
  using assms
proof (induction v arbitrary: pre dn rest)
  case Nil
  then show ?case
    by (cases rest) (subst getenv_copy.simps; auto simp: nth_append list_update_append)+
next
  case (Cons c v)
  show ?case
  proof (cases "length dn < len")
    case True
    then obtain y rest' where rest: "rest = y # rest'"
      using Cons.prems by (cases rest) auto
    have "getenv_copy (pre @ (c # v) @ 0 # r) len (dn @ rest) (length dn) (length dn) (length pre) =
        getenv_copy ((pre @ [c]) @ v @ 0 # r) len ((dn @ [c]) @ rest') (length (dn @ [c])) (length (dn @ [c])) (length (pre @ [c]))"
      using True Cons.prems rest
      by (subst getenv_copy.simps) (auto simp: nth_append list_update_append)
    also have "\<dots> = (if length (dn @ [c]) + length v < len
     then (length (dn @ [c]) + length v + 1, length (dn @ [c]) + length v + 1, (dn @ [c]) @ v @ 0 # drop (Suc (length v)) rest')
     else (len + 1, len, (dn @ [c]) @ take (len - length (dn @ [c])) v @ drop (len - length (dn @ [c])) rest'))"
      using Cons.prems True rest by (intro Cons.IH) auto
    finally show ?thesis
      using True rest by (auto simp: take_Cons' drop_Cons')
  next
    case False
    with Cons.prems have "len = length dn" by simp
    then show ?thesis by (subst getenv_copy.simps) simp
  qed
qed

lemma env_find_value:
  assumes "holds bs es" "env_name n"
  shows "env_map es n = None \<Longrightarrow> env_find bs n 0 = Not_found"
    "env_map es n = Some v \<Longrightarrow> \<exists>pre r e. bs = pre @ v @ 0 # r \<and> 0 \<notin> set v \<and>
      env_find bs n 0 = Entry e (length pre + length v) (length pre)"
proof -
  show "env_map es n = None \<Longrightarrow> env_find bs n 0 = Not_found"
    using env_find_not_found [OF assms] env_map_none by blast
  assume v: "env_map es n = Some v"
  then have "n \<in> set (map entry_name es)"
    using env_map_none [of es n] by auto
  with holds_entries(2) [OF assms(1)] obtain as e cs
    where es: "es = as @ e # cs" "entry_name e = n" "n \<notin> set (map entry_name as)"
    by (rule entry_member_split)
  with holds_entries(1) [OF assms(1)] have wf: "list_all env_entry as" "env_entry e" by auto
  have val: "entry_value e = v"
    using env_map_entry holds_entries(2) [OF assms(1)] v unfolding es(1) es(2) [symmetric] by fastforce
  then have e: "e = n @ 0x3D # v" using entry_split [OF wf(2)] es(2) by simp
  from assms(1) obtain r where r: "bs = flat as @ e @ 0 # flat cs @ 0 # r"
    by (rule holds_split) (simp add: es)
  have "0 \<notin> set v" using wf(2) e by (simp add: env_entry_def)
  then show "\<exists>pre r e. bs = pre @ v @ 0 # r \<and> 0 \<notin> set v \<and> env_find bs n 0 = Entry e (length pre + length v) (length pre)"
    using env_find_present [OF wf assms(2) es(3,2), of "flat cs @ 0 # r"] r e
    by (intro exI [of _ "flat as @ n @ [0x3D]"] exI [of _ "flat cs @ 0 # r"] exI [of _ "length (flat as)"]) simp
qed

text \<open>
  What \<^verbatim>\<open>getenv_r\<close> leaves in memory.  \<^verbatim>\<open>mem\<close> is the buffer of \<^verbatim>\<open>len\<close> bytes and the memory after it.
  A value that leaves a byte to spare is copied with its NUL.  A value that fits exactly is copied with its
  NUL, and a second NUL is written to the byte after the buffer.  A longer value fills the buffer
  without a NUL, and the count returned is larger than the buffer.
\<close>

theorem getenv_r_memory:
  assumes "relocated g" "holds (env_block g) es" "env_name n" "len < length mem"
  shows "getenv_r g n mem len =
    (case env_map es n of
       None \<Rightarrow> Some (-1, mem)
     | Some v \<Rightarrow>
         if length v + 1 < len then Some (int (length v) + 1, v @ 0 # drop (length v + 1) mem)
         else if length v + 1 = len then Some (int len, v @ 0 # 0 # drop (len + 1) mem)
         else Some (int len + 1, take len v @ drop len mem))"
proof (cases "env_map es n")
  case None
  then show ?thesis
    using env_find_value(1) [OF assms(2,3)] assms(1) by (simp add: getenv_r_def)
next
  case (Some v)
  from env_find_value(2) [OF assms(2,3) Some] obtain pre r e
    where v: "env_block g = pre @ v @ 0 # r" "0 \<notin> set v" "env_find (env_block g) n 0 = Entry e (length pre + length v) (length pre)"
    by blast
  have copy: "getenv_copy (env_block g) len mem 0 0 (length pre) =
    (if length v < len then (length v + 1, length v + 1, v @ 0 # drop (Suc (length v)) mem)
     else (len + 1, len, take len v @ drop len mem))"
    using getenv_copy_value [OF v(2), of "[]" len mem pre r] assms(4) v(1) by simp
  have update: "(v @ 0 # drop (Suc (length v)) mem)[Suc (length v) := 0] = v @ 0 # 0 # drop (len + 1) mem"
    if "length v + 1 = len"
  proof -
    from assms(4) that obtain y t where "drop (Suc (length v)) mem = y # t"
      by (cases "drop (Suc (length v)) mem") auto
    moreover from this have "drop (len + 1) mem = t"
      using that by (metis add.commute drop_Suc_Cons drop_drop drop0 plus_1_eq_Suc One_nat_def)
    ultimately show ?thesis by (simp add: list_update_append)
  qed
  show ?thesis
    using copy update v(3) assms(1) Some by (auto simp: getenv_r_def)
qed

theorem getenv_r_memory_witness:
  "getenv_r sample_uboot (ascii ''b'') [1, 2, 3, 4] 3 = Some (3, [0x32, 0x32, 0, 0])"
proof -
  have "env_map sample_entries (ascii ''b'') = Some [0x32, 0x32]"
    by (simp add: env_map_def sample_entries_def entry_name_def entry_value_def)
  with getenv_r_memory [OF sample_ok(1,2), of "ascii ''b''" 3 "[1, 2, 3, 4]"] sample_names show ?thesis
    by (simp add: plain_name_def)
qed

section \<open>Printing\<close>

lemma printenv_all_entries:
  assumes "list_all env_entry es"
  shows "printenv_all (\<lambda>k. False) sz (pre @ flat es @ 0 # r) (length pre) k =
    Some (0, map Line es @ [Size (length (pre @ flat es)) sz])"
  using assms
proof (induction es arbitrary: pre k)
  case Nil
  then show ?case by (subst printenv_all.simps) simp
next
  case (Cons e es)
  then have e: "0 \<notin> set e" "e \<noteq> []" by (auto simp: env_entry_def)
  then have byte: "(pre @ e @ 0 # flat es @ 0 # r) ! length pre \<noteq> 0" by (cases e) auto
  from Cons.IH [of "pre @ e @ [0]" "Suc k"] Cons.prems byte e(2)
    entry_end_entry [OF e(1), of pre "flat es @ 0 # r"]
  show ?case by (subst printenv_all.simps) simp
qed

text \<open>
  \<^verbatim>\<open>printenv\<close> without arguments and without an interruption prints every variable once, in the order of
  the block, and then the number of bytes in use; it returns 0.  With names it prints the value of each variable
  that exists and an error for each that does not, and returns the number of errors.
\<close>

theorem printenv_lists:
  assumes "relocated g" "holds (env_block g) es" "list_all env_name names"
  shows "do_printenv (\<lambda>k. False) names g =
    (if names = [] then Some (0, map Line es @ [Size (length (flat es)) (ENV_SIZE g)])
     else Some (int (length (filter (\<lambda>n. env_map es n = None) names)),
       map (\<lambda>n. case env_map es n of None \<Rightarrow> Not_defined n | Some v \<Rightarrow> Line (n @ 0x3D # v)) names))"
proof -
  have "printenv_names (env_block g) names =
      Some (int (length (filter (\<lambda>n. env_map es n = None) names)),
        map (\<lambda>n. case env_map es n of None \<Rightarrow> Not_defined n | Some v \<Rightarrow> Line (n @ 0x3D # v)) names)"
    using assms(3)
  proof (induction names)
    case (Cons n names)
    then have n: "env_name n" by simp
    show ?case
    proof (cases "env_map es n")
      case None
      with Cons env_find_value(1) [OF assms(2) n] show ?thesis by simp
    next
      case (Some v)
      with env_find_value(2) [OF assms(2) n] obtain pre r e
        where "env_block g = pre @ v @ 0 # r" "env_find (env_block g) n 0 = Entry e (length pre + length v) (length pre)"
        by blast
      with Cons Some show ?thesis by simp
    qed
  qed simp
  moreover obtain r where "env_block g = flat es @ 0 # r"
    using assms(2) by (rule holds_split)
  then have "printenv_all (\<lambda>k. False) (ENV_SIZE g) (env_block g) 0 0 = Some (0, map Line es @ [Size (length (flat es)) (ENV_SIZE g)])"
    using printenv_all_entries [OF holds_entries(1) [OF assms(2)], of "ENV_SIZE g" "[]"] by simp
  ultimately show ?thesis
    using assms(1) by (simp add: do_printenv_def)
qed

theorem printenv_lists_witness:
  "do_printenv (\<lambda>k. False) [] sample_uboot = Some (0, [Line (ascii ''a=1''), Line (ascii ''b=22''), Size 9 13])"
  using printenv_lists [OF sample_ok(1,2), of "[]"] by (simp add: sample_ok(3) sample_entries_def)

section \<open>The stored environment\<close>

text \<open>What the boot loader relies on: a block written completely and without error is read back.\<close>

definition reads_back :: "('f \<Rightarrow> env_t \<Rightarrow> int \<times> nat \<times> 'f) \<Rightarrow> ('f \<Rightarrow> int \<times> nat \<times> env_t) \<Rightarrow> bool" where
  "reads_back nand_write nand_read \<longleftrightarrow>
    (\<forall>f img total f'. nand_write f img = (0, total, f') \<and> total = length (env_data img) + 4 \<longrightarrow>
      nand_read f' = (0, total, img))"

definition default_data :: "u8 list \<Rightarrow> nat \<Rightarrow> u8 list" where
  "default_data ds sz = ds @ replicate (sz - length ds) 0"

lemma saveenv_stores:
  assumes "reads_back nand_write nand_read" "saveenv nand_erase nand_write g flash = (0, flash')"
  shows "nand_read flash' = (0, ENV_SIZE g + 4, env_ptr g)"
  using assms by (auto simp: saveenv_def reads_back_def Let_def split: prod.splits if_splits)

lemma boot_reads:
  assumes "nand_read flash = (0, length (env_data img) + 4, img)"
  shows "crc_ok img \<Longrightarrow> env_relocate nand_read flash blk (env_init h) =
      Some (h\<lparr>env_ptr := img, env_valid := 1, env_addr := At_ptr\<rparr>)"
    "\<not> crc_ok img \<Longrightarrow> length (default_environment h) \<le> length (env_data img) \<Longrightarrow>
      \<exists>h'. env_relocate nand_read flash blk (env_init h) = Some h' \<and> relocated h' \<and> crc_ok (env_ptr h') \<and>
        env_block h' = default_data (default_environment h) (length (env_data img))"
  using assms
  by (auto simp: env_relocate_def env_relocate_spec_def env_init_def crc_ok_def Let_def use_default_def
      relocated_def default_block_def default_data_def)

text \<open>
  C31: a variable that \<^verbatim>\<open>setenv\<close> has stored and a \<^verbatim>\<open>saveenv\<close> without error has written is there after the
  next boot, and so is every other variable: the boot accepts the checksum, and \<^verbatim>\<open>getenv\<close> then gives the new
  value for that name and for every other name what it gave before.  The NAND driver is assumed to read
  back what it wrote.
\<close>

theorem saved_variable_survives_reboot:
  assumes "relocated g" "holds (env_block g) es" "plain_name n" "\<forall>v\<in>set vs. 0 \<notin> set v"
    "vs \<noteq> []" "fits g es n vs" "reads_back nand_write nand_read"
  shows "\<exists>g'. do_setenv (n # vs) g = Some (0, g') \<and>
    (\<forall>flash flash' blk h. saveenv nand_erase nand_write g' flash = (0, flash') \<longrightarrow>
      (\<exists>h'. env_relocate nand_read flash' blk (env_init h) = Some h' \<and>
        (\<forall>m. env_name m \<longrightarrow> getenv h' m = (if m = n then Some (Some (joined vs)) else getenv g m))))"
proof -
  obtain g' where g': "do_setenv (n # vs) g = Some (0, g')" "relocated g'"
    "holds (env_block g') (env_after g es n vs)" "crc_ok (env_ptr g')"
    using do_setenv_holds [OF assms(1-4)] assms(5,6) by auto
  have "\<exists>h'. env_relocate nand_read flash' blk (env_init h) = Some h' \<and>
      (\<forall>m. env_name m \<longrightarrow> getenv h' m = (if m = n then Some (Some (joined vs)) else getenv g m))"
    if "saveenv nand_erase nand_write g' flash = (0, flash')" for flash flash' blk h
  proof -
    let ?h = "h\<lparr>env_ptr := env_ptr g', env_valid := 1, env_addr := At_ptr\<rparr>"
    have "env_relocate nand_read flash' blk (env_init h) = Some ?h"
      by (rule boot_reads(1)) (simp_all add: saveenv_stores [OF assms(7) that] g'(4))
    moreover have "getenv ?h m = (if m = n then Some (Some (joined vs)) else getenv g m)" if "env_name m" for m
    proof -
      have "holds (env_get_addr ?h) (env_after g es n vs)"
        using g'(3) by (simp add: env_get_addr_def)
      then show ?thesis
        using that assms getenv_holds [of ?h "env_after g es n vs" m] getenv_holds [of g es m]
        by (simp add: env_map_after plain_name_def)
    qed
    ultimately show ?thesis by blast
  qed
  with g'(1) show ?thesis by blast
qed

text \<open>A flash that works: its contents is the stored image.\<close>

definition good_write :: "env_t \<Rightarrow> env_t \<Rightarrow> int \<times> nat \<times> env_t" where
  "good_write f img = (0, length (env_data img) + 4, img)"

definition good_read :: "env_t \<Rightarrow> int \<times> nat \<times> env_t" where
  "good_read f = (0, length (env_data f) + 4, f)"

lemma good_reads_back: "reads_back good_write good_read"
  by (simp add: reads_back_def good_write_def good_read_def)

theorem saved_variable_survives_reboot_witness:
  "\<exists>g' h'. do_setenv [ascii ''a'', ascii ''33''] sample_uboot = Some (0, g') \<and>
    env_relocate good_read (env_ptr g') (env_ptr sample_uboot) (env_init sample_uboot) = Some h' \<and>
    getenv h' (ascii ''a'') = Some (Some (ascii ''33''))"
proof -
  have fits: "fits sample_uboot sample_entries (ascii ''a'') [ascii ''33'']"
    by (simp add: fits_def sample_ok(3) sample_entries_def without_def entry_name_def new_entry_def)
  have "saveenv (\<lambda>f. (0, f)) good_write g' f = (0, env_ptr g')" for g' f
    by (simp add: saveenv_def good_write_def)
  with saved_variable_survives_reboot
      [OF sample_ok(1,2) sample_names(1) _ _ fits good_reads_back, of "\<lambda>f. (0, f)"] sample_names(1)
  show ?thesis by (fastforce simp: plain_name_def)
qed

text \<open>
  C32: a stored environment with one damaged data byte is never used.  When the block was saved with its right
  checksum and the flash gives it back with exactly one byte of the data changed, the boot falls back to the
  default environment: no variable of the damaged block becomes visible.
\<close>

theorem damaged_environment_rejected:
  assumes "crc_ok img" "i < length (env_data img)" "b \<noteq> env_data img ! i"
    "nand_read flash = (0, length (env_data img) + 4, img\<lparr>env_data := (env_data img)[i := b]\<rparr>)"
    "length (default_environment h) \<le> length (env_data img)"
  shows "\<exists>h'. env_relocate nand_read flash blk (env_init h) = Some h' \<and> relocated h' \<and> crc_ok (env_ptr h') \<and>
    env_block h' = default_data (default_environment h) (length (env_data img))"
proof -
  have "crc32 0 (env_data img) \<noteq> crc32 0 ((env_data img)[i := b])"
    using crc32_detects_byte_error [OF assms(3) [symmetric], of 0 "take i (env_data img)" "drop (Suc i) (env_data img)"]
      assms(2) by (simp add: id_take_nth_drop [symmetric] upd_conv_take_nth_drop)
  then have "\<not> crc_ok (img\<lparr>env_data := (env_data img)[i := b]\<rparr>)"
    using assms(1) by (simp add: crc_ok_def)
  with boot_reads(2) [of nand_read flash "img\<lparr>env_data := (env_data img)[i := b]\<rparr>" h blk] assms(4,5) show ?thesis
    by simp
qed

theorem damaged_environment_rejected_witness:
  "\<exists>h'. env_relocate (\<lambda>f. (0, 17, (env_ptr sample_uboot)\<lparr>env_data := sample_block[2 := 0x39]\<rparr>)) ()
      (env_ptr sample_uboot) (env_init sample_uboot) = Some h' \<and>
    env_block h' = default_data (ascii ''d=4'' @ [0, 0]) 13"
  using damaged_environment_rejected [OF sample_ok(4), of 2 "0x39"
      "\<lambda>f. (0, 17, (env_ptr sample_uboot)\<lparr>env_data := sample_block[2 := 0x39]\<rparr>)" "()" sample_uboot "env_ptr sample_uboot"]
  by (simp add: sample_ok(3)) (auto simp: sample_uboot_def sample_block_def)

section \<open>A variable that does not fit\<close>

lemma setenv_overflow_block:
  assumes "relocated g" "holds (env_block g) (as @ [e])" "as \<noteq> []" "entry_name e = n" "plain_name n"
    "\<forall>v\<in>set vs. 0 \<notin> set v" "vs \<noteq> []" "\<not> fits g (as @ [e]) n vs"
  shows "do_setenv (n # vs) g = Some (1, with_block ((env_block g)[length (flat as) := 0]) g)"
proof -
  have n: "env_name n" "0x3D \<notin> set n" using assms(5) by (auto simp: plain_name_def env_name_def)
  have wf: "list_all env_entry as" "env_entry e" "n \<notin> set (map entry_name as)"
    using assms(2,4) by (auto simp: holds_def)
  from assms(2) obtain r where bs: "env_block g = flat as @ e @ 0 # 0 # r" by (rule holds_split) simp
  have find: "env_find (env_block g) n 0 =
      Entry (length (flat as)) (length (flat as) + length e) (length (flat as) + length n + 1)"
    unfolding bs using env_find_present [OF wf(1,2) n(1) wf(3) assms(4)] by blast
  have "env_block g ! Suc (length (flat as) + length e) = 0"
    using nth_append_length [of "flat as @ e @ [0]" 0 r] by (simp add: bs)
  moreover have "0 < length (flat as)" using flat_block(2) [OF wf(1) assms(3)] by simp
  ultimately have del: "env_delete (env_block g) (length (flat as)) (length (flat as) + length e) =
      Some ((env_block g)[length (flat as) := 0])"
    by (simp add: env_delete_def bs)
  let ?bs = "(env_block g)[length (flat as) := 0]"
  obtain c e' where "e = c # e'" using wf(2) by (cases e) auto
  then have h: "holds ?bs as"
    using assms(2,3) bs by (intro holdsI [where r = "e' @ 0 # 0 # r"]) (auto simp: holds_def list_update_append)
  have "setenv_delete (2 + length vs) n vs g = Some (True, with_block ?bs g)"
    using find del assms(1,5) by (simp add: setenv_delete_def setenv_console_def setenv_baudrate_def plain_name_def)
  moreover have "without n (as @ [e]) = as"
    using without_split [of as e "[]"] assms(2,4) by (simp add: holds_def)
  then have "setenv_append n vs (with_block ?bs g) = Some (False, with_block ?bs g)"
    using setenv_append_holds [of "with_block ?bs g" as n vs] h assms(1,6,7,8) n(1) wf(3) by (simp add: fits_def)
  moreover have "\<not> 2 + length vs < 3" using assms(7) by (cases vs) auto
  ultimately show ?thesis
    using n(2) assms(7) by (simp add: do_setenv_main_def)
qed



end
