(* ===== verification/Uboot_Command.thy ===== *)
theory Uboot_Command
  imports Uboot_Boot_Spec
begin

text \<open>
  The command line of the boot loader: \<^verbatim>\<open>process_macros\<close>, \<^verbatim>\<open>parse_line\<close>, \<^verbatim>\<open>run_command\<close> and \<^verbatim>\<open>do_run\<close> of
  \<^verbatim>\<open>common/main.c\<close> with \<^verbatim>\<open>find_cmd\<close> of \<^verbatim>\<open>common/command.c\<close>.  A string is the list of its bytes without the
  terminating zero; \<^verbatim>\<open>parse_line\<close>, which cuts its argument in place, works on the bytes in memory.  \<^term>\<open>None\<close>
  stands for an access outside the buffer.  Shown here: what the expansion of variables gives on every
  line made of text, escaped characters, quotations and references, the arguments that a line is cut into, and
  that a typed \<^verbatim>\<open>setenv\<close> command changes the environment as it should.
\<close>

section \<open>Expansion of variables\<close>

definition CFG_CBSIZE :: nat where "CFG_CBSIZE = 256"
definition CFG_MAXARGS :: nat where "CFG_MAXARGS = 16"

text \<open>
  The switch in the loop of \<^verbatim>\<open>process_macros\<close>: from \<^verbatim>\<open>outputcnt\<close>, \<^verbatim>\<open>state\<close>, \<^verbatim>\<open>prev\<close>, the input since
  \<^verbatim>\<open>varname_start\<close> and the character to the new \<^verbatim>\<open>outputcnt\<close>, \<^verbatim>\<open>state\<close> and input since
  \<^verbatim>\<open>varname_start\<close>, and what is appended to the output.  A backslash is 92, a quote 39, a dollar sign 36.
\<close>

definition macro_step ::
  "uboot \<Rightarrow> nat \<Rightarrow> nat \<Rightarrow> u8 \<Rightarrow> u8 list \<Rightarrow> u8 \<Rightarrow> (nat \<times> nat \<times> u8 list \<times> u8 list) option" where
  "macro_step g outputcnt state prev varname c =
     (if state = 0 then
        (if c = 39 \<and> prev \<noteq> 92 then Some (outputcnt, 3, varname, [])
         else if c = 36 \<and> prev \<noteq> 92 then Some (outputcnt, 1, varname, [])
         else Some (outputcnt - 1, 0, varname, [c]))
      else if state = 1 then
        (if c = 40 \<or> c = 123 then Some (outputcnt, 2, [], [])
         else if outputcnt - 1 \<noteq> 0 then Some (outputcnt - 2, 0, varname, [36, c])
         else Some (outputcnt - 1, 0, varname, [36]))
      else if state = 2 then
        (if c = 41 \<or> c = 125 then
           (case getenv g (butlast varname) of
              None \<Rightarrow> None
            | Some None \<Rightarrow> Some (outputcnt, 0, varname, [])
            | Some (Some envval) \<Rightarrow> Some (outputcnt - length (take outputcnt envval), 0, varname, take outputcnt envval))
         else Some (outputcnt, 2, varname, []))
      else
        (if c = 39 \<and> prev \<noteq> 92 then Some (outputcnt, 0, varname, [])
         else Some (outputcnt - 1, 3, varname, [c])))"

fun macro_loop :: "uboot \<Rightarrow> nat \<Rightarrow> nat \<Rightarrow> u8 \<Rightarrow> u8 list \<Rightarrow> u8 list \<Rightarrow> u8 list \<Rightarrow> (nat \<times> u8 list) option" where
  "macro_loop g outputcnt state prev varname output [] = Some (outputcnt, output)"
| "macro_loop g outputcnt state prev varname output (c # input) =
     (if outputcnt = 0 then Some (outputcnt, output)
      else if state \<noteq> 3 \<and> c = 92 \<and> prev \<noteq> 92 then
        (case input of
           [] \<Rightarrow> Some (outputcnt, output)
         | c' # input' \<Rightarrow>
             (case macro_step g outputcnt state c (varname @ [c, c']) c' of
                None \<Rightarrow> None
              | Some (n, s, v, out) \<Rightarrow> macro_loop g n s c' v (output @ out) input'))
      else
        (case macro_step g outputcnt state prev (varname @ [c]) c of
           None \<Rightarrow> None
         | Some (n, s, v, out) \<Rightarrow> macro_loop g n s c v (output @ out) input))"

text \<open>What is written into the output buffer, and whether a terminating zero is.\<close>

definition process_macros :: "uboot \<Rightarrow> u8 list \<Rightarrow> (u8 list \<times> bool) option" where
  "process_macros g input =
     (case macro_loop g CFG_CBSIZE 0 0 [] [] input of
        None \<Rightarrow> None
      | Some (outputcnt, output) \<Rightarrow> Some (output, outputcnt \<noteq> 0))"

section \<open>Arguments\<close>

definition white :: "u8 \<Rightarrow> bool" where
  "white c \<longleftrightarrow> c = 32 \<or> c = 9"

definition skip_white :: "u8 list \<Rightarrow> nat \<Rightarrow> nat option" where
  "skip_white mem p =
     (let q = p + length (takeWhile white (drop p mem)) in if q < length mem then Some q else None)"

definition arg_end :: "u8 list \<Rightarrow> nat \<Rightarrow> nat option" where
  "arg_end mem p =
     (let q = p + length (takeWhile (\<lambda>c. c \<noteq> 0 \<and> \<not> white c) (drop p mem)) in if q < length mem then Some q else None)"

text \<open>The positions of the arguments and the memory with the zeros written after them.\<close>

function parse_loop :: "u8 list \<Rightarrow> nat \<Rightarrow> nat list \<Rightarrow> (nat list \<times> u8 list) option" where
  "parse_loop mem line argv =
     (if \<not> length argv < CFG_MAXARGS then Some (argv, mem)
      else
        case skip_white mem line of
          None \<Rightarrow> None
        | Some start \<Rightarrow>
            if mem ! start = 0 then Some (argv, mem)
            else
              case arg_end mem start of
                None \<Rightarrow> None
              | Some stop \<Rightarrow>
                  if mem ! stop = 0 then Some (argv @ [start], mem)
                  else parse_loop (mem[stop := 0]) (Suc stop) (argv @ [start]))"
  by pat_completeness auto
termination
  by (relation "measure (\<lambda>(mem, line, argv). CFG_MAXARGS - length argv)") auto

declare parse_loop.simps [simp del]

definition parse_line :: "u8 list \<Rightarrow> (nat list \<times> u8 list) option" where
  "parse_line mem = parse_loop mem 0 []"

text \<open>The string at an address.\<close>

definition string_in :: "u8 list \<Rightarrow> nat \<Rightarrow> u8 list" where
  "string_in mem p = takeWhile (\<lambda>c. c \<noteq> 0) (drop p mem)"

section \<open>Commands\<close>

text \<open>
  An entry of the table of commands.  The function behind a command gets the flags and the arguments; it gives
  the value returned, whether the user has pressed control C, and the new state.
\<close>

record cmd_tbl =
  cmd_name :: "u8 list"
  cmd_maxargs :: nat
  cmd_repeatable :: bool
  cmd_is_bootd :: bool
  cmd_fun :: "u32 \<Rightarrow> u8 list list \<Rightarrow> uboot \<Rightarrow> (int \<times> bool \<times> uboot) option"

text \<open>\<^verbatim>\<open>strncmp\<close> on the first \<^verbatim>\<open>len\<close> characters of the word, which has at least as many.\<close>

fun find_loop :: "u8 list \<Rightarrow> cmd_tbl list \<Rightarrow> nat \<Rightarrow> cmd_tbl option \<Rightarrow> cmd_tbl option" where
  "find_loop word [] n_found found = (if n_found = 1 then found else None)"
| "find_loop word (c # tbl) n_found found =
     (if take (length word) (cmd_name c) = word then
        (if length word = length (cmd_name c) then Some c else find_loop word tbl (n_found + 1) (Some c))
      else find_loop word tbl n_found found)"

definition find_cmd :: "cmd_tbl list \<Rightarrow> u8 list \<Rightarrow> cmd_tbl option" where
  "find_cmd tbl cmd = find_loop (takeWhile (\<lambda>c. c \<noteq> 46) cmd) tbl 0 None"

definition CMD_FLAG_BOOTD :: u32 where "CMD_FLAG_BOOTD = 2"

text \<open>The loop that looks for a separator: a semicolon is 59.  \<^verbatim>\<open>prev\<close> is the character before.\<close>

fun find_sep :: "bool \<Rightarrow> bool \<Rightarrow> u8 \<Rightarrow> u8 list \<Rightarrow> nat" where
  "find_sep inquotes first prev [] = 0"
| "find_sep inquotes first prev (c # str) =
     (let inquotes' = (if c = 39 \<and> prev \<noteq> 92 then \<not> inquotes else inquotes)
      in if \<not> inquotes' \<and> c = 59 \<and> \<not> first \<and> prev \<noteq> 92 then 0
         else Suc (find_sep inquotes' False c str))"

text \<open>
  The body of the loop for one command: the value that \<^verbatim>\<open>rc\<close> is set to, if it is, whether
  \<^verbatim>\<open>repeatable\<close> is kept, control C, the flags and the state.  \<^verbatim>\<open>rest\<close> is what follows the expanded
  command in its buffer.
\<close>

definition run_token ::
  "cmd_tbl list \<Rightarrow> u32 \<Rightarrow> u8 list \<Rightarrow> u8 list \<Rightarrow> uboot \<Rightarrow> (bool \<times> bool \<times> bool \<times> u32 \<times> uboot) option" where
  "run_token tbl flag rest token g =
     (case process_macros g token of
        None \<Rightarrow> None
      | Some (finaltoken, terminated) \<Rightarrow>
          if \<not> terminated then None
          else
            case parse_line (finaltoken @ 0 # rest) of
              None \<Rightarrow> None
            | Some (args, mem) \<Rightarrow>
                let argv = map (string_in mem) args
                in if argv = [] then Some (True, True, False, flag, g)
                   else
                     case find_cmd tbl (hd argv) of
                       None \<Rightarrow> Some (True, True, False, flag, g)
                     | Some cmdtp \<Rightarrow>
                         if length argv > cmd_maxargs cmdtp then Some (True, True, False, flag, g)
                         else if cmd_is_bootd cmdtp \<and> flag AND CMD_FLAG_BOOTD \<noteq> 0 then Some (True, True, False, flag, g)
                         else
                           let flag' = (if cmd_is_bootd cmdtp then flag OR CMD_FLAG_BOOTD else flag)
                           in case cmd_fun cmdtp flag' argv g of
                                None \<Rightarrow> None
                              | Some (r, ctrlc, g') \<Rightarrow> Some (r \<noteq> 0, cmd_repeatable cmdtp, ctrlc, flag', g'))"

lemma find_sep_pos: "0 < find_sep q True p (c # s)"
  by (simp add: Let_def)

text \<open>
  The loop over the commands.  \<^verbatim>\<open>before\<close> is the byte before the rest of the line: the zero that
  was written over the last separator or, at the start, whatever is in memory before the buffer.
\<close>

function run_tokens ::
  "cmd_tbl list \<Rightarrow> u8 list \<Rightarrow> u32 \<Rightarrow> u8 \<Rightarrow> u8 list \<Rightarrow> bool \<Rightarrow> bool \<Rightarrow> uboot \<Rightarrow> (int \<times> uboot) option" where
  "run_tokens tbl rest flag before [] failed repeatable g =
     Some (if failed then - 1 else if repeatable then 1 else 0, g)"
| "run_tokens tbl rest flag before (c # str) failed repeatable g =
     (let sep = find_sep False True before (c # str)
      in case run_token tbl flag rest (take sep (c # str)) g of
           None \<Rightarrow> None
         | Some (bad, rep, ctrlc, flag', g') \<Rightarrow>
             if ctrlc then Some (0, g')
             else run_tokens tbl rest flag' 0 (drop (Suc sep) (c # str)) (failed \<or> bad) (repeatable \<and> rep) g')"
  by pat_completeness auto
termination
  by (relation "measure (\<lambda>(tbl, rest, flag, before, str, failed, repeatable, g). length str)") auto

text \<open>The command is null or the string; \<^verbatim>\<open>rest\<close> and \<^verbatim>\<open>before\<close> are what the memory of the function holds.\<close>

definition run_command ::
  "cmd_tbl list \<Rightarrow> u8 list \<Rightarrow> u8 \<Rightarrow> u32 \<Rightarrow> u8 list option \<Rightarrow> uboot \<Rightarrow> (int \<times> uboot) option" where
  "run_command tbl rest before flag cmd g =
     (case cmd of
        None \<Rightarrow> Some (- 1, g)
      | Some s \<Rightarrow>
          if s = [] then Some (- 1, g)
          else if CFG_CBSIZE \<le> length s then Some (- 1, g)
          else run_tokens tbl rest flag before s False True g)"

text \<open>The loop of \<^verbatim>\<open>do_run\<close> on top of some \<^verbatim>\<open>run_command\<close>, and the command with its arguments after the name.\<close>

fun run_loop :: "(u8 list option \<Rightarrow> uboot \<Rightarrow> (int \<times> uboot) option) \<Rightarrow> u8 list list \<Rightarrow> uboot \<Rightarrow> (int \<times> uboot) option" where
  "run_loop runner [] g = Some (0, g)"
| "run_loop runner (name # names) g =
     (case getenv g name of
        None \<Rightarrow> None
      | Some None \<Rightarrow> Some (1, g)
      | Some (Some arg) \<Rightarrow>
          (case runner (Some arg) g of
             None \<Rightarrow> None
           | Some (r, g') \<Rightarrow> if r = - 1 then Some (1, g') else run_loop runner names g'))"

definition do_run :: "(u8 list option \<Rightarrow> uboot \<Rightarrow> (int \<times> uboot) option) \<Rightarrow> u8 list list \<Rightarrow> uboot \<Rightarrow> (int \<times> uboot) option" where
  "do_run runner names g = (if names = [] then Some (1, g) else run_loop runner names g)"

section \<open>What the expansion gives\<close>

text \<open>A line as the user means it: text, escaped characters, quotations and references to variables.\<close>

datatype segment = Lit "u8 list" | Esc u8 | Quoted "u8 list" | Var "u8 list"

fun rendered :: "segment \<Rightarrow> u8 list" where
  "rendered (Lit s) = s"
| "rendered (Esc c) = [92, c]"
| "rendered (Quoted s) = 39 # s @ [39]"
| "rendered (Var n) = 36 # 123 # n @ [125]"

fun segment_ok :: "segment \<Rightarrow> bool" where
  "segment_ok (Lit s) \<longleftrightarrow> set s \<inter> {92, 39, 36} = {}"
| "segment_ok (Esc c) \<longleftrightarrow> c \<noteq> 92"
| "segment_ok (Quoted s) \<longleftrightarrow> set s \<inter> {92, 39} = {}"
| "segment_ok (Var n) \<longleftrightarrow> env_name n \<and> set n \<inter> {92, 41, 125} = {}"

fun meaning :: "uboot \<Rightarrow> segment \<Rightarrow> u8 list" where
  "meaning g (Lit s) = s"
| "meaning g (Esc c) = [c]"
| "meaning g (Quoted s) = s"
| "meaning g (Var n) = (case env_look g n of None \<Rightarrow> [] | Some v \<Rightarrow> v)"

lemma macro_zero [simp]: "macro_loop g 0 st p vn out inp = Some (0, out)"
  by (cases inp) auto

lemma take_drop_cnt: "0 < cnt \<Longrightarrow> take cnt (c # s) = c # take (cnt - 1) s"
  by (cases cnt) auto

lemma macro_steps:
  assumes "0 < cnt"
  shows macro_plain: "c \<notin> {92, 39, 36} \<Longrightarrow> p \<noteq> 92 \<Longrightarrow>
      macro_loop g cnt 0 p vn out (c # inp) = macro_loop g (cnt - 1) 0 c (vn @ [c]) (out @ [c]) inp"
    and macro_open: "p \<noteq> 92 \<Longrightarrow> macro_loop g cnt 0 p vn out (39 # inp) = macro_loop g cnt 3 39 (vn @ [39]) out inp"
    and macro_inside: "c \<noteq> 39 \<Longrightarrow>
      macro_loop g cnt 3 p vn out (c # inp) = macro_loop g (cnt - 1) 3 c (vn @ [c]) (out @ [c]) inp"
    and macro_close: "p \<noteq> 92 \<Longrightarrow> macro_loop g cnt 3 p vn out (39 # inp) = macro_loop g cnt 0 39 (vn @ [39]) out inp"
    and macro_dollar: "p \<noteq> 92 \<Longrightarrow>
      macro_loop g cnt 0 p vn out (36 # 123 # inp) = macro_loop g cnt 2 123 [] out inp"
    and macro_char: "c \<notin> {92, 41, 125} \<Longrightarrow> p \<noteq> 92 \<Longrightarrow>
      macro_loop g cnt 2 p vn out (c # inp) = macro_loop g cnt 2 c (vn @ [c]) out inp"
    and macro_escape: "p \<noteq> 92 \<Longrightarrow>
      macro_loop g cnt 0 p vn out (92 # c # inp) = macro_loop g (cnt - 1) 0 c (vn @ [92, c]) (out @ [c]) inp"
  using assms by (simp_all add: macro_step_def)

declare macro_loop.simps(2) [simp del]

lemma macro_literal:
  "set s \<inter> {92, 39, 36} = {} \<Longrightarrow> p \<noteq> 92 \<Longrightarrow>
   macro_loop g cnt 0 p vn out (s @ rest) =
     macro_loop g (cnt - length s) 0 (last (p # s)) (vn @ s) (out @ take cnt s) rest"
proof (induction s arbitrary: cnt p vn out)
  case (Cons c s)
  then show ?case
    using Cons.IH [of c "cnt - 1" "vn @ [c]" "out @ [c]"]
    by (cases "cnt = 0") (simp_all add: macro_plain take_drop_cnt)
qed simp

lemma macro_quoted:
  "39 \<notin> set s \<Longrightarrow>
   macro_loop g cnt 3 p vn out (s @ rest) =
     macro_loop g (cnt - length s) 3 (last (p # s)) (vn @ s) (out @ take cnt s) rest"
proof (induction s arbitrary: cnt p vn out)
  case (Cons c s)
  then show ?case
    using Cons.IH [of "cnt - 1" c "vn @ [c]" "out @ [c]"]
    by (cases "cnt = 0") (simp_all add: macro_inside take_drop_cnt)
qed simp

lemma macro_name:
  "set s \<inter> {92, 41, 125} = {} \<Longrightarrow> p \<noteq> 92 \<Longrightarrow>
   macro_loop g cnt 2 p vn out (s @ rest) = macro_loop g cnt 2 (last (p # s)) (vn @ s) out rest"
proof (induction s arbitrary: p vn)
  case (Cons c s)
  then show ?case
    using Cons.IH [of c "vn @ [c]"] by (cases "cnt = 0") (simp_all add: macro_char)
qed simp

lemma minus_min: "cnt - min n cnt = cnt - (n :: nat)"
  by (simp add: min_def)

lemma macro_value:
  assumes "0 < cnt" "p \<noteq> 92"
  shows "macro_loop g cnt 2 p n out (125 # inp) =
    (case getenv g n of
       None \<Rightarrow> None
     | Some v \<Rightarrow> let w = (case v of None \<Rightarrow> [] | Some w \<Rightarrow> w)
         in macro_loop g (cnt - length w) 0 125 (n @ [125]) (out @ take cnt w) inp)"
  using assms by (simp add: macro_loop.simps(2) macro_step_def Let_def minus_min split: option.splits)

lemma last_not_in: "p \<noteq> x \<Longrightarrow> x \<notin> set s \<Longrightarrow> last (p # s) \<noteq> x"
  using last_in_set [of s] by auto

lemma getenv_look:
  assumes "env_ok g" "env_name n"
  shows "getenv g n = Some (env_look g n)"
proof -
  obtain es where es: "holds (env_get_addr g) es"
    using assms(1) by (auto simp: env_ok_def relocated_env)
  show ?thesis
    using getenv_holds [OF es assms(2)] by (simp add: env_look_def)
qed

text \<open>One part of the line: afterwards the machine is again outside of everything.\<close>

lemma macro_segment:
  assumes "segment_ok seg" "env_ok g" "p \<noteq> 92"
  shows "\<exists>p' vn'. p' \<noteq> 92 \<and> macro_loop g cnt 0 p vn out (rendered seg @ rest) =
    macro_loop g (cnt - length (meaning g seg)) 0 p' vn' (out @ take cnt (meaning g seg)) rest"
proof (cases "cnt = 0")
  case True
  then show ?thesis using assms(3) by (intro exI [of _ p] exI [of _ vn]) simp
next
  case False
  then have cnt: "0 < cnt" by simp
  show ?thesis
  proof (cases seg)
    case (Lit s)
    then show ?thesis
      using macro_literal [of s p g cnt vn out rest] assms last_not_in [of p 92 s]
      by (intro exI [of _ "last (p # s)"] exI [of _ "vn @ s"]) simp
  next
    case (Esc c)
    then show ?thesis
      using macro_escape [OF cnt assms(3)] assms(1) cnt
      by (intro exI [of _ c] exI [of _ "vn @ [92, c]"]) (simp add: take_drop_cnt)
  next
    case (Quoted s)
    have "macro_loop g cnt 0 p vn out (rendered seg @ rest) =
        macro_loop g (cnt - length s) 3 (last (39 # s)) (vn @ 39 # s) (out @ take cnt s) (39 # rest)"
      using Quoted assms macro_quoted [of s g cnt 39 "vn @ [39]" out "39 # rest"] macro_open [OF cnt assms(3)] by simp
    also have "\<dots> = macro_loop g (cnt - length s) 0 39 (vn @ 39 # s @ [39]) (out @ take cnt s) rest"
      using Quoted assms(1) macro_close [of "cnt - length s" "last (39 # s)"] last_not_in [of 39 92 s]
      by (cases "cnt - length s = 0") auto
    finally show ?thesis
      using Quoted by (intro exI [of _ 39] exI [of _ "vn @ 39 # s @ [39]"]) simp
  next
    case (Var n)
    have "macro_loop g cnt 0 p vn out (rendered seg @ rest) = macro_loop g cnt 2 (last (123 # n)) n out (125 # rest)"
      using Var assms macro_name [of n 123 g cnt "[]" out "125 # rest"] macro_dollar [OF cnt assms(3)] by simp
    also have "\<dots> = macro_loop g (cnt - length (meaning g seg)) 0 125 (n @ [125]) (out @ take cnt (meaning g seg)) rest"
      using Var assms(1) macro_value [OF cnt, of "last (123 # n)"] last_not_in [of 123 92 n] getenv_look [OF assms(2), of n]
      by (simp add: Let_def)
    finally show ?thesis
      by (intro exI [of _ 125] exI [of _ "n @ [125]"]) simp
  qed
qed

lemma macro_segments:
  "list_all segment_ok segs \<Longrightarrow> env_ok g \<Longrightarrow> p \<noteq> 92 \<Longrightarrow>
   macro_loop g cnt 0 p vn out (concat (map rendered segs)) =
     Some (cnt - length (concat (map (meaning g) segs)), out @ take cnt (concat (map (meaning g) segs)))"
proof (induction segs arbitrary: cnt p vn out)
  case (Cons s segs)
  obtain p' vn' where "p' \<noteq> 92" "macro_loop g cnt 0 p vn out (rendered s @ concat (map rendered segs)) =
      macro_loop g (cnt - length (meaning g s)) 0 p' vn' (out @ take cnt (meaning g s)) (concat (map rendered segs))"
    using macro_segment [of s g p cnt vn out "concat (map rendered segs)"] Cons.prems by auto
  then show ?case
    using Cons by simp
qed simp

lemma process_macros_segments:
  assumes "list_all segment_ok segs" "env_ok g"
  shows "process_macros g (concat (map rendered segs)) =
    Some (take CFG_CBSIZE (concat (map (meaning g) segs)), length (concat (map (meaning g) segs)) < CFG_CBSIZE)"
  using macro_segments [OF assms, of 0 CFG_CBSIZE "[]" "[]"] by (auto simp: process_macros_def)

text \<open>C35: The expansion of variables replaces every reference by the value of the variable, or by nothing when there
  is none, and removes quotes and one level of backslashes; what stands in quotes or after a backslash is not
  looked at.  The result is cut at 256 bytes, and when it has 256 or more it is left without the zero that
  ends a string.\<close>

theorem process_macros_spec:
  assumes "list_all segment_ok segs" "env_ok g"
  defines "result \<equiv> concat (map (meaning g) segs)"
  shows "process_macros g (concat (map rendered segs)) = Some (take CFG_CBSIZE result, length result < CFG_CBSIZE)"
  unfolding result_def using assms(1,2) by (rule process_macros_segments)

lemma sample_look: "env_ok sample_uboot" "env_look sample_uboot (ascii ''b'') = Some (ascii ''22'')"
proof -
  show ok: "env_ok sample_uboot" using sample_ok(1,2) by (auto simp: env_ok_def)
  have "getenv sample_uboot (ascii ''b'') = Some (env_map sample_entries (ascii ''b''))"
    using sample_ok(1,2) sample_names(2) by (intro getenv_holds) (simp_all add: plain_name_def)
  moreover have "env_map sample_entries (ascii ''b'') = Some (ascii ''22'')"
    by (simp add: env_map_def sample_entries_def entry_name_def entry_value_def)
  ultimately show "env_look sample_uboot (ascii ''b'') = Some (ascii ''22'')"
    by (simp only: env_look_def option.case)
qed

theorem process_macros_spec_witness:
  "process_macros sample_uboot (ascii ''x=${b}'' @ [92, 36]) = Some (ascii ''x=22$'', True)"
proof -
  let ?segs = "[Lit (ascii ''x=''), Var (ascii ''b''), Esc 36]"
  have "list_all segment_ok ?segs" by (simp add: env_name_def)
  from process_macros_spec [OF this sample_look(1)] sample_look(2)
  show ?thesis by (simp add: CFG_CBSIZE_def)
qed

section \<open>What the arguments are\<close>

lemma white_zero [simp]: "\<not> white 0"
  by (simp add: white_def)

text \<open>The words of a line: the longest pieces without blanks and tabulators.\<close>

function words :: "u8 list \<Rightarrow> u8 list list" where
  "words s =
     (let t = dropWhile white s
      in if t = [] then [] else takeWhile (\<lambda>c. \<not> white c) t # words (dropWhile (\<lambda>c. \<not> white c) t))"
  by pat_completeness auto
termination
proof (relation "measure length")
  fix s t :: "u8 list"
  assume t: "t = dropWhile white s" "t \<noteq> []"
  then have "\<not> white (hd t)" using hd_dropWhile by blast
  then have "length (dropWhile (\<lambda>c. \<not> white c) t) < length t"
    using t(2) by (cases t) (auto simp: le_imp_less_Suc length_dropWhile_le)
  also have "length t \<le> length s"
    using t(1) by (simp add: length_dropWhile_le)
  finally show "(dropWhile (\<lambda>c. \<not> white c) t, s) \<in> measure length" by simp
qed simp

declare words.simps [simp del]

lemma words_Nil [simp]: "words [] = []"
  by (simp add: words.simps)

lemma words_white: "white c \<Longrightarrow> words (c # s) = words s"
  by (subst words.simps, subst (2) words.simps) simp

lemma takeWhile_stop: "\<not> P z \<Longrightarrow> takeWhile P (s @ z # r) = takeWhile P s"
  by (induction s) auto

lemma takeWhile_nonzero: "0 \<notin> set t \<Longrightarrow> takeWhile (\<lambda>c. c \<noteq> 0 \<and> \<not> white c) t = takeWhile (\<lambda>c. \<not> white c) t"
  by (induction t) auto

lemma string_in_at: "0 \<notin> set w \<Longrightarrow> string_in (pre @ w @ 0 # rest) (length pre) = w"
  by (simp add: string_in_def takeWhile_stop takeWhile_eq_all_conv) (metis takeWhile_eq_all_conv)

lemma skip_white_at:
  "skip_white (pre @ s @ 0 # rest) (length pre) = Some (length pre + length (takeWhile white s))"
  using length_takeWhile_le [of white s] by (simp add: skip_white_def takeWhile_stop Let_def)

lemma arg_end_at:
  "0 \<notin> set t \<Longrightarrow>
   arg_end (pre @ t @ 0 # rest) (length pre) = Some (length pre + length (takeWhile (\<lambda>c. \<not> white c) t))"
  using length_takeWhile_le [of "\<lambda>c. \<not> white c" t]
  by (simp add: arg_end_def takeWhile_stop takeWhile_nonzero Let_def)

text \<open>The loop started in front of the string \<^term>\<open>s\<close>.\<close>

lemma parse_loop_words:
  "0 \<notin> set s \<Longrightarrow>
   \<exists>new mem'. parse_loop (pre @ s @ 0 # rest) (length pre) argv = Some (argv @ new, mem') \<and>
     take (length pre) mem' = pre \<and> map (string_in mem') new = take (CFG_MAXARGS - length argv) (words s)"
proof (induction s arbitrary: pre argv rule: measure_induct_rule [of length])
  case (less s)
  define a where "a = takeWhile white s"
  define t where "t = dropWhile white s"
  define w where "w = takeWhile (\<lambda>c. \<not> white c) t"
  define u where "u = dropWhile (\<lambda>c. \<not> white c) t"
  have s: "s = a @ t" and tw: "t = w @ u" by (simp_all add: a_def t_def w_def u_def)
  then have zero: "0 \<notin> set t" "0 \<notin> set w" "0 \<notin> set u" using less.prems by auto
  let ?mem = "pre @ a @ t @ 0 # rest"
  let ?start = "length pre + length a"
  let ?stop = "?start + length w"
  have skip: "skip_white ?mem (length pre) = Some ?start"
  proof -
    have "takeWhile white (a @ t) = a" using s a_def by metis
    then show ?thesis using skip_white_at [of pre "a @ t" rest] by simp
  qed
  have ends: "arg_end ?mem ?start = Some ?stop"
    using arg_end_at [OF zero(1), of "pre @ a" rest] by (simp add: w_def)
  note step = parse_loop.simps [of ?mem "length pre" argv]
  have "\<exists>new mem'. parse_loop ?mem (length pre) argv = Some (argv @ new, mem') \<and>
     take (length pre) mem' = pre \<and> map (string_in mem') new = take (CFG_MAXARGS - length argv) (words s)"
  proof (cases "length argv < CFG_MAXARGS \<and> t \<noteq> []")
    case False
    have "parse_loop ?mem (length pre) argv = Some (argv, ?mem)"
    proof (cases "length argv < CFG_MAXARGS")
      case True
      then have "?mem ! ?start = 0" using False by (simp add: nth_append)
      then show ?thesis using skip by (simp only: step) simp
    qed (simp add: step)
    moreover have "take (CFG_MAXARGS - length argv) (words s) = []"
      using False by (auto simp: words.simps [of s] t_def)
    ultimately show ?thesis
      by (intro exI [of _ "[] :: nat list"] exI [of _ ?mem]) simp
  next
    case True
    then obtain c0 t' where t': "t = c0 # t'" by (cases t) auto
    have first: "?mem ! ?start \<noteq> 0" using zero(1) t' by (simp add: nth_append)
    have ws: "words s = w # words u"
      using True words.simps [of s] by (simp add: Let_def t_def w_def u_def)
    show ?thesis
    proof (cases u)
      case Nil
      then have "?mem ! ?stop = 0" using tw by (simp add: nth_append)
      moreover have "string_in ?mem ?start = w"
        using string_in_at [OF zero(2), of "pre @ a" rest] Nil tw by simp
      ultimately show ?thesis
        using True first ends ws Nil by (intro exI [of _ "[?start]"] exI [of _ ?mem]) (simp add: step skip take_Cons')
    next
      case (Cons c v)
      have c: "white c" using Cons hd_dropWhile [of "\<lambda>c. \<not> white c" t] by (simp add: u_def [symmetric])
      have at: "?mem ! ?stop = c" "c \<noteq> 0" using tw Cons zero(3) by (auto simp: nth_append)
      have upd: "?mem[?stop := 0] = (pre @ a @ w @ [0]) @ v @ 0 # rest"
        using tw Cons by (simp add: list_update_append)
      have v: "length v < length s" "0 \<notin> set v" using s tw Cons zero(3) by auto
      have pos: "Suc ?stop = length (pre @ a @ w @ [0])" by simp
      obtain new mem' where rec: "parse_loop (?mem[?stop := 0]) (Suc ?stop) (argv @ [?start]) =
            Some ((argv @ [?start]) @ new, mem')"
          "take (length (pre @ a @ w @ [0])) mem' = pre @ a @ w @ [0]"
          "map (string_in mem') new = take (CFG_MAXARGS - length (argv @ [?start])) (words v)"
        using less.IH [OF v, of "pre @ a @ w @ [0]" "argv @ [?start]"] unfolding upd pos by blast
      then obtain m where m: "mem' = (pre @ a) @ w @ 0 # m"
        by (metis append.assoc append_Cons append_Nil append_take_drop_id)
      have "string_in mem' ?start = w"
        using string_in_at [OF zero(2), of "pre @ a" m] m by simp
      moreover have "words s = w # words v"
        using ws Cons words_white [OF c] by simp
      moreover have "CFG_MAXARGS - length argv = Suc (CFG_MAXARGS - length (argv @ [?start]))"
        using True by (simp add: Suc_diff_Suc)
      ultimately show ?thesis
        using True first ends at rec(1,3) m by (intro exI [of _ "?start # new"] exI [of _ mem']) (simp add: step skip)
    qed
  qed
  then show ?case using s by simp
qed

text \<open>The arguments are the first sixteen words.\<close>

lemma parse_line_words:
  assumes "0 \<notin> set s"
  shows "\<exists>args mem'. parse_line (s @ 0 # rest) = Some (args, mem') \<and>
    map (string_in mem') args = take CFG_MAXARGS (words s)"
  using parse_loop_words [OF assms, of "[]" rest "[]"] by (auto simp: parse_line_def)

section \<open>A typed command\<close>

text \<open>The entry of \<^verbatim>\<open>setenv\<close> in the table.\<close>

definition setenv_cmd :: cmd_tbl where
  "setenv_cmd = \<lparr>cmd_name = ascii ''setenv'', cmd_maxargs = CFG_MAXARGS, cmd_repeatable = False, cmd_is_bootd = False,
     cmd_fun = (\<lambda>flag argv g. case do_setenv (tl argv) g of None \<Rightarrow> None | Some (r, g') \<Rightarrow> Some (r, False, g'))\<rparr>"

lemma find_sep_none: "set s \<inter> {39, 59} = {} \<Longrightarrow> find_sep False first p s = length s"
  by (induction s arbitrary: first p) auto

lemma words_word:
  assumes "w \<noteq> []" "\<forall>c \<in> set w. \<not> white c"
  shows "words w = [w]" and "white c \<Longrightarrow> words (w @ c # s) = w # words s"
proof -
  have start: "dropWhile white (w @ r) = w @ r" for r
    using assms by (cases w) auto
  have all: "takeWhile (\<lambda>c. \<not> white c) w = w" "dropWhile (\<lambda>c. \<not> white c) w = []"
    using assms(2) by (auto simp: takeWhile_eq_all_conv)
  have "words w = takeWhile (\<lambda>c. \<not> white c) w # words (dropWhile (\<lambda>c. \<not> white c) w)"
    using start [of "[]"] assms(1) words.simps [of w] by (simp add: Let_def)
  then show "words w = [w]"
    unfolding all by simp
  have "takeWhile (\<lambda>c. \<not> white c) (w @ c # s) = w" "dropWhile (\<lambda>c. \<not> white c) (w @ c # s) = c # s" if "white c"
    using that assms(2) by (auto simp: takeWhile_append dropWhile_append)
  then show "words (w @ c # s) = w # words s" if "white c"
    using that start [of "c # s"] words.simps [of "w @ c # s"] words_white [OF that, of s] by (simp add: Let_def)
qed

lemma words_chars: "w \<in> set (words s) \<Longrightarrow> set w \<subseteq> set s"
proof (induction s rule: words.induct)
  case (1 s)
  show ?case
  proof (cases "dropWhile white s = []")
    case True
    then show ?thesis using 1(2) by (simp add: words.simps [of s])
  next
    case False
    let ?t = "dropWhile white s"
    have "set (dropWhile (\<lambda>c. \<not> white c) ?t) \<subseteq> set s"
      by (auto dest!: set_dropWhileD)
    moreover have "set (takeWhile (\<lambda>c. \<not> white c) ?t) \<subseteq> set s"
      by (auto dest!: set_takeWhileD set_dropWhileD)
    moreover have "words s = takeWhile (\<lambda>c. \<not> white c) ?t # words (dropWhile (\<lambda>c. \<not> white c) ?t)"
      using words.simps [of s] False by (simp only: Let_def if_False)
    ultimately show ?thesis
      using 1(1) [OF refl False] 1(2) by auto
  qed
qed

lemma env_look_no_zero: "env_look g m = Some v \<Longrightarrow> 0 \<notin> set v"
  by (auto simp: env_look_def getenv_def split: option.splits env_search.splits dest: set_takeWhileD)

text \<open>What runs when a line without quotes and semicolons is given.\<close>

lemma run_one_token:
  assumes "s \<noteq> []" "length s < CFG_CBSIZE" "set s \<inter> {39, 59} = {}"
    and "run_token tbl flag rest s g = Some (bad, rep, False, flag', g')"
  shows "run_command tbl rest before flag (Some s) g = Some (if bad then - 1 else if rep then 1 else 0, g')"
  using assms find_sep_none [OF assms(3), of True before] by (cases s) (simp_all add: run_command_def Let_def)

text \<open>C34: A typed \<^verbatim>\<open>setenv\<close> with a reference does what it says.  The command line \<^verbatim>\<open>setenv n ${m}\<close> is
  expanded, cut into words and carried out: afterwards \<^verbatim>\<open>n\<close> has the words of the value of \<^verbatim>\<open>m\<close>,
  joined by single blanks, or is not defined when there are none or when there is no room; all other variables are
  as before.\<close>

theorem typed_setenv:
  assumes "relocated g" "holds (env_block g) es" "plain_name n" "n \<noteq> []" "set n \<inter> {9, 32, 36, 39, 59, 92} = {}"
    and "env_name m" "set m \<inter> {39, 41, 59, 92, 125} = {}" "env_look g m = Some v"
    and "length n + length m + 11 < CFG_CBSIZE" "length n + length v + 8 < CFG_CBSIZE"
    and "length (words v) + 2 \<le> CFG_MAXARGS" "find_cmd tbl (ascii ''setenv'') = Some setenv_cmd"
  defines "vs \<equiv> words v"
  shows "\<exists>g'. run_command tbl rest before flag (Some (ascii ''setenv '' @ n @ ascii '' ${'' @ m @ ascii ''}'')) g =
      Some (if vs = [] \<or> fits g es n vs then 0 else - 1, g') \<and>
    (\<forall>k. env_name k \<longrightarrow>
      getenv g' k =
        (if k = n then Some (if vs \<noteq> [] \<and> fits g es n vs then Some (joined vs) else None) else getenv g k))"
proof -
  let ?segs = "[Lit (ascii ''setenv '' @ n @ [32]), Var m]"
  let ?line = "ascii ''setenv '' @ n @ ascii '' ${'' @ m @ ascii ''}''"
  let ?result = "ascii ''setenv '' @ n @ 32 # v"
  have zero: "0 \<notin> set v" "0 \<notin> set n"
    using env_look_no_zero [OF assms(8)] assms(3) by (auto simp: plain_name_def env_name_def)
  have "\<forall>w \<in> set vs. 0 \<notin> set w"
    using words_chars [of _ v] zero(1) by (auto simp: vs_def)
  then obtain g' where g': "do_setenv (n # vs) g = Some (if vs = [] \<or> fits g es n vs then 0 else 1, g')"
      "\<forall>k. env_name k \<longrightarrow> getenv g' k =
        (if k = n then Some (if vs \<noteq> [] \<and> fits g es n vs then Some (joined vs) else None) else getenv g k)"
    using do_setenv_map [OF assms(1-3)] by blast
  have "env_ok g" using assms(1,2) by (auto simp: env_ok_def)
  moreover have "list_all segment_ok ?segs"
    using assms(5-7) by auto
  ultimately have macros: "process_macros g ?line = Some (?result, True)"
    using process_macros_segments [of ?segs g] assms(8,10) by simp
  have "set (ascii ''setenv'') = {115, 101, 116, 110, 118}" by auto
  then have "words ?result = ascii ''setenv'' # n # vs"
    using words_word(2) [of "ascii ''setenv''" 32 "n @ 32 # v"] words_word(2) [of n 32 v] assms(4,5)
    by (auto simp: white_def vs_def)
  moreover have "0 \<notin> set ?result" using zero by simp
  ultimately obtain args mem where line: "parse_line (?result @ 0 # rest) = Some (args, mem)"
      "map (string_in mem) args = ascii ''setenv'' # n # vs"
    using parse_line_words [of ?result rest] assms(11) by (auto simp: vs_def)
  then have "args \<noteq> []" by auto
  have "run_token tbl flag rest ?line g =
      Some (\<not> (vs = [] \<or> fits g es n vs), False, False, flag, g')"
    using macros line assms(11,12) g'(1) \<open>args \<noteq> []\<close> by (simp add: run_token_def setenv_cmd_def vs_def Let_def)
  then show ?thesis
    using run_one_token [of ?line tbl flag rest g] assms(5,7,9) g'(2) by auto
qed

theorem typed_setenv_witness:
  "\<exists>g'. run_command [setenv_cmd] [] 0 0 (Some (ascii ''setenv a ${b}'')) sample_uboot = Some (0, g') \<and>
     getenv g' (ascii ''a'') = Some (Some (ascii ''22''))"
proof -
  have ws: "words (ascii ''22'') = [ascii ''22'']"
    by (rule words_word(1)) (simp_all add: white_def)
  have f: "fits sample_uboot sample_entries (ascii ''a'') [ascii ''22'']"
    by (simp add: fits_def sample_ok(3) sample_entries_def without_def entry_name_def new_entry_def)
  have c: "find_cmd [setenv_cmd] (ascii ''setenv'') = Some setenv_cmd"
    by (simp add: find_cmd_def setenv_cmd_def)
  have n: "ascii ''a'' \<noteq> []" "set (ascii ''a'') \<inter> {9, 32, 36, 39, 59, 92} = {}"
    and m: "env_name (ascii ''b'')" "set (ascii ''b'') \<inter> {39, 41, 59, 92, 125} = {}" and a: "env_name (ascii ''a'')"
    by (simp_all add: env_name_def)
  have l: "length (ascii ''a'') + length (ascii ''b'') + 11 < CFG_CBSIZE"
    "length (ascii ''a'') + length (ascii ''22'') + 8 < CFG_CBSIZE" "length (words (ascii ''22'')) + 2 \<le> CFG_MAXARGS"
    by (simp_all only: ws) (simp_all add: CFG_CBSIZE_def CFG_MAXARGS_def)
  have line: "ascii ''setenv '' @ ascii ''a'' @ ascii '' ${'' @ ascii ''b'' @ ascii ''}'' = ascii ''setenv a ${b}''"
    by simp
  show ?thesis
    using typed_setenv [OF sample_ok(1,2) sample_names(1) n m sample_look(2) l c, of "[]" 0 0] a
    unfolding ws line by (auto simp only: f joined.simps list.distinct(2) simp_thms if_True not_False_eq_True)
qed

end
