(* ===== verification/Board_Gpio.thy ===== *)
theory Board_Gpio
  imports Kernel_Prelude
begin

text \<open>
  The general-purpose pins of the board and the three devices made of them: the port registers of
  \<^verbatim>\<open>arch/arm/plat-s3c24xx/gpio.c\<close>, the four lamps (\<^verbatim>\<open>drivers/char/EmbedSky_gpio.c\<close>), the back light
  (\<^verbatim>\<open>drivers/video/EmbedSky_backlight.c\<close>) and the beeper with its timer
  (\<^verbatim>\<open>drivers/char/EmbedSky_pwm.c\<close>).

  A register file maps the address of a register, relative to the start of the block, to its value.  Interrupts
  are off while a register is modified, so each of these functions is one step.
\<close>

unbundle bit_operations_syntax

section \<open>Ports\<close>

type_synonym regs = "u32 \<Rightarrow> u32"

definition S3C2410_GPIO_BASE :: "u32 \<Rightarrow> u32" where
  "S3C2410_GPIO_BASE pin = drop_bit 1 (pin AND NOT 31)"

definition S3C2410_GPIO_OFFSET :: "u32 \<Rightarrow> nat" where
  "S3C2410_GPIO_OFFSET pin = unat (pin AND 31)"

definition S3C2410_GPIO_BANKB :: u32 where "S3C2410_GPIO_BANKB = 32"
definition S3C2410_GPIO_BANKF :: u32 where "S3C2410_GPIO_BANKF = 160"
definition S3C2410_GPIO_BANKG :: u32 where "S3C2410_GPIO_BANKG = 192"
definition S3C2410_GPIO_LEAVE :: u32 where "S3C2410_GPIO_LEAVE = 0xFFFFFFFF"
definition S3C2410_GPIO_INPUT :: u32 where "S3C2410_GPIO_INPUT = 0xFFFFFFF0"
definition S3C2410_GPIO_OUTPUT :: u32 where "S3C2410_GPIO_OUTPUT = 0xFFFFFFF1"
definition S3C2410_GPIO_SFN2 :: u32 where "S3C2410_GPIO_SFN2 = 0xFFFFFFF2"
definition S3C2410_GPIO_SFN3 :: u32 where "S3C2410_GPIO_SFN3 = 0xFFFFFFF3"

definition s3c2410_gpio_cfgpin :: "u32 \<Rightarrow> u32 \<Rightarrow> regs \<Rightarrow> regs" where
  "s3c2410_gpio_cfgpin pin f r =
    (let base = S3C2410_GPIO_BASE pin;
         offs = S3C2410_GPIO_OFFSET pin;
         mask = (if pin < S3C2410_GPIO_BANKB then push_bit offs 1 else push_bit (offs * 2) 3);
         (mask, f) =
           (if f = S3C2410_GPIO_LEAVE then (0, 0)
            else if f \<in> {S3C2410_GPIO_INPUT, S3C2410_GPIO_OUTPUT, S3C2410_GPIO_SFN2, S3C2410_GPIO_SFN3}
            then (if pin < S3C2410_GPIO_BANKB then (mask, push_bit offs ((f - 1) AND 1))
                  else (mask, push_bit (offs * 2) (f AND 3)))
            else (mask, f))
     in r(base := (r base AND NOT mask) OR f))"

definition s3c2410_gpio_getcfg :: "u32 \<Rightarrow> regs \<Rightarrow> u32" where
  "s3c2410_gpio_getcfg pin r =
    (let val = r (S3C2410_GPIO_BASE pin) in
     (if pin < S3C2410_GPIO_BANKB then (drop_bit (S3C2410_GPIO_OFFSET pin) val AND 1) + 1
      else drop_bit (S3C2410_GPIO_OFFSET pin * 2) val AND 3) OR S3C2410_GPIO_INPUT)"

definition s3c2410_gpio_pullup :: "u32 \<Rightarrow> u32 \<Rightarrow> regs \<Rightarrow> regs" where
  "s3c2410_gpio_pullup pin to r =
    (let base = S3C2410_GPIO_BASE pin; offs = S3C2410_GPIO_OFFSET pin in
     if pin < S3C2410_GPIO_BANKB then r
     else r(base + 8 := (r (base + 8) AND NOT (push_bit offs 1)) OR push_bit offs to))"

definition s3c2410_gpio_getpull :: "u32 \<Rightarrow> regs \<Rightarrow> u32 result" where
  "s3c2410_gpio_getpull pin r =
    (if pin < S3C2410_GPIO_BANKB then Inl EINVAL
     else Inr (if r (S3C2410_GPIO_BASE pin + 8) AND push_bit (S3C2410_GPIO_OFFSET pin) 1 \<noteq> 0 then 1 else 0))"

definition s3c2410_gpio_setpin :: "u32 \<Rightarrow> u32 \<Rightarrow> regs \<Rightarrow> regs" where
  "s3c2410_gpio_setpin pin to r =
    (let base = S3C2410_GPIO_BASE pin; offs = S3C2410_GPIO_OFFSET pin in
     r(base + 4 := (r (base + 4) AND NOT (push_bit offs 1)) OR push_bit offs to))"

definition s3c2410_gpio_getpin :: "u32 \<Rightarrow> regs \<Rightarrow> u32" where
  "s3c2410_gpio_getpin pin r = r (S3C2410_GPIO_BASE pin + 4) AND push_bit (S3C2410_GPIO_OFFSET pin) 1"

text \<open>Pins and external interrupts; the interrupt numbers are those of \<^verbatim>\<open>mach/irqs.h\<close>.\<close>

definition IRQ_EINT0 :: u32 where "IRQ_EINT0 = 16"
definition IRQ_EINT4 :: u32 where "IRQ_EINT4 = 48"
definition IRQ_EINT8 :: u32 where "IRQ_EINT8 = 52"

definition s3c2410_gpio_getirq :: "u32 \<Rightarrow> u32 option" where
  "s3c2410_gpio_getirq pin =
    (if pin < S3C2410_GPIO_BANKF \<or> S3C2410_GPIO_BANKG + 15 < pin then None
     else if pin < S3C2410_GPIO_BANKG \<and> S3C2410_GPIO_BANKF + 7 < pin then None
     else if pin < S3C2410_GPIO_BANKF + 4 then Some (pin - S3C2410_GPIO_BANKF + IRQ_EINT0)
     else if pin < S3C2410_GPIO_BANKG then Some (pin - (S3C2410_GPIO_BANKF + 4) + IRQ_EINT4)
     else Some (pin - S3C2410_GPIO_BANKG + IRQ_EINT8))"

definition s3c2410_gpio_irq2pin :: "u32 \<Rightarrow> u32 result" where
  "s3c2410_gpio_irq2pin irq =
    (if IRQ_EINT0 \<le> irq \<and> irq \<le> IRQ_EINT0 + 3 then Inr (S3C2410_GPIO_BANKF + (irq - IRQ_EINT0))
     else if IRQ_EINT4 \<le> irq \<and> irq \<le> IRQ_EINT4 + 3 then Inr (S3C2410_GPIO_BANKF + 4 + (irq - IRQ_EINT4))
     else if IRQ_EINT8 \<le> irq \<and> irq \<le> IRQ_EINT8 + 15 then Inr (S3C2410_GPIO_BANKG + (irq - IRQ_EINT8))
     else Inl EINVAL)"

section \<open>Lamps and back light\<close>

definition gpio_table :: "u32 list" where
  "gpio_table = [S3C2410_GPIO_BANKB + 5, S3C2410_GPIO_BANKB + 6, S3C2410_GPIO_BANKB + 7, S3C2410_GPIO_BANKB + 8]"

definition gpio_cfg_table :: "u32 list" where
  "gpio_cfg_table = [push_bit 10 1, push_bit 12 1, push_bit 14 1, push_bit 16 1]"

text \<open>
  The value returned and the new registers; \<^term>\<open>None\<close> is a read past the end of the table.
\<close>

definition tq2440_gpio_ioctl :: "u32 \<Rightarrow> u32 \<Rightarrow> regs \<Rightarrow> (unit result \<times> regs) option" where
  "tq2440_gpio_ioctl cmd arg r =
    (if 4 < arg then Some (Inl EINVAL, r)
     else if cmd = 1 \<or> cmd = 0
     then (if unat arg < length gpio_table
           then Some (Inr (), s3c2410_gpio_setpin (gpio_table ! unat arg) (if cmd = 1 then 0 else 1) r)
           else None)
     else Some (Inl EINVAL, r))"

definition led_init :: "regs \<Rightarrow> regs" where
  "led_init r =
    fold (\<lambda>i r. s3c2410_gpio_setpin (gpio_table ! i) 0 (s3c2410_gpio_cfgpin (gpio_table ! i) (gpio_cfg_table ! i) r))
      [0..<4] r"

definition tq2440_backlight_ioctl :: "u32 \<Rightarrow> regs \<Rightarrow> unit result \<times> regs" where
  "tq2440_backlight_ioctl cmd r =
    (if cmd = 0 then (Inr (), s3c2410_gpio_setpin (S3C2410_GPIO_BANKG + 4) 0 r)
     else if cmd = 1 then (Inr (), s3c2410_gpio_setpin (S3C2410_GPIO_BANKG + 4) 1 r)
     else (Inl EINVAL, r))"

section \<open>Beeper\<close>

text \<open>The semaphore that lets one file have the device, as its count, and the registers of timer 0.\<close>

record pwm =
  pwm_lock :: nat
  pwm_gpio :: regs
  TCFG0 :: u32
  TCFG1 :: u32
  TCON :: u32
  TCNTB0 :: u32
  TCMPB0 :: u32

definition down_trylock :: "nat \<Rightarrow> nat option" where
  "down_trylock n = (if 0 < n then Some (n - 1) else None)"

definition tq2440_pwm_open :: "pwm \<Rightarrow> unit result \<times> pwm" where
  "tq2440_pwm_open p =
    (case down_trylock (pwm_lock p) of
       Some n \<Rightarrow> (Inr (), p\<lparr>pwm_lock := n\<rparr>)
     | None \<Rightarrow> (Inl EBUSY, p))"

definition tq2440_pwm_close :: "pwm \<Rightarrow> pwm" where
  "tq2440_pwm_close p = p\<lparr>pwm_lock := pwm_lock p + 1\<rparr>"

text \<open>\<^verbatim>\<open>pclk\<close> is the rate of the peripheral clock; \<^term>\<open>None\<close> is a division by zero.\<close>

definition tq2440_pwm_ioctl :: "u32 \<Rightarrow> u32 \<Rightarrow> u32 \<Rightarrow> pwm \<Rightarrow> pwm option" where
  "tq2440_pwm_ioctl pclk cmd arg p =
    (let pin = S3C2410_GPIO_BANKB in
     if cmd \<le> 0
     then Some (p\<lparr>pwm_gpio := s3c2410_gpio_setpin pin 0 (s3c2410_gpio_cfgpin pin 1 (pwm_gpio p))\<rparr>)
     else if arg = 0 then None
     else let tcon = TCON p;
              tcntb = pclk div 128 div arg;
              tcon = (tcon AND NOT 0x1F) OR 0xB
          in Some (p\<lparr>pwm_gpio := s3c2410_gpio_cfgpin pin 2 (pwm_gpio p),
                     TCFG1 := (TCFG1 p AND NOT 15) OR 3,
                     TCFG0 := (TCFG0 p AND NOT 255) OR (50 - 1),
                     TCNTB0 := tcntb,
                     TCMPB0 := drop_bit 1 tcntb,
                     TCON := tcon AND NOT 2\<rparr>))"

section \<open>Pins are independent\<close>

lemma offset_bound: "S3C2410_GPIO_OFFSET pin < 32"
proof -
  have "(31 :: u32) = mask 5" by (simp add: mask_eq_exp_minus_1)
  then have "unat (pin AND 31) = unat pin mod 2 ^ 5"
    using unat_and_mask [where w = pin and k = 5] by simp
  then show ?thesis by (simp add: S3C2410_GPIO_OFFSET_def)
qed

lemma base_offset_pin:
  assumes "S3C2410_GPIO_BASE pin = S3C2410_GPIO_BASE pin'" "S3C2410_GPIO_OFFSET pin = S3C2410_GPIO_OFFSET pin'"
  shows "pin = pin'"
proof (rule bit_word_eqI)
  fix k assume "k < LENGTH(32)"
  have m: "(31 :: u32) = mask 5" by (simp add: mask_eq_exp_minus_1)
  show "bit pin k = bit pin' k"
  proof (cases "k < 5")
    case True
    have "pin AND 31 = pin' AND 31"
      using assms(2) by (simp add: S3C2410_GPIO_OFFSET_def word_unat_eq_iff)
    then have "bit (pin AND mask 5) k = bit (pin' AND mask 5) k"
      by (simp only: m)
    with True show ?thesis by (simp add: bit_and_iff bit_mask_iff)
  next
    case False
    have "bit (drop_bit 1 (p AND NOT (mask 5)) :: u32) (k - 1) = bit p k" for p :: u32
      using False \<open>k < LENGTH(32)\<close> by (simp add: bit_drop_bit_eq bit_and_iff bit_not_iff bit_mask_iff)
    then show ?thesis
      using assms(1) unfolding S3C2410_GPIO_BASE_def m by metis
  qed
qed

text \<open>Setting a pin to 0 or 1 changes that bit of its data register and no other bit of any register.\<close>

lemma setpin_bit:
  assumes "to = 0 \<or> to = 1"
  shows "bit (s3c2410_gpio_setpin pin to r a) k \<longleftrightarrow>
    (if a = S3C2410_GPIO_BASE pin + 4 \<and> k = S3C2410_GPIO_OFFSET pin then to = 1 else bit (r a) k)"
  using assms offset_bound [of pin]
  by (auto simp: s3c2410_gpio_setpin_def Let_def bit_or_iff bit_and_iff bit_not_iff bit_push_bit_iff bit_1_iff
      bit_exp_iff dest: bit_imp_le_length)

lemma getpin_bit: "s3c2410_gpio_getpin pin r \<noteq> 0 \<longleftrightarrow> bit (r (S3C2410_GPIO_BASE pin + 4)) (S3C2410_GPIO_OFFSET pin)"
proof -
  have "push_bit n 1 = (2 :: u32) ^ n" for n by (simp add: push_bit_eq_mult)
  then show ?thesis
    by (simp add: s3c2410_gpio_getpin_def bit_iff_and_push_bit_not_eq_0)
qed

lemma getpin_setpin:
  assumes "to = 0 \<or> to = 1"
  shows "s3c2410_gpio_getpin pin (s3c2410_gpio_setpin pin' to r) \<noteq> 0 \<longleftrightarrow>
    (if pin = pin' then to = 1 else s3c2410_gpio_getpin pin r \<noteq> 0)"
  using base_offset_pin [of pin pin'] by (auto simp: getpin_bit setpin_bit [OF assms])

lemma irq2pin_getirq:
  assumes "s3c2410_gpio_getirq pin = Some irq"
  shows "s3c2410_gpio_irq2pin irq = Inr pin"
  using assms
  by (auto simp: s3c2410_gpio_getirq_def s3c2410_gpio_irq2pin_def S3C2410_GPIO_BANKF_def S3C2410_GPIO_BANKG_def
      IRQ_EINT0_def IRQ_EINT4_def IRQ_EINT8_def word_le_nat_alt word_less_nat_alt unat_sub unat_word_ariths
      split: if_splits)

section \<open>Lamps\<close>

lemma gpio_table_address:
  assumes "i < 4"
  shows "S3C2410_GPIO_BASE (gpio_table ! i) = 0x10" "S3C2410_GPIO_OFFSET (gpio_table ! i) = 5 + i"
proof -
  from assms have "i = 0 \<or> i = 1 \<or> i = 2 \<or> i = 3" by linarith
  then show "S3C2410_GPIO_BASE (gpio_table ! i) = 0x10" "S3C2410_GPIO_OFFSET (gpio_table ! i) = 5 + i"
    by (auto simp: gpio_table_def S3C2410_GPIO_BASE_def S3C2410_GPIO_OFFSET_def S3C2410_GPIO_BANKB_def)
qed

text \<open>
  The lamp device accepts the numbers 0 to 3 and, by its test \<^verbatim>\<open>arg > 4\<close>, also 4.  For a lamp number below
  4 the commands 1 and 0 clear and set exactly the bit of that lamp in the data register of port B and
  change no other bit of any register; for 4 the device reads past the end of its table of pins; everything
  else is refused with \<^verbatim>\<open>EINVAL\<close> and changes nothing.
\<close>

theorem lamp_ioctl_effect:
  "(tq2440_gpio_ioctl cmd arg r = None \<longleftrightarrow> arg = 4 \<and> (cmd = 0 \<or> cmd = 1)) \<and>
   (arg < 4 \<and> (cmd = 0 \<or> cmd = 1) \<longrightarrow>
     (\<exists>r'. tq2440_gpio_ioctl cmd arg r = Some (Inr (), r') \<and>
       (\<forall>a k. bit (r' a) k \<longleftrightarrow> (if a = 0x14 \<and> k = 5 + unat arg then cmd = 0 else bit (r a) k)))) \<and>
   (4 < arg \<or> 1 < cmd \<longrightarrow> tq2440_gpio_ioctl cmd arg r = Some (Inl EINVAL, r))"
proof (intro conjI impI)
  have len: "length gpio_table = 4" by (simp add: gpio_table_def)
  have arg: "unat arg < 4 \<longleftrightarrow> arg < 4" by (simp add: word_less_nat_alt)
  show "tq2440_gpio_ioctl cmd arg r = None \<longleftrightarrow> arg = 4 \<and> (cmd = 0 \<or> cmd = 1)"
    using arg by (auto simp: tq2440_gpio_ioctl_def len)
  show "\<exists>r'. tq2440_gpio_ioctl cmd arg r = Some (Inr (), r') \<and>
      (\<forall>a k. bit (r' a) k \<longleftrightarrow> (if a = 0x14 \<and> k = 5 + unat arg then cmd = 0 else bit (r a) k))"
    if "arg < 4 \<and> (cmd = 0 \<or> cmd = 1)"
    using that arg gpio_table_address [of "unat arg"]
    by (auto simp: tq2440_gpio_ioctl_def len setpin_bit)
  show "tq2440_gpio_ioctl cmd arg r = Some (Inl EINVAL, r)" if "4 < arg \<or> 1 < cmd"
    using that by (auto simp: tq2440_gpio_ioctl_def)
qed

theorem lamp_ioctl_effect_witness:
  "tq2440_gpio_ioctl 1 4 (\<lambda>_. 0) = None \<and> tq2440_gpio_ioctl 7 2 (\<lambda>_. 0) = Some (Inl EINVAL, \<lambda>_. 0) \<and>
   (\<exists>r'. tq2440_gpio_ioctl 0 2 (\<lambda>_. 0) = Some (Inr (), r') \<and> bit (r' 0x14) 7)"
  using lamp_ioctl_effect [of 1 4 "\<lambda>_. 0"] lamp_ioctl_effect [of 7 2 "\<lambda>_. 0"]
    lamp_ioctl_effect [of 0 2 "\<lambda>_. 0"] by auto

end
