(* ===== verification/Board_Buttons.thy ===== *)
theory Board_Buttons
  imports Board_Gpio
begin

text \<open>
  The button device of the board, \<^verbatim>\<open>drivers/char/EmbedSky_irq.c\<close>: four buttons on external interrupts, whose
  states a program reads as four characters.  The handler and the stages of a read are the steps of a transition
  system, so that an interrupt can come between any two of them.
\<close>

section \<open>The driver\<close>

record button_irq_desc =
  bi_irq :: int
  bi_pin :: u32
  bi_number :: nat

definition button_irqs :: "button_irq_desc list" where
  "button_irqs =
    [\<lparr>bi_irq = 17, bi_pin = S3C2410_GPIO_BANKF + 1, bi_number = 0\<rparr>,
     \<lparr>bi_irq = 48, bi_pin = S3C2410_GPIO_BANKF + 4, bi_number = 1\<rparr>,
     \<lparr>bi_irq = 18, bi_pin = S3C2410_GPIO_BANKF + 2, bi_number = 2\<rparr>,
     \<lparr>bi_irq = 16, bi_pin = S3C2410_GPIO_BANKF + 0, bi_number = 3\<rparr>]"

text \<open>
  The variables of the driver, and the handlers installed for interrupts: for each line the descriptor
  the handler was installed with.
\<close>

record buttons =
  key_values :: "u8 list"
  ev_press :: bool
  handlers :: "int \<Rightarrow> button_irq_desc option"

definition irq_interrupt :: "button_irq_desc \<Rightarrow> regs \<Rightarrow> buttons \<Rightarrow> buttons" where
  "irq_interrupt d r s =
    (let down = (if s3c2410_gpio_getpin (bi_pin d) r = 0 then 1 else 0) in
     if down \<noteq> key_values s ! bi_number d AND 1
     then s\<lparr>key_values := (key_values s)[bi_number d := 0x30 + down], ev_press := True\<rparr>
     else s)"

text \<open>
  Installing the handlers one after another.  \<^verbatim>\<open>busy\<close> tells which lines \<^verbatim>\<open>request_irq\<close> refuses for a reason of its
  own; a line that has a handler is refused too, since the lines are not shared.  The result is the number of
  descriptors done, whether all were, and the handlers.
\<close>

fun request_irqs ::
  "(int \<Rightarrow> bool) \<Rightarrow> button_irq_desc list \<Rightarrow> (int \<Rightarrow> button_irq_desc option) \<Rightarrow> nat \<times> bool \<times> (int \<Rightarrow> button_irq_desc option)"
where
  "request_irqs busy [] h = (0, True, h)"
| "request_irqs busy (d # ds) h =
    (if bi_irq d < 0 then (let (n, ok, h') = request_irqs busy ds h in (Suc n, ok, h'))
     else if busy (bi_irq d) \<or> h (bi_irq d) \<noteq> None then (0, False, h)
     else let (n, ok, h') = request_irqs busy ds (h(bi_irq d \<mapsto> d)) in (Suc n, ok, h'))"

text \<open>The loop that takes the handlers out again, from the last one installed down to the first.\<close>

definition free_irqs :: "button_irq_desc list \<Rightarrow> (int \<Rightarrow> button_irq_desc option) \<Rightarrow> int \<Rightarrow> button_irq_desc option" where
  "free_irqs ds h = fold (\<lambda>d h. if bi_irq d < 0 then h else h(bi_irq d := None)) ds h"

definition tq2440_irq_open :: "(int \<Rightarrow> bool) \<Rightarrow> buttons \<Rightarrow> unit result \<times> buttons" where
  "tq2440_irq_open busy s =
    (let (n, ok, h) = request_irqs busy button_irqs (handlers s) in
     if ok then (Inr (), s\<lparr>handlers := h, ev_press := True\<rparr>)
     else (Inl EBUSY, s\<lparr>handlers := free_irqs (rev (take n button_irqs)) h\<rparr>))"

definition tq2440_irq_close :: "buttons \<Rightarrow> buttons" where
  "tq2440_irq_close s = s\<lparr>handlers := free_irqs button_irqs (handlers s)\<rparr>"

text \<open>
  A read in its stages: the test of \<^verbatim>\<open>ev_press\<close>, which refuses a file opened with \<^verbatim>\<open>O_NONBLOCK\<close> or lets the caller
  sleep; the reset; and the copy of at most \<^verbatim>\<open>count\<close> bytes, which fails when the buffer cannot be written.
\<close>

datatype read_verdict = Ready | Again | Sleep

definition read_test :: "bool \<Rightarrow> buttons \<Rightarrow> read_verdict" where
  "read_test nonblock s = (if ev_press s then Ready else if nonblock then Again else Sleep)"

definition read_reset :: "buttons \<Rightarrow> buttons" where
  "read_reset s = s\<lparr>ev_press := False\<rparr>"

definition read_copy :: "bool \<Rightarrow> nat \<Rightarrow> buttons \<Rightarrow> u8 list result" where
  "read_copy fault cnt s = (if fault then Inl EFAULT else Inr (take cnt (key_values s)))"

text \<open>The whole read when no interrupt comes in between; \<^verbatim>\<open>s'\<close> is the state in which a sleeping caller wakes up.\<close>

definition tq2440_irq_read :: "bool \<Rightarrow> bool \<Rightarrow> nat \<Rightarrow> buttons \<Rightarrow> buttons \<Rightarrow> u8 list result \<times> buttons" where
  "tq2440_irq_read nonblock fault cnt s s' =
    (case read_test nonblock s of
       Again \<Rightarrow> (Inl EAGAIN, s)
     | Ready \<Rightarrow> (read_copy fault cnt (read_reset s), read_reset s)
     | Sleep \<Rightarrow> (read_copy fault cnt (read_reset s'), read_reset s'))"

definition tq2440_irq_poll :: "buttons \<Rightarrow> bool" where
  "tq2440_irq_poll s = ev_press s"

section \<open>Opening and closing\<close>

lemma free_irqs_append: "free_irqs (ds @ [d]) h = (if bi_irq d < 0 then free_irqs ds h else (free_irqs ds h)(bi_irq d := None))"
  by (simp add: free_irqs_def)

text \<open>Taking out what a request installed gives back the handlers before it.\<close>

lemma free_request:
  "request_irqs busy ds h = (n, ok, h') \<Longrightarrow> free_irqs (rev (take n ds)) h' = h"
proof (induction ds arbitrary: n h)
  case Nil
  then show ?case by (simp add: free_irqs_def)
next
  case (Cons d ds)
  show ?case
  proof (cases "bi_irq d < 0 \<or> \<not> (busy (bi_irq d) \<or> h (bi_irq d) \<noteq> None)")
    case True
    then obtain m h0 where m: "n = Suc m" "request_irqs busy ds h0 = (m, ok, h')"
      "h0 = (if bi_irq d < 0 then h else h(bi_irq d \<mapsto> d))"
      using Cons.prems by (auto split: if_splits prod.splits)
    then have "free_irqs (rev (take m ds)) h' = h0"
      by (intro Cons.IH)
    with m True show ?thesis
      by (auto simp: free_irqs_append fun_eq_iff)
  next
    case False
    with Cons.prems show ?thesis by (auto simp: free_irqs_def)
  qed
qed

lemma request_ok:
  assumes "distinct (map bi_irq ds)" "\<forall>d\<in>set ds. 0 \<le> bi_irq d"
  shows "fst (snd (request_irqs busy ds h)) \<longleftrightarrow> (\<forall>d\<in>set ds. \<not> busy (bi_irq d) \<and> h (bi_irq d) = None)"
  using assms
proof (induction ds arbitrary: h)
  case (Cons d ds)
  have "(h(bi_irq d \<mapsto> d)) (bi_irq e) = h (bi_irq e)" if "e \<in> set ds" for e
    using that Cons.prems(1) by (auto simp: image_iff)
  with Cons.IH [of "h(bi_irq d \<mapsto> d)"] Cons.prems
  have "fst (snd (request_irqs busy ds (h(bi_irq d \<mapsto> d)))) \<longleftrightarrow> (\<forall>e\<in>set ds. \<not> busy (bi_irq e) \<and> h (bi_irq e) = None)"
    by (simp del: fun_upd_apply)
  then show ?case
    using Cons.prems by (cases "request_irqs busy ds (h(bi_irq d \<mapsto> d))") (auto simp del: fun_upd_apply)
qed simp

lemma request_installs:
  assumes "distinct (map bi_irq ds)" "\<forall>d\<in>set ds. 0 \<le> bi_irq d" "request_irqs busy ds h = (n, True, h')"
  shows "(\<forall>d\<in>set ds. h' (bi_irq d) = Some d) \<and> (\<forall>i. i \<notin> bi_irq ` set ds \<longrightarrow> h' i = h i)"
  using assms
proof (induction ds arbitrary: h n)
  case (Cons d ds)
  then obtain m where "request_irqs busy ds (h(bi_irq d \<mapsto> d)) = (m, True, h')"
    by (auto split: if_splits prod.splits)
  from Cons.IH [OF _ _ this] Cons.prems(1,2) show ?case by auto
qed simp

lemma button_lines: "distinct (map bi_irq button_irqs)" "\<forall>d\<in>set button_irqs. 0 \<le> bi_irq d"
  by (simp_all add: button_irqs_def)

lemma open_busy:
  assumes "d \<in> set button_irqs" "busy (bi_irq d) \<or> handlers s (bi_irq d) \<noteq> None"
  shows "tq2440_irq_open busy s = (Inl EBUSY, s)"
proof -
  obtain n ok h where req: "request_irqs busy button_irqs (handlers s) = (n, ok, h)"
    by (cases "request_irqs busy button_irqs (handlers s)") auto
  with request_ok [OF button_lines, of busy "handlers s"] assms have "\<not> ok" by auto
  with req free_request [OF req] show ?thesis by (simp add: tq2440_irq_open_def)
qed

lemma open_lines:
  assumes "tq2440_irq_open busy s = (Inr (), s')"
  shows "\<forall>d\<in>set button_irqs. handlers s' (bi_irq d) = Some d"
proof -
  obtain n ok h where req: "request_irqs busy button_irqs (handlers s) = (n, ok, h)"
    by (cases "request_irqs busy button_irqs (handlers s)") auto
  with assms have "ok" "s' = s\<lparr>handlers := h, ev_press := True\<rparr>"
    by (auto simp: tq2440_irq_open_def split: if_splits)
  with request_installs [OF button_lines, of busy "handlers s" n h] req show ?thesis by auto
qed

text \<open>
  Opening the button device is all or nothing.  It succeeds exactly when none of the four lines is refused or
  taken; then each line has the handler with its own descriptor, all other lines are as before, and the
  first read will not wait.  Otherwise it returns \<^verbatim>\<open>EBUSY\<close> and every handler, of this device and of others, is
  as it was.  Closing the device after a successful open takes out these handlers and no other.
\<close>

theorem buttons_open_all_or_nothing:
  "case tq2440_irq_open busy s of
     (Inl e, s') \<Rightarrow> e = EBUSY \<and> s' = s \<and> (\<exists>d\<in>set button_irqs. busy (bi_irq d) \<or> handlers s (bi_irq d) \<noteq> None)
   | (Inr _, s') \<Rightarrow> (\<forall>d\<in>set button_irqs. \<not> busy (bi_irq d) \<and> handlers s (bi_irq d) = None) \<and>
       (\<forall>d\<in>set button_irqs. handlers s' (bi_irq d) = Some d) \<and>
       (\<forall>i. i \<notin> bi_irq ` set button_irqs \<longrightarrow> handlers s' i = handlers s i) \<and>
       key_values s' = key_values s \<and> tq2440_irq_poll s' \<and>
       handlers (tq2440_irq_close s') = handlers s"
proof -
  obtain n ok h where req: "request_irqs busy button_irqs (handlers s) = (n, ok, h)"
    by (cases "request_irqs busy button_irqs (handlers s)") auto
  note ok = request_ok [OF button_lines, of busy "handlers s", unfolded req, simplified]
  show ?thesis
  proof (cases ok)
    case True
    with request_installs [OF button_lines, of busy "handlers s" n h] req
    have inst: "\<forall>d\<in>set button_irqs. h (bi_irq d) = Some d" "\<forall>i. i \<notin> bi_irq ` set button_irqs \<longrightarrow> h i = handlers s i"
      by auto
    have free: "free_irqs ds h i = (if i \<in> bi_irq ` set ds \<and> 0 \<le> i then None else h i)" for ds h i
      by (induction ds arbitrary: h) (auto simp: free_irqs_def)
    have "free_irqs button_irqs h = handlers s"
      using inst ok True button_lines(2) by (force simp: fun_eq_iff free)
    with True req ok inst show ?thesis
      by (auto simp: tq2440_irq_open_def tq2440_irq_poll_def tq2440_irq_close_def)
  next
    case False
    with req ok free_request [OF req] show ?thesis
      by (auto simp: tq2440_irq_open_def)
  qed
qed

definition released :: buttons where
  "released = \<lparr>key_values = replicate 4 0x30, ev_press = False, handlers = (\<lambda>_. None)\<rparr>"

theorem buttons_open_all_or_nothing_witness:
  "tq2440_irq_open (\<lambda>i. i = 18) released = (Inl EBUSY, released) \<and>
   (\<exists>s'. tq2440_irq_open (\<lambda>i. False) released = (Inr (), s') \<and> tq2440_irq_poll s')"
proof
  have "\<exists>d\<in>set button_irqs. bi_irq d = 18" by (simp add: button_irqs_def)
  then show "tq2440_irq_open (\<lambda>i. i = 18) released = (Inl EBUSY, released)"
    using buttons_open_all_or_nothing [where busy = "\<lambda>i. i = 18" and s = released] by (auto split: prod.splits sum.splits)
  show "\<exists>s'. tq2440_irq_open (\<lambda>i. False) released = (Inr (), s') \<and> tq2440_irq_poll s'"
    using buttons_open_all_or_nothing [where busy = "\<lambda>i. False" and s = released]
    by (auto simp: released_def split: prod.splits sum.splits)
qed

section \<open>No change of a button is lost\<close>

text \<open>
  The driver with its surroundings: the port registers, what the last read gave to the program, and whether a read
  is between its reset and its copy.
\<close>

record button_system =
  drv :: buttons
  port :: regs
  seen :: "u8 list"
  reading :: bool

text \<open>The character that stands for the present state of a button.\<close>

definition button_state :: "regs \<Rightarrow> button_irq_desc \<Rightarrow> u8" where
  "button_state r d = (if s3c2410_gpio_getpin (bi_pin d) r = 0 then 0x31 else 0x30)"

text \<open>
  Steps: a button changes and its interrupt is served; a read passes its test, or is woken by a signal, and
  resets the flag; a read copies all four characters.
\<close>

inductive button_step :: "button_system \<Rightarrow> button_system \<Rightarrow> bool" where
  edge: "d \<in> set button_irqs \<Longrightarrow>
    \<forall>d'\<in>set button_irqs. d' \<noteq> d \<longrightarrow> button_state r d' = button_state (port s) d' \<Longrightarrow>
    button_step s (s\<lparr>port := r, drv := irq_interrupt d r (drv s)\<rparr>)"
| reset: "\<not> reading s \<Longrightarrow> button_step s (s\<lparr>drv := read_reset (drv s), reading := True\<rparr>)"
| copy: "reading s \<Longrightarrow> 4 \<le> cnt \<Longrightarrow> read_copy False cnt (drv s) = Inr bs \<Longrightarrow>
    button_step s (s\<lparr>seen := bs, reading := False\<rparr>)"

definition button_inv :: "button_system \<Rightarrow> bool" where
  "button_inv s \<longleftrightarrow>
    key_values (drv s) = map (button_state (port s)) button_irqs \<and>
    (reading s \<or> ev_press (drv s) \<or> seen s = key_values (drv s))"

lemma button_numbers: "i < 4 \<Longrightarrow> bi_number (button_irqs ! i) = i" "length button_irqs = 4"
  by (auto simp: button_irqs_def less_Suc_eq numeral_eq_Suc)

lemma irq_interrupt_state:
  assumes "i < 4" "length (key_values b) = 4" "key_values b ! i \<in> {0x30, 0x31}"
  shows "irq_interrupt (button_irqs ! i) r b =
    (if key_values b ! i = button_state r (button_irqs ! i) then b
     else b\<lparr>key_values := (key_values b)[i := button_state r (button_irqs ! i)], ev_press := True\<rparr>)"
  using assms by (auto simp: irq_interrupt_def button_state_def button_numbers Let_def)

lemma button_step_inv:
  assumes "button_step s s'" "button_inv s"
  shows "button_inv s'"
  using assms
proof cases
  case (edge d r)
  then obtain i where i: "i < 4" "d = button_irqs ! i"
    using button_numbers(2) by (metis in_set_conv_nth)
  have dist: "distinct button_irqs"
    using button_lines(1) by (rule distinct_map [THEN iffD1, THEN conjunct1])
  have keys: "key_values (drv s) = map (button_state (port s)) button_irqs"
    using assms(2) by (simp add: button_inv_def)
  then have "key_values (drv s) ! i \<in> {0x30, 0x31}" "length (key_values (drv s)) = 4"
    using i button_numbers(2) by (auto simp: button_state_def)
  note irq = irq_interrupt_state [OF i(1) this(2,1), of r]
  have upd: "(map (button_state (port s)) button_irqs)[i := button_state r d] = map (button_state r) button_irqs"
  proof (rule nth_equalityI)
    fix j assume "j < length ((map (button_state (port s)) button_irqs)[i := button_state r d])"
    with edge(3) i dist button_numbers(2) show
      "(map (button_state (port s)) button_irqs)[i := button_state r d] ! j = map (button_state r) button_irqs ! j"
      by (auto simp: nth_list_update nth_eq_iff_index_eq)
  qed simp
  show ?thesis
  proof (cases "key_values (drv s) ! i = button_state r d")
    case True
    then have "map (button_state (port s)) button_irqs = map (button_state r) button_irqs"
      using upd keys by (metis list_update_id)
    with True irq edge(1) i assms(2) show ?thesis by (auto simp: button_inv_def)
  next
    case False
    with irq edge(1) i keys upd show ?thesis by (simp add: button_inv_def)
  qed
next
  case reset
  then show ?thesis using assms(2) by (simp add: button_inv_def read_reset_def)
next
  case (copy cnt bs)
  then show ?thesis using assms(2) button_numbers(2) by (auto simp: button_inv_def read_copy_def)
qed



end
