(* ===== verification/Board_Keys.thy ===== *)
theory Board_Keys
  imports Board_Buttons
begin

text \<open>
  The button driver of the input layer, \<^verbatim>\<open>drivers/input/keyboard/tq2440_buttons.c\<close>, with the buttons of the
  board (\<^verbatim>\<open>arch/arm/mach-s3c2440/mach-tq2440.c\<close>) and the interrupts of their pins
  (\<^verbatim>\<open>arch/arm/plat-s3c24xx/gpiolib.c\<close>).  It takes pins, interrupts and the attribute files when it is bound to its
  device and gives them back when that fails or when it is removed.  What the calls to other parts of the
  kernel return is an argument: an error number is a negative integer, as in the code.
\<close>

section \<open>State\<close>

record gpio_keys_button =
  kb_code :: int
  kb_gpio :: u32
  kb_active_low :: int
  kb_type :: int
  kb_wakeup :: bool

record gpio_button_data =
  bd_button :: gpio_keys_button
  timer_debounce :: int
  bd_disabled :: bool
  bd_timer :: bool
  bd_work :: bool

datatype input_event = Input_event int int int | Input_sync

text \<open>
  The data of the driver, with the resources it uses: which pins are requested, which interrupt lines have a
  handler, how often each line is disabled, whether the attribute files and the input device exist, and the
  events given to the input layer.
\<close>

record keys =
  n_buttons :: nat
  kd_data :: "gpio_button_data list"
  gpios :: "u32 \<Rightarrow> bool"
  irqs :: "int \<Rightarrow> bool"
  irq_depth :: "int \<Rightarrow> nat"
  wake :: "int \<Rightarrow> bool"
  sysfs_group :: bool
  registered :: bool
  may_wakeup :: bool
  events :: "input_event list"

definition EV_KEY :: int where "EV_KEY = 1"
definition EV_SW :: int where "EV_SW = 5"
definition KEY_CNT :: nat where "KEY_CNT = 0x2FF + 1"
definition SW_CNT :: nat where "SW_CNT = 0x0F + 1"

definition gpio_buttons :: "gpio_keys_button list" where
  "gpio_buttons =
    [\<lparr>kb_code = 106, kb_gpio = S3C2410_GPIO_BANKF + 0, kb_active_low = 1, kb_type = 0, kb_wakeup = False\<rparr>,
     \<lparr>kb_code = 103, kb_gpio = S3C2410_GPIO_BANKF + 1, kb_active_low = 1, kb_type = 0, kb_wakeup = False\<rparr>,
     \<lparr>kb_code = 105, kb_gpio = S3C2410_GPIO_BANKF + 2, kb_active_low = 1, kb_type = 0, kb_wakeup = False\<rparr>,
     \<lparr>kb_code = 108, kb_gpio = S3C2410_GPIO_BANKF + 4, kb_active_low = 1, kb_type = 0, kb_wakeup = False\<rparr>]"

text \<open>Interrupts of pins: the errors are \<^verbatim>\<open>-EINVAL\<close> and, for a port without interrupts, \<^verbatim>\<open>-ENXIO\<close>.\<close>

definition bankf_toirq :: "u32 \<Rightarrow> int" where
  "bankf_toirq offset = (if offset < 4 then 16 + uint offset else if offset < 8 then 48 + uint offset - 4 else -22)"

definition bankg_toirq :: "u32 \<Rightarrow> int" where
  "bankg_toirq offset = 52 + uint offset"

definition gpio_to_irq :: "u32 \<Rightarrow> int" where
  "gpio_to_irq gpio =
    (if S3C2410_GPIO_BANKF \<le> gpio \<and> gpio < S3C2410_GPIO_BANKG then bankf_toirq (gpio - S3C2410_GPIO_BANKF)
     else if S3C2410_GPIO_BANKG \<le> gpio \<and> gpio < S3C2410_GPIO_BANKG + 32 then bankg_toirq (gpio - S3C2410_GPIO_BANKG)
     else -6)"

section \<open>Attribute files\<close>

text \<open>\<^term>\<open>None\<close> is the \<^verbatim>\<open>BUG_ON\<close>.\<close>

definition get_n_events_by_type :: "int \<Rightarrow> nat option" where
  "get_n_events_by_type type =
    (if type \<noteq> EV_SW \<and> type \<noteq> EV_KEY then None else Some (if type = EV_KEY then KEY_CNT else SW_CNT))"

definition tq2440_keys_disable_button :: "nat \<Rightarrow> keys \<Rightarrow> keys" where
  "tq2440_keys_disable_button i k =
    (let b = kd_data k ! i; irq = gpio_to_irq (kb_gpio (bd_button b)) in
     if \<not> bd_disabled b
     then k\<lparr>irq_depth := (irq_depth k)(irq := irq_depth k irq + 1),
            kd_data := (kd_data k)[i := b\<lparr>bd_timer := bd_timer b \<and> timer_debounce b = 0, bd_disabled := True\<rparr>]\<rparr>
     else k)"

definition tq2440_keys_enable_button :: "nat \<Rightarrow> keys \<Rightarrow> keys" where
  "tq2440_keys_enable_button i k =
    (let b = kd_data k ! i; irq = gpio_to_irq (kb_gpio (bd_button b)) in
     if bd_disabled b
     then k\<lparr>irq_depth := (irq_depth k)(irq := irq_depth k irq - 1), kd_data := (kd_data k)[i := b\<lparr>bd_disabled := False\<rparr>]\<rparr>
     else k)"

text \<open>The codes whose bits are set; the text made of them is left out.\<close>

definition tq2440_keys_attr_show_helper :: "bool \<Rightarrow> int \<Rightarrow> bool \<Rightarrow> keys \<Rightarrow> int list result option" where
  "tq2440_keys_attr_show_helper nomem type only_disabled k =
    (case get_n_events_by_type type of
       None \<Rightarrow> None
     | Some n_events \<Rightarrow>
         Some (if nomem then Inl ENOMEM
               else Inr [kb_code (bd_button b). i \<leftarrow> [0..<n_buttons k], b \<leftarrow> [kd_data k ! i],
                         kb_type (bd_button b) = type \<and> (only_disabled \<longrightarrow> bd_disabled b)]))"

text \<open>\<^verbatim>\<open>parsed\<close> is what \<^verbatim>\<open>bitmap_parselist\<close> makes of the text: an error or the codes named in it.\<close>

definition tq2440_keys_attr_store_helper ::
  "bool \<Rightarrow> (int + (int \<Rightarrow> bool)) \<Rightarrow> int \<Rightarrow> keys \<Rightarrow> (int \<times> keys) option" where
  "tq2440_keys_attr_store_helper nomem parsed type k =
    (case get_n_events_by_type type of
       None \<Rightarrow> None
     | Some n_events \<Rightarrow>
         Some (if nomem then (-12, k)
               else case parsed of
                 Inl err \<Rightarrow> (err, k)
               | Inr bits \<Rightarrow>
                   (0, fold (\<lambda>i k. if kb_type (bd_button (kd_data k ! i)) \<noteq> type then k
                                   else if bits (kb_code (bd_button (kd_data k ! i))) then tq2440_keys_disable_button i k
                                   else tq2440_keys_enable_button i k)
                       [0..<n_buttons k] k)))"

section \<open>Events\<close>

text \<open>\<^verbatim>\<open>level\<close> is the level of the pin.\<close>

definition tq2440_keys_report_event :: "(u32 \<Rightarrow> bool) \<Rightarrow> gpio_button_data \<Rightarrow> keys \<Rightarrow> keys" where
  "tq2440_keys_report_event level b k =
    (let button = bd_button b;
         type = (if kb_type button \<noteq> 0 then kb_type button else EV_KEY);
         state = (if level (kb_gpio button) then 1 else 0) XOR kb_active_low button
     in k\<lparr>events := events k @ [Input_event type (kb_code button) (if state \<noteq> 0 then 1 else 0), Input_sync]\<rparr>)"

definition tq2440_keys_work_func :: "(u32 \<Rightarrow> bool) \<Rightarrow> nat \<Rightarrow> keys \<Rightarrow> keys" where
  "tq2440_keys_work_func level i k = tq2440_keys_report_event level (kd_data k ! i) k"

definition tq2440_keys_timer :: "nat \<Rightarrow> keys \<Rightarrow> keys" where
  "tq2440_keys_timer i k = k\<lparr>kd_data := (kd_data k)[i := (kd_data k ! i)\<lparr>bd_work := True\<rparr>]\<rparr>"

definition tq2440_keys_isr :: "int \<Rightarrow> nat \<Rightarrow> keys \<Rightarrow> keys option" where
  "tq2440_keys_isr irq i k =
    (let b = kd_data k ! i in
     if irq \<noteq> gpio_to_irq (kb_gpio (bd_button b)) then None
     else Some (k\<lparr>kd_data := (kd_data k)[i := if timer_debounce b \<noteq> 0 then b\<lparr>bd_timer := True\<rparr> else b\<lparr>bd_work := True\<rparr>]\<rparr>))"

section \<open>Binding and removing\<close>

text \<open>What the calls made for one button return: an error or, for the last one, zero.\<close>

record key_outcome =
  ko_request :: int
  ko_direction :: int
  ko_irq :: int

text \<open>A pin that is requested and a line that has a handler are refused with \<^verbatim>\<open>-EBUSY\<close>.\<close>

definition gpio_request :: "key_outcome \<Rightarrow> u32 \<Rightarrow> keys \<Rightarrow> int \<times> keys" where
  "gpio_request oc gpio k =
    (if gpios k gpio then (-16, k)
     else if ko_request oc < 0 then (ko_request oc, k)
     else (ko_request oc, k\<lparr>gpios := (gpios k)(gpio := True)\<rparr>))"

definition gpio_free :: "u32 \<Rightarrow> keys \<Rightarrow> keys" where
  "gpio_free gpio k = k\<lparr>gpios := (gpios k)(gpio := False)\<rparr>"

definition request_key_irq :: "key_outcome \<Rightarrow> int \<Rightarrow> keys \<Rightarrow> int \<times> keys" where
  "request_key_irq oc irq k =
    (if irqs k irq then (-16, k)
     else if ko_irq oc \<noteq> 0 then (ko_irq oc, k)
     else (0, k\<lparr>irqs := (irqs k)(irq := True), irq_depth := (irq_depth k)(irq := 0)\<rparr>))"

definition tq2440_keys_setup_key :: "key_outcome \<Rightarrow> gpio_keys_button \<Rightarrow> keys \<Rightarrow> int \<times> keys" where
  "tq2440_keys_setup_key oc button k =
    (let gpio = kb_gpio button; (error, k) = gpio_request oc gpio k in
     if error < 0 then (error, k)
     else if ko_direction oc < 0 then (ko_direction oc, gpio_free gpio k)
     else let irq = gpio_to_irq gpio in
       if irq < 0 then (irq, gpio_free gpio k)
       else let (error, k) = request_key_irq oc irq k in
         if error \<noteq> 0 then (error, gpio_free gpio k) else (0, k))"

text \<open>The loop over the buttons: the error, if any, and how many buttons were set up.\<close>

fun setup_keys :: "(key_outcome \<times> gpio_keys_button) list \<Rightarrow> keys \<Rightarrow> int \<times> nat \<times> keys" where
  "setup_keys [] k = (0, 0, k)"
| "setup_keys ((oc, button) # bs) k =
    (let (error, k) = tq2440_keys_setup_key oc button k in
     if error \<noteq> 0 then (error, 0, k)
     else let (error, i, k) = setup_keys bs k in (error, Suc i, k))"

text \<open>Giving back what one button has, and the loop of the error path, which goes backwards.  The timer and the
  work of the button are stopped before its pin is freed.\<close>

definition stop_button :: "gpio_keys_button \<Rightarrow> gpio_button_data \<Rightarrow> gpio_button_data" where
  "stop_button button b =
    (if bd_button b = button then b\<lparr>bd_timer := bd_timer b \<and> timer_debounce b = 0, bd_work := False\<rparr> else b)"

definition release_key :: "gpio_keys_button \<Rightarrow> keys \<Rightarrow> keys" where
  "release_key button k =
    gpio_free (kb_gpio button)
      (k\<lparr>irqs := (irqs k)(gpio_to_irq (kb_gpio button) := False), kd_data := map (stop_button button) (kd_data k)\<rparr>)"

definition undo_keys :: "gpio_keys_button list \<Rightarrow> keys \<Rightarrow> keys" where
  "undo_keys buttons k = fold release_key (rev buttons) k"

definition new_button_data :: "gpio_keys_button \<Rightarrow> gpio_button_data" where
  "new_button_data button =
    \<lparr>bd_button = button, timer_debounce = 0, bd_disabled = False, bd_timer = False, bd_work = False\<rparr>"

definition tq2440_keys_probe ::
  "bool \<Rightarrow> (key_outcome \<times> gpio_keys_button) list \<Rightarrow> int \<Rightarrow> int \<Rightarrow> (u32 \<Rightarrow> bool) \<Rightarrow> keys \<Rightarrow> int \<times> keys" where
  "tq2440_keys_probe nomem bs sysfs_error register_error level k =
    (if nomem then (-12, k)
     else let buttons = map snd bs;
              (error, i, k) = setup_keys bs (k\<lparr>n_buttons := 0, kd_data := map new_button_data buttons\<rparr>)
       in if error \<noteq> 0 then (error, undo_keys (take i buttons) k)
          else if sysfs_error \<noteq> 0 then (sysfs_error, undo_keys (take i buttons) k)
          else let k = k\<lparr>sysfs_group := True\<rparr> in
            if register_error \<noteq> 0 then (register_error, undo_keys (take i buttons) (k\<lparr>sysfs_group := False\<rparr>))
            else let k = k\<lparr>registered := True\<rparr>;
                     k = fold (tq2440_keys_report_event level) (kd_data k) k
              in (0, k\<lparr>events := events k @ [Input_sync], may_wakeup := \<exists>b\<in>set buttons. kb_wakeup b\<rparr>))"

definition tq2440_keys_remove :: "gpio_keys_button list \<Rightarrow> keys \<Rightarrow> keys" where
  "tq2440_keys_remove buttons k =
    (let k = k\<lparr>sysfs_group := False, may_wakeup := False\<rparr> in
     (fold release_key buttons k)\<lparr>registered := False\<rparr>)"

text \<open>Suspending and resuming, which are compiled with \<^verbatim>\<open>CONFIG_PM\<close> only.\<close>

definition tq2440_keys_suspend :: "gpio_keys_button list \<Rightarrow> keys \<Rightarrow> keys" where
  "tq2440_keys_suspend buttons k =
    (if may_wakeup k
     then fold (\<lambda>b k. if kb_wakeup b then k\<lparr>wake := (wake k)(gpio_to_irq (kb_gpio b) := True)\<rparr> else k) buttons k
     else k)"

definition tq2440_keys_resume :: "(u32 \<Rightarrow> bool) \<Rightarrow> gpio_keys_button list \<Rightarrow> keys \<Rightarrow> keys" where
  "tq2440_keys_resume level buttons k =
    (let k = fold (\<lambda>i k.
         let b = buttons ! i;
             k = (if kb_wakeup b \<and> may_wakeup k then k\<lparr>wake := (wake k)(gpio_to_irq (kb_gpio b) := False)\<rparr> else k)
         in tq2440_keys_report_event level (kd_data k ! i) k) [0..<length buttons] k
     in k\<lparr>events := events k @ [Input_sync]\<rparr>)"

section \<open>Resources\<close>

text \<open>What the driver holds outside its own memory.\<close>

definition held :: "keys \<Rightarrow> (u32 \<Rightarrow> bool) \<times> (int \<Rightarrow> bool) \<times> bool \<times> bool \<times> input_event list" where
  "held k = (gpios k, irqs k, sysfs_group k, registered k, events k)"

lemma setup_key_fails:
  "tq2440_keys_setup_key oc b k = (e, k') \<Longrightarrow> e \<noteq> 0 \<Longrightarrow> held k' = held k"
  by (auto simp: tq2440_keys_setup_key_def gpio_request_def request_key_irq_def gpio_free_def held_def Let_def
      fun_eq_iff split: if_splits prod.splits)

lemma setup_key_takes:
  assumes "tq2440_keys_setup_key oc b k = (0, k')"
  shows "held k' = ((gpios k)(kb_gpio b := True), (irqs k)(gpio_to_irq (kb_gpio b) := True), sysfs_group k, registered k, events k)"
    "\<not> gpios k (kb_gpio b)" "\<not> irqs k (gpio_to_irq (kb_gpio b))" "kd_data k' = kd_data k" "n_buttons k' = n_buttons k"
    "may_wakeup k' = may_wakeup k"
  using assms
  by (auto simp: tq2440_keys_setup_key_def gpio_request_def request_key_irq_def gpio_free_def held_def Let_def
      fun_eq_iff split: if_splits prod.splits)

lemma held_release:
  "held (release_key b k) =
    (case held k of (g, q, r) \<Rightarrow> (g(kb_gpio b := False), q(gpio_to_irq (kb_gpio b) := False), r))"
  by (simp add: release_key_def gpio_free_def held_def)

lemma undo_setup:
  "setup_keys bs k = (e, i, k') \<Longrightarrow> held (undo_keys (take i (map snd bs)) k') = held k"
proof (induction bs arbitrary: k e i)
  case Nil
  then show ?case by (simp add: undo_keys_def)
next
  case (Cons ob bs)
  obtain oc b where ob: "ob = (oc, b)" by (cases ob)
  obtain e1 k1 where k1: "tq2440_keys_setup_key oc b k = (e1, k1)" by (cases "tq2440_keys_setup_key oc b k")
  show ?case
  proof (cases "e1 = 0")
    case True
    with Cons.prems ob k1 obtain j where j: "setup_keys bs k1 = (e, j, k')" "i = Suc j"
      by (auto split: prod.splits)
    have "held (undo_keys (take i (map snd (ob # bs))) k') = held (release_key b (undo_keys (take j (map snd bs)) k'))"
      by (simp add: ob j undo_keys_def)
    also have "\<dots> = held k"
      unfolding held_release Cons.IH [OF j(1)] setup_key_takes(1) [OF k1 [unfolded True]]
      using setup_key_takes(2,3) [OF k1 [unfolded True]] by (simp add: held_def fun_upd_idem)
    finally show ?thesis .
  next
    case False
    with Cons.prems ob k1 show ?thesis
      using setup_key_fails [OF k1 False] by (simp add: undo_keys_def)
  qed
qed

lemma setup_keys_ok:
  assumes "setup_keys bs k = (0, i, k')"
  shows "i = length bs \<and> (\<forall>b\<in>snd ` set bs. gpios k' (kb_gpio b) \<and> irqs k' (gpio_to_irq (kb_gpio b))) \<and>
    gpios k \<le> gpios k' \<and> irqs k \<le> irqs k' \<and>
    (kd_data k', n_buttons k', events k', sysfs_group k', registered k') =
      (kd_data k, n_buttons k, events k, sysfs_group k, registered k)"
  using assms
proof (induction bs arbitrary: k i)
  case (Cons ob bs)
  obtain oc b where ob: "ob = (oc, b)" by (cases ob)
  obtain e1 k1 where k1: "tq2440_keys_setup_key oc b k = (e1, k1)" by (cases "tq2440_keys_setup_key oc b k")
  with Cons.prems ob have e1: "e1 = 0" by (auto split: if_splits)
  with Cons.prems ob k1 obtain j where j: "setup_keys bs k1 = (0, j, k')" "i = Suc j"
    by (auto split: prod.splits)
  note takes = setup_key_takes [OF k1 [unfolded e1]]
  from takes(1) have "gpios k1 = (gpios k)(kb_gpio b := True)" "irqs k1 = (irqs k)(gpio_to_irq (kb_gpio b) := True)"
    "events k1 = events k" "sysfs_group k1 = sysfs_group k" "registered k1 = registered k"
    by (simp_all add: held_def)
  with Cons.IH [OF j(1)] j(2) takes(4,5) ob show ?case
    by (auto simp: le_fun_def)
qed simp

text \<open>The events of one report.\<close>

definition key_events :: "(u32 \<Rightarrow> bool) \<Rightarrow> gpio_keys_button \<Rightarrow> input_event list" where
  "key_events level b =
    [Input_event (if kb_type b \<noteq> 0 then kb_type b else EV_KEY) (kb_code b)
       (if (if level (kb_gpio b) then 1 else 0) XOR kb_active_low b \<noteq> 0 then 1 else 0), Input_sync]"

lemma report_events: "tq2440_keys_report_event level d k = k\<lparr>events := events k @ key_events level (bd_button d)\<rparr>"
  by (simp add: tq2440_keys_report_event_def key_events_def Let_def)

lemma fold_report:
  "fold (tq2440_keys_report_event level) ds k =
    k\<lparr>events := events k @ concat (map (key_events level \<circ> bd_button) ds)\<rparr>"
  by (induction ds arbitrary: k) (simp_all add: report_events)

lemma fold_release:
  "fold release_key bs k =
    k\<lparr>gpios := (\<lambda>g. gpios k g \<and> g \<notin> kb_gpio ` set bs),
      irqs := (\<lambda>q. irqs k q \<and> q \<notin> (gpio_to_irq \<circ> kb_gpio) ` set bs),
      kd_data := map (fold stop_button bs) (kd_data k)\<rparr>"
proof (induction bs arbitrary: k)
  case Nil
  have "fold stop_button [] = id" by simp
  then show ?case by (simp only: map_ident list.map_id fold.simps id_apply) simp
next
  case (Cons b bs)
  have "fold stop_button (b # bs) = fold stop_button bs \<circ> stop_button b" by simp
  then show ?case
    using Cons by (auto simp: release_key_def gpio_free_def fun_eq_iff)
qed

lemma keys_probe_fails:
  assumes "tq2440_keys_probe nomem bs sysfs_error register_error level k = (e, k')" "e \<noteq> 0" "\<not> sysfs_group k"
  shows "held k' = held k"
proof -
  let ?k = "k\<lparr>n_buttons := 0, kd_data := map new_button_data (map snd bs)\<rparr>"
  obtain e1 i k1 where k1: "setup_keys bs ?k = (e1, i, k1)" by (cases "setup_keys bs ?k") auto
  have undo: "held (undo_keys (take i (map snd bs)) k1) = held k"
    using undo_setup [OF k1] by (simp add: held_def)
  have "held (undo_keys bl (k1\<lparr>sysfs_group := False\<rparr>)) = held (undo_keys bl k1)" if "e1 = 0" for bl
    using setup_keys_ok [of bs ?k i k1] k1 that assms(3) by (simp add: undo_keys_def fold_release held_def)
  with assms k1 undo show ?thesis
    by (auto simp: tq2440_keys_probe_def Let_def split: if_splits)
qed

lemma keys_probe_succeeds:
  assumes "tq2440_keys_probe nomem bs sysfs_error register_error level k = (0, k')"
  obtains k1 where
    "setup_keys bs (k\<lparr>n_buttons := 0, kd_data := map new_button_data (map snd bs)\<rparr>) = (0, length bs, k1)"
    "k' = k1\<lparr>sysfs_group := True, registered := True,
      events := events k @ concat (map (key_events level \<circ> snd) bs) @ [Input_sync],
      may_wakeup := \<exists>b\<in>snd ` set bs. kb_wakeup b\<rparr>"
    "\<not> nomem" "sysfs_error = 0" "register_error = 0" "n_buttons k' = 0"
    "\<forall>b\<in>snd ` set bs. gpios k' (kb_gpio b) \<and> irqs k' (gpio_to_irq (kb_gpio b))"
proof -
  let ?k = "k\<lparr>n_buttons := 0, kd_data := map new_button_data (map snd bs)\<rparr>"
  obtain e1 i k1 where k1: "setup_keys bs ?k = (e1, i, k1)" by (cases "setup_keys bs ?k") auto
  with assms have ok: "e1 = 0" "\<not> nomem" "sysfs_error = 0" "register_error = 0"
    by (auto simp: tq2440_keys_probe_def Let_def split: if_splits)
  with setup_keys_ok [of bs ?k i k1] k1 have set: "i = length bs" "events k1 = events k" "n_buttons k1 = 0"
    "kd_data k1 = map new_button_data (map snd bs)"
    "\<forall>b\<in>snd ` set bs. gpios k1 (kb_gpio b) \<and> irqs k1 (gpio_to_irq (kb_gpio b))"
    by auto
  with assms ok k1 have k': "k' = k1\<lparr>sysfs_group := True, registered := True,
      events := events k @ concat (map (key_events level \<circ> snd) bs) @ [Input_sync],
      may_wakeup := \<exists>b\<in>snd ` set bs. kb_wakeup b\<rparr>"
    by (auto simp: tq2440_keys_probe_def Let_def fold_report new_button_data_def comp_def)
  show thesis
    by (rule that [of k1]) (use k' ok k1 set in auto)
qed

text \<open>
  C39: binding the key driver is all or nothing.  Whatever call fails, for whichever button, the driver returns that
  error and every pin, interrupt line, attribute file and input device is as before.  When it succeeds, each
  button has its pin and its interrupt, the present state of each button has been reported once and in order, and
  removing the driver gives back exactly what it took.
\<close>

theorem keys_probe_all_or_nothing:
  assumes "tq2440_keys_probe nomem bs sysfs_error register_error level k = (e, k')" "\<not> sysfs_group k" "\<not> registered k"
  shows "if e \<noteq> 0 then held k' = held k
    else \<not> nomem \<and> sysfs_error = 0 \<and> register_error = 0 \<and> sysfs_group k' \<and> registered k' \<and>
      (\<forall>b\<in>snd ` set bs. gpios k' (kb_gpio b) \<and> irqs k' (gpio_to_irq (kb_gpio b))) \<and>
      events k' = events k @ concat (map (key_events level \<circ> snd) bs) @ [Input_sync] \<and>
      held (tq2440_keys_remove (map snd bs) k') = (gpios k, irqs k, False, False, events k')"
proof (cases "e = 0")
  case True
  with assms(1) obtain k1 where
    k1: "setup_keys bs (k\<lparr>n_buttons := 0, kd_data := map new_button_data (map snd bs)\<rparr>) = (0, length bs, k1)" and
    k': "k' = k1\<lparr>sysfs_group := True, registered := True,
      events := events k @ concat (map (key_events level \<circ> snd) bs) @ [Input_sync],
      may_wakeup := \<exists>b\<in>snd ` set bs. kb_wakeup b\<rparr>" and
    ok: "\<not> nomem" "sysfs_error = 0" "register_error = 0"
      "\<forall>b\<in>snd ` set bs. gpios k' (kb_gpio b) \<and> irqs k' (gpio_to_irq (kb_gpio b))"
    by (auto elim: keys_probe_succeeds)
  from undo_setup [OF k1] have "(\<lambda>g. gpios k1 g \<and> g \<notin> kb_gpio ` snd ` set bs) = gpios k"
    "(\<lambda>q. irqs k1 q \<and> q \<notin> (gpio_to_irq \<circ> kb_gpio) ` snd ` set bs) = irqs k"
    by (simp_all add: undo_keys_def fold_release held_def)
  then have "held (tq2440_keys_remove (map snd bs) k') = (gpios k, irqs k, False, False, events k')"
    by (simp add: tq2440_keys_remove_def fold_release held_def k' Let_def)
  with True ok show ?thesis by (simp add: k')
qed (use keys_probe_fails [OF assms(1) _ assms(2)] in simp)

text \<open>All calls succeed.\<close>

definition no_errors :: key_outcome where
  "no_errors = \<lparr>ko_request = 0, ko_direction = 0, ko_irq = 0\<rparr>"

definition idle_keys :: keys where
  "idle_keys = \<lparr>n_buttons = 0, kd_data = [], gpios = (\<lambda>_. False), irqs = (\<lambda>_. False), irq_depth = (\<lambda>_. 0),
     wake = (\<lambda>_. False), sysfs_group = False, registered = False, may_wakeup = False, events = []\<rparr>"

lemma board_lines: "map (gpio_to_irq \<circ> kb_gpio) gpio_buttons = [16, 17, 18, 48]"
  by (simp add: gpio_buttons_def gpio_to_irq_def bankf_toirq_def S3C2410_GPIO_BANKF_def S3C2410_GPIO_BANKG_def)

theorem keys_probe_all_or_nothing_witness:
  "let bad = no_errors\<lparr>ko_irq := -22\<rparr>;
       bs = zip [no_errors, no_errors, bad, no_errors] gpio_buttons;
       r = tq2440_keys_probe False bs 0 0 (\<lambda>_. True) idle_keys
   in fst r = -22 \<and> held (snd r) = held idle_keys"
proof -
  let ?bad = "no_errors\<lparr>ko_irq := -22\<rparr>"
  let ?bs = "zip [no_errors, no_errors, ?bad, no_errors] gpio_buttons"
  let ?r = "tq2440_keys_probe False ?bs 0 0 (\<lambda>_. True) idle_keys"
  have "fst ?r = -22"
    by (simp add: tq2440_keys_probe_def gpio_buttons_def idle_keys_def no_errors_def tq2440_keys_setup_key_def
        gpio_request_def request_key_irq_def gpio_to_irq_def bankf_toirq_def S3C2410_GPIO_BANKF_def
        S3C2410_GPIO_BANKG_def Let_def)
  moreover have "\<not> sysfs_group idle_keys" "\<not> registered idle_keys" by (simp_all add: idle_keys_def)
  moreover obtain e k' where r: "?r = (e, k')" by (cases ?r)
  ultimately show ?thesis
    using keys_probe_all_or_nothing [OF r] by (simp add: Let_def r)
qed

section \<open>The attribute files\<close>

text \<open>
  The number of buttons in the data of the driver is never set, so the files that disable buttons accept
  every request and do nothing.
\<close>

lemma disabled_keys_no_effect:
  assumes "tq2440_keys_probe nomem bs sysfs_error register_error level k = (0, k')" "type = EV_KEY \<or> type = EV_SW"
  shows "tq2440_keys_attr_store_helper False (Inr bits) type k' = Some (0, k')"
    "tq2440_keys_attr_show_helper False type only_disabled k' = Some (Inr [])"
proof -
  have "n_buttons k' = 0" using assms(1) by (rule keys_probe_succeeds)
  then show "tq2440_keys_attr_store_helper False (Inr bits) type k' = Some (0, k')"
    "tq2440_keys_attr_show_helper False type only_disabled k' = Some (Inr [])"
    using assms(2)
    by (auto simp: tq2440_keys_attr_store_helper_def tq2440_keys_attr_show_helper_def get_n_events_by_type_def)
qed

section \<open>Two drivers for the same buttons\<close>

text \<open>
  C40: the key driver and the button device exclude each other.  They use the same four interrupt lines: while the key
  driver is bound to the buttons of the board, opening the button device fails with \<^verbatim>\<open>EBUSY\<close> and changes nothing;
  and while the device is open, binding the key driver fails with \<^verbatim>\<open>-EBUSY\<close>, and every pin and line is as before.
\<close>

theorem button_drivers_exclude_each_other:
  assumes "map snd bs = gpio_buttons" "\<not> sysfs_group k" "\<not> registered k"
  shows "(tq2440_keys_probe nomem bs sysfs_error register_error level k = (0, k') \<longrightarrow>
      tq2440_irq_open (irqs k') s = (Inl EBUSY, s)) \<and>
    (tq2440_irq_open busy s = (Inr (), s') \<and> (\<forall>q. handlers s' q \<noteq> None \<longrightarrow> irqs k q) \<and>
        \<not> gpios k S3C2410_GPIO_BANKF \<and> fst (hd bs) = no_errors \<longrightarrow>
      (\<exists>k'. tq2440_keys_probe False bs sysfs_error register_error level k = (-16, k') \<and> held k' = held k))"
proof (intro conjI impI; (elim conjE)?)
  assume probe: "tq2440_keys_probe nomem bs sysfs_error register_error level k = (0, k')"
  have "\<forall>b\<in>snd ` set bs. irqs k' (gpio_to_irq (kb_gpio b))"
    using probe by (rule keys_probe_succeeds) blast
  then have "\<forall>q\<in>set (map (gpio_to_irq \<circ> kb_gpio) (map snd bs)). irqs k' q"
    by simp
  then have "irqs k' 17" unfolding assms(1) board_lines by simp
  then show "tq2440_irq_open (irqs k') s = (Inl EBUSY, s)"
    by (intro open_busy [of "button_irqs ! 0"]) (simp_all add: button_irqs_def)
next
  assume "tq2440_irq_open busy s = (Inr (), s')" "\<forall>q. handlers s' q \<noteq> None \<longrightarrow> irqs k q"
    "\<not> gpios k S3C2410_GPIO_BANKF" "fst (hd bs) = no_errors"
  from open_lines [OF this(1)] have "handlers s' 16 \<noteq> None" by (simp add: button_irqs_def)
  then have "irqs k 16" using \<open>\<forall>q. handlers s' q \<noteq> None \<longrightarrow> irqs k q\<close> by blast
  obtain b bs' where bs: "bs = (no_errors, b) # bs'" "kb_gpio b = S3C2410_GPIO_BANKF" "gpio_to_irq (kb_gpio b) = 16"
    using assms(1) \<open>fst (hd bs) = no_errors\<close> arg_cong [OF board_lines, of hd]
    by (cases bs) (auto simp: gpio_buttons_def)
  have "fst (tq2440_keys_probe False bs sysfs_error register_error level k) = -16"
    using \<open>irqs k 16\<close> \<open>\<not> gpios k S3C2410_GPIO_BANKF\<close> bs(2,3)
    by (simp add: bs(1) tq2440_keys_probe_def tq2440_keys_setup_key_def gpio_request_def request_key_irq_def
        no_errors_def gpio_free_def Let_def)
  then obtain k' where "tq2440_keys_probe False bs sysfs_error register_error level k = (-16, k')"
    by (metis prod.collapse)
  with keys_probe_fails [OF this _ assms(2)]
  show "\<exists>k'. tq2440_keys_probe False bs sysfs_error register_error level k = (-16, k') \<and> held k' = held k"
    by simp
qed

theorem button_drivers_exclude_each_other_witness:
  "let bs = map (Pair no_errors) gpio_buttons;
       r = tq2440_keys_probe False bs 0 0 (\<lambda>_. True) idle_keys
   in fst r = 0 \<and> tq2440_irq_open (irqs (snd r)) released = (Inl EBUSY, released)"
proof -
  let ?bs = "map (Pair no_errors) gpio_buttons"
  let ?r = "tq2440_keys_probe False ?bs 0 0 (\<lambda>_. True) idle_keys"
  have "fst ?r = 0"
    by (simp add: tq2440_keys_probe_def gpio_buttons_def idle_keys_def no_errors_def tq2440_keys_setup_key_def
        gpio_request_def request_key_irq_def gpio_to_irq_def bankf_toirq_def S3C2410_GPIO_BANKF_def
        S3C2410_GPIO_BANKG_def Let_def)
  moreover obtain e k' where r: "?r = (e, k')" by (cases ?r)
  moreover have "map snd ?bs = gpio_buttons" by (simp add: comp_def)
  ultimately show ?thesis
    using button_drivers_exclude_each_other [of ?bs idle_keys False 0 0 "\<lambda>_. True" k' released]
    by (simp add: Let_def idle_keys_def)
qed

end
