(* ===== verification/Board_Touch.thy ===== *)
theory Board_Touch
  imports Board_Gpio
begin

text \<open>
  The touch screen (\<^verbatim>\<open>drivers/input/touchscreen/tq2440_ts.c\<close>) and the converter device
  (\<^verbatim>\<open>drivers/char/EmbedSky_adc.c\<close>).  Both use the one analog-to-digital converter of the processor and take
  the semaphore \<^verbatim>\<open>ADC_LOCK\<close> to share it: the touch screen from the interrupt of a pen going down until a
  timer finds it up, the converter device for the time of a read.  The interrupt handlers, the timer and the two
  halves of a read are the steps of a transition system.
\<close>

section \<open>State\<close>

definition ADCCON_ENABLE_START :: u32 where "ADCCON_ENABLE_START = 1"
definition ADCTSC_PULL_UP_DISABLE :: u32 where "ADCTSC_PULL_UP_DISABLE = 8"
definition ADCDAT_UPDOWN :: u32 where "ADCDAT_UPDOWN = 0x8000"
definition ADCDAT_MASK :: u32 where "ADCDAT_MASK = 0x3FF"

definition WAIT4INT :: "u32 \<Rightarrow> u32" where
  "WAIT4INT x = push_bit 8 x OR 0x80 OR 0x40 OR 0x10 OR 3"

definition AUTOPST :: u32 where
  "AUTOPST = 0x80 OR 0x40 OR 0x10 OR 4 OR 0"

text \<open>What the driver gives to the input layer.\<close>

datatype report = Abs_X int | Abs_Y int | Btn_Touch int | Abs_Pressure int | Sync

text \<open>
  The variables of the two drivers, the registers of the converter they write, and the state of the outside:
  \<^verbatim>\<open>adc_busy\<close> holds from a write of the start bit until the interrupt that ends the conversion,
  \<^verbatim>\<open>timer_pending\<close> from \<^verbatim>\<open>mod_timer\<close> until the timer fires, and \<^verbatim>\<open>in_read\<close> while a read of the converter device has
  the semaphore.
\<close>

record adc =
  xp :: int
  yp :: int
  samples :: int
  OwnADC :: bool
  ADC_LOCK :: nat
  adccon :: u32
  adctsc :: u32
  reports :: "report list"
  adc_channel :: u32
  adc_prescale :: u32
  iSaveADCTSC :: u32
  adc_busy :: bool
  timer_pending :: bool
  in_read :: bool

definition up_lock :: "adc \<Rightarrow> adc" where
  "up_lock s = s\<lparr>ADC_LOCK := ADC_LOCK s + 1\<rparr>"

definition start_conversion :: "adc \<Rightarrow> adc" where
  "start_conversion s = s\<lparr>adccon := adccon s OR ADCCON_ENABLE_START, adc_busy := True\<rparr>"

section \<open>The touch screen\<close>

text \<open>The pen is down when neither of the two data registers has the bit \<^verbatim>\<open>UPDOWN\<close>.\<close>

definition pen_down :: "u32 \<Rightarrow> u32 \<Rightarrow> bool" where
  "pen_down data0 data1 \<longleftrightarrow> data0 AND ADCDAT_UPDOWN = 0 \<and> data1 AND ADCDAT_UPDOWN = 0"

definition touch_timer_fire :: "u32 \<Rightarrow> u32 \<Rightarrow> adc \<Rightarrow> adc" where
  "touch_timer_fire data0 data1 s =
    (if pen_down data0 data1
     then (let rep = (if samples s \<noteq> 0
                      then [Abs_X (yp s div 4), Abs_Y (xp s div 4), Btn_Touch 1, Abs_Pressure 1, Sync] else [])
           in start_conversion
                (s\<lparr>xp := 0, yp := 0, samples := 0, reports := reports s @ rep,
                   adctsc := ADCTSC_PULL_UP_DISABLE OR AUTOPST\<rparr>))
     else (let s = s\<lparr>samples := 0, reports := reports s @ [Btn_Touch 0, Abs_Pressure 0, Sync], adctsc := WAIT4INT 0\<rparr>
           in if OwnADC s then up_lock (s\<lparr>OwnADC := False\<rparr>) else s))"

text \<open>
  The handler reads the data registers, and the function it calls for a pen that is down reads them again.
\<close>

definition stylus_updown :: "u32 \<Rightarrow> u32 \<Rightarrow> u32 \<Rightarrow> u32 \<Rightarrow> adc \<Rightarrow> adc" where
  "stylus_updown data0 data1 data0' data1' s =
    (case down_trylock (ADC_LOCK s) of
       None \<Rightarrow> s
     | Some n \<Rightarrow>
         (let s = s\<lparr>ADC_LOCK := n, OwnADC := True\<rparr> in
          if pen_down data0 data1 then touch_timer_fire data0' data1' s
          else up_lock (s\<lparr>OwnADC := False\<rparr>)))"

definition stylus_action :: "u32 \<Rightarrow> u32 \<Rightarrow> adc \<Rightarrow> adc" where
  "stylus_action data0 data1 s =
    (if OwnADC s
     then (let s = s\<lparr>xp := xp s + uint (data0 AND ADCDAT_MASK), yp := yp s + uint (data1 AND ADCDAT_MASK),
                     samples := samples s + 1\<rparr>
           in if samples s < 4 then start_conversion (s\<lparr>adctsc := ADCTSC_PULL_UP_DISABLE OR AUTOPST\<rparr>)
              else s\<lparr>timer_pending := True, adctsc := WAIT4INT 1\<rparr>)
     else s)"

definition tq2440ts_init :: "adc \<Rightarrow> adc" where
  "tq2440ts_init s = s\<lparr>adccon := 0x4000 OR push_bit 6 (0xFF AND 0xFF), adctsc := WAIT4INT 0\<rparr>"

section \<open>The converter device\<close>

definition tq2440_adc_open :: "adc \<Rightarrow> adc" where
  "tq2440_adc_open s = s\<lparr>adc_channel := 2, adc_prescale := 0xFF\<rparr>"

definition tq2440_adc_ioctl :: "u32 \<Rightarrow> u32 \<Rightarrow> adc \<Rightarrow> unit result \<times> adc" where
  "tq2440_adc_ioctl cmd arg s =
    (if 4 < arg then (Inl EINVAL, s)
     else if cmd \<le> 3 then (Inr (), s\<lparr>adc_channel := cmd\<rparr>)
     else (Inl EINVAL, s))"

text \<open>
  A read up to the wait for the conversion, when the semaphore is free; otherwise it fails.  The mask
  \<^verbatim>\<open>~0x1<<2\<close> clears the bits 0 to 2.
\<close>

definition adc_read_start :: "adc \<Rightarrow> adc option" where
  "adc_read_start s =
    (case down_trylock (ADC_LOCK s) of
       None \<Rightarrow> None
     | Some n \<Rightarrow>
         (let s = start_conversion (s\<lparr>ADC_LOCK := n, in_read := True,
                adccon := 0x4000 OR push_bit 6 (adc_prescale s) OR push_bit 3 (adc_channel s)\<rparr>);
              s = s\<lparr>iSaveADCTSC := adctsc s\<rparr>
          in Some (start_conversion (s\<lparr>adctsc := adctsc s AND push_bit 2 (NOT 1)\<rparr>))))"

text \<open>The decimal digits that \<^verbatim>\<open>sprintf\<close> writes for \<^verbatim>\<open>%d\<close>.\<close>

fun decimal :: "nat \<Rightarrow> u8 list" where
  "decimal n = (if n < 10 then [0x30 + word_of_nat n] else decimal (n div 10) @ [0x30 + word_of_nat (n mod 10)])"

declare decimal.simps [simp del]

text \<open>
  The rest of the read: the four bytes of the value are stored in the caller's memory before its size is looked at;
  the text with its newline follows when it fits.  The result is the value returned, the memory, and the state;
  \<^verbatim>\<open>mem\<close> is the memory from the buffer on.
\<close>

definition adc_bytes :: "u32 \<Rightarrow> u8 list" where
  "adc_bytes v = map (\<lambda>i. ucast (drop_bit (8 * i) v)) [0..<4]"

definition adc_read_finish :: "u32 \<Rightarrow> nat \<Rightarrow> u8 list \<Rightarrow> adc \<Rightarrow> int \<times> u8 list \<times> adc" where
  "adc_read_finish adcdat0 cnt mem s =
    (let v = adcdat0 AND 0x3FF;
         s = up_lock (s\<lparr>adctsc := iSaveADCTSC s, in_read := False\<rparr>);
         mem = adc_bytes v @ drop 4 mem;
         str = decimal (unat v) @ [0x0A]
     in if length str \<le> cnt then (int (length str), str @ drop (length str) mem, s) else (-1, mem, s))"

section \<open>Steps\<close>

text \<open>
  The touch screen interrupt may come at any time; the converter's interrupt comes for a conversion that was
  started, the timer when it is pending, and a read ends after it began.
\<close>

inductive adc_step :: "adc \<Rightarrow> adc \<Rightarrow> bool" where
  tc_irq: "adc_step s (stylus_updown d0 d1 d0' d1' s)"
| adc_irq: "adc_busy s \<Longrightarrow> adc_step s (stylus_action d0 d1 (s\<lparr>adc_busy := False\<rparr>))"
| timer: "timer_pending s \<Longrightarrow> adc_step s (touch_timer_fire d0 d1 (s\<lparr>timer_pending := False\<rparr>))"
| read_start: "adc_read_start s = Some s' \<Longrightarrow> adc_step s s'"
| read_finish: "in_read s \<Longrightarrow> adc_read_finish d cnt mem s = (r, mem', s') \<Longrightarrow> adc_step s s'"
| ioctl: "tq2440_adc_ioctl cmd arg s = (r, s') \<Longrightarrow> adc_step s s'"
| open_adc: "adc_step s (tq2440_adc_open s)"

definition loaded :: adc where
  "loaded = tq2440ts_init
    \<lparr>xp = 0, yp = 0, samples = 0, OwnADC = False, ADC_LOCK = 1, adccon = 0, adctsc = 0, reports = [],
     adc_channel = 0, adc_prescale = 0, iSaveADCTSC = 0, adc_busy = False, timer_pending = False, in_read = False\<rparr>"

section \<open>The converter is shared\<close>

definition lock_inv :: "adc \<Rightarrow> bool" where
  "lock_inv s \<longleftrightarrow> ADC_LOCK s + of_bool (OwnADC s) + of_bool (in_read s) = 1"

definition sample_inv :: "adc \<Rightarrow> bool" where
  "sample_inv s \<longleftrightarrow>
    (if OwnADC s
     then adc_busy s \<noteq> timer_pending s \<and> 0 \<le> samples s \<and> samples s \<le> 4 \<and> (samples s = 4 \<longleftrightarrow> timer_pending s) \<and>
       0 \<le> xp s \<and> xp s \<le> samples s * 0x3FF \<and> 0 \<le> yp s \<and> yp s \<le> samples s * 0x3FF
     else samples s = 0 \<and> \<not> timer_pending s)"

fun in_range :: "report \<Rightarrow> bool" where
  "in_range (Abs_X x) \<longleftrightarrow> 0 \<le> x \<and> x \<le> 0x3FF"
| "in_range (Abs_Y y) \<longleftrightarrow> 0 \<le> y \<and> y \<le> 0x3FF"
| "in_range (Btn_Touch b) \<longleftrightarrow> b = 0 \<or> b = 1"
| "in_range (Abs_Pressure p) \<longleftrightarrow> p = 0 \<or> p = 1"
| "in_range Sync \<longleftrightarrow> True"

definition adc_inv :: "adc \<Rightarrow> bool" where
  "adc_inv s \<longleftrightarrow> lock_inv s \<and> sample_inv s \<and> list_all in_range (reports s)"

lemma sample_bound: "0 \<le> uint (d AND ADCDAT_MASK)" "uint (d AND ADCDAT_MASK) \<le> 0x3FF"
proof -
  have "d AND ADCDAT_MASK \<le> ADCDAT_MASK" by (rule word_and_le1)
  then have "uint (d AND ADCDAT_MASK) \<le> uint ADCDAT_MASK" by (simp add: word_le_def)
  then show "uint (d AND ADCDAT_MASK) \<le> 0x3FF" by (simp add: ADCDAT_MASK_def)
qed simp

lemma touch_timer_inv:
  assumes "lock_inv s" "OwnADC s" "list_all in_range (reports s)" "\<not> timer_pending s"
    "samples s = 0 \<or> samples s = 4 \<and> 0 \<le> xp s \<and> xp s \<le> 4 * 0x3FF \<and> 0 \<le> yp s \<and> yp s \<le> 4 * 0x3FF"
  shows "adc_inv (touch_timer_fire d0 d1 s)"
  using assms
  by (auto simp: adc_inv_def lock_inv_def sample_inv_def touch_timer_fire_def start_conversion_def up_lock_def Let_def)

lemma stylus_updown_inv:
  assumes "adc_inv s"
  shows "adc_inv (stylus_updown d0 d1 d0' d1' s)"
proof (cases "ADC_LOCK s")
  case 0
  then show ?thesis using assms by (simp add: stylus_updown_def down_trylock_def)
next
  case (Suc n)
  with assms have free: "\<not> OwnADC s" "\<not> in_read s" "n = 0" "samples s = 0" "\<not> timer_pending s"
    by (auto simp: adc_inv_def lock_inv_def sample_inv_def of_bool_def split: if_splits)
  show ?thesis
  proof (cases "pen_down d0 d1")
    case True
    have "adc_inv (touch_timer_fire d0' d1' (s\<lparr>ADC_LOCK := n, OwnADC := True\<rparr>))"
      using assms free by (intro touch_timer_inv) (auto simp: adc_inv_def lock_inv_def)
    with Suc True show ?thesis by (simp add: stylus_updown_def down_trylock_def)
  next
    case False
    with Suc free assms show ?thesis
      by (auto simp: stylus_updown_def down_trylock_def up_lock_def adc_inv_def lock_inv_def sample_inv_def)
  qed
qed

lemma stylus_action_inv:
  assumes "adc_inv s" "adc_busy s"
  shows "adc_inv (stylus_action d0 d1 (s\<lparr>adc_busy := False\<rparr>))"
  using assms sample_bound [of d0] sample_bound [of d1]
  by (auto simp: adc_inv_def lock_inv_def sample_inv_def stylus_action_def start_conversion_def Let_def)

lemma read_inv:
  "adc_inv s \<Longrightarrow> adc_read_start s = Some s' \<Longrightarrow> adc_inv s'"
  "adc_inv s \<Longrightarrow> in_read s \<Longrightarrow> adc_read_finish d cnt mem s = (r, mem', s') \<Longrightarrow> adc_inv s'"
  by (auto simp: adc_inv_def lock_inv_def sample_inv_def adc_read_start_def adc_read_finish_def start_conversion_def
      up_lock_def down_trylock_def Let_def of_bool_def split: if_splits)

lemma adc_step_inv: "adc_step s s' \<Longrightarrow> adc_inv s \<Longrightarrow> adc_inv s'"
proof (induction rule: adc_step.induct)
  case (timer s d0 d1)
  then show ?case
    by (intro touch_timer_inv) (auto simp: adc_inv_def lock_inv_def sample_inv_def split: if_splits)
next
  case (ioctl cmd arg s r s')
  then show ?case
    by (auto simp: tq2440_adc_ioctl_def adc_inv_def lock_inv_def sample_inv_def split: if_splits)
next
  case (open_adc s)
  then show ?case by (simp add: tq2440_adc_open_def adc_inv_def lock_inv_def sample_inv_def)
qed (auto intro: stylus_updown_inv stylus_action_inv read_inv)

lemma adc_runs_inv: "adc_step\<^sup>*\<^sup>* loaded s \<Longrightarrow> adc_inv s"
proof (induction rule: rtranclp_induct)
  case base
  show ?case by (simp add: loaded_def tq2440ts_init_def adc_inv_def lock_inv_def sample_inv_def)
qed (rule adc_step_inv)



section \<open>Positions\<close>

text \<open>
  A reported position is the mean of four samples.  When the touch screen has just taken the converter and four
  conversions end, and the timer then finds the pen down, the driver reports the means, rounded down, of
  the four samples of each direction, with the two directions exchanged, and starts over.
\<close>

theorem touch_reports_mean:
  assumes "OwnADC s" "samples s = 0" "xp s = 0" "yp s = 0" "pen_down e0 e1"
    "s' = fold (\<lambda>(d0, d1). stylus_action d0 d1) [(a0, b0), (a1, b1), (a2, b2), (a3, b3)] s"
  shows "timer_pending s' \<and>
    reports (touch_timer_fire e0 e1 s') = reports s @
      [Abs_X ((\<Sum>b\<leftarrow>[b0, b1, b2, b3]. uint (b AND 0x3FF)) div 4),
       Abs_Y ((\<Sum>a\<leftarrow>[a0, a1, a2, a3]. uint (a AND 0x3FF)) div 4), Btn_Touch 1, Abs_Pressure 1, Sync] \<and>
    samples (touch_timer_fire e0 e1 s') = 0 \<and> adc_busy (touch_timer_fire e0 e1 s')"
proof -
  have "samples s' = 4 \<and> timer_pending s' \<and> reports s' = reports s \<and>
      xp s' = (\<Sum>a\<leftarrow>[a0, a1, a2, a3]. uint (a AND ADCDAT_MASK)) \<and>
      yp s' = (\<Sum>b\<leftarrow>[b0, b1, b2, b3]. uint (b AND ADCDAT_MASK))"
    using assms(1-4) unfolding assms(6)
    by (simp add: stylus_action_def start_conversion_def Let_def)
  then show ?thesis
    using assms(5) by (simp add: touch_timer_fire_def start_conversion_def Let_def ADCDAT_MASK_def)
qed

theorem touch_reports_mean_witness:
  "let s = stylus_updown 0 0 0 0 loaded;
       s' = fold (\<lambda>(d0, d1). stylus_action d0 d1) [(100, 7), (104, 8), (100, 8), (100, 9)] s
   in reports (touch_timer_fire 0 0 s') = [Abs_X 8, Abs_Y 101, Btn_Touch 1, Abs_Pressure 1, Sync]"
proof -
  let ?s = "stylus_updown 0 0 0 0 loaded"
  have "OwnADC ?s" "samples ?s = 0" "xp ?s = 0" "yp ?s = 0" "reports ?s = []"
    by (simp_all add: stylus_updown_def loaded_def tq2440ts_init_def down_trylock_def pen_down_def
        touch_timer_fire_def start_conversion_def Let_def)
  moreover have "pen_down 0 0" by (simp add: pen_down_def)
  ultimately show ?thesis
    using touch_reports_mean [of ?s 0 0 _ 100 7 104 8 100 8 100 9] by (simp add: Let_def)
qed

section \<open>Reading the converter\<close>

lemma decimal_value: "foldl (\<lambda>n c. 10 * n + unat (c - 0x30)) 0 (decimal n) = n"
proof (induction n rule: decimal.induct)
  case (1 n)
  have digit: "unat ((0x30 + word_of_nat k :: u8) - 0x30) = k" if "k < 10" for k
    using that by (simp add: unat_of_nat)
  show ?case
    using 1 digit [of n] digit [of "n mod 10"] by (subst decimal.simps) (auto simp del: add_diff_cancel_left')
qed

text \<open>
  A read leaves the touch screen's registers and variables as they were and releases the semaphore; it stores the
  value as text when the buffer is large enough, and it changes four bytes of memory whatever the size of the
  buffer.
\<close>

lemma adc_read_memory:
  assumes "adc_read_start s = Some s1" "adc_read_finish d cnt mem s1 = (r, mem', s')"
  shows "ADC_LOCK s' = ADC_LOCK s \<and> adctsc s' = adctsc s \<and> xp s' = xp s \<and> yp s' = yp s \<and> samples s' = samples s \<and>
    (let str = decimal (unat (d AND 0x3FF)) @ [0x0A] in
     if length str \<le> cnt then r = int (length str) \<and> take (length str) mem' = str
     else r = -1 \<and> take 4 mem' = adc_bytes (d AND 0x3FF))"
  using assms
  by (auto simp: adc_read_start_def adc_read_finish_def start_conversion_def up_lock_def down_trylock_def Let_def
      adc_bytes_def split: if_splits)

end
