(* ===== verification/Spec2Isabelle.thy ===== *)
theory Spec2Isabelle
  imports Exec_Spec Ext2_Acl Sem_Spec Kfifo_Spec Script_Spec Uboot_Command Board_Keys Board_Touch
begin

text \<open>
  A verification development for the software of the EmbedSky TQ2440 board (a Samsung S3C2440, 32-bit ARM):
  the boot loader under \<^verbatim>\<open>src/u-boot-1.1.6\<close> and the kernel with the drivers of the board under
  \<^verbatim>\<open>src/linux-2.6.30.4\<close>.  File names below are relative to these two directories.

  \<^bold>\<open>The parts and how they interact.\<close>  The boot loader reads its environment from NAND flash, checks it with a
  CRC, lets the user change it and starts the kernel.  In the kernel the credentials of a task (ids,
  supplementary groups, capability sets, secure bits) are changed by the identity system calls and by
  \<^verbatim>\<open>execve\<close>, under the rules of the default security module, and decide in the permission checks of the file
  system, in the calls that change attributes, and in System V IPC.  The drivers of the board connect the pins, the
  converter and the timer of the processor to programs.

  \<^bold>\<open>Theories of the kernel part.\<close>
  \<^item> \<open>Kernel_Prelude\<close>: machine integers, error numbers, the type of results, and lemmas shared by all theories.
  \<^item> \<open>Capability\<close> (\<^verbatim>\<open>include/linux/capability.h\<close>): the two-word capability sets, which implement sets of numbers
    (interface \<open>capability_sets\<close>).  \<open>Group_Info\<close> (\<^verbatim>\<open>kernel/sys.c\<close>): the block array of groups; its Shell sort sorts,
    its search is membership for ids that are close enough.
  \<^item> \<open>Cred\<close> (\<^verbatim>\<open>kernel/cred.c\<close>): the state \<open>kernel\<close> with the current task, the copy-modify-commit protocol, and the
    interface \<open>lsm\<close> of a security module.  \<open>Commoncap\<close> (\<^verbatim>\<open>security/commoncap.c\<close>): the default module, which
    implements that interface.
  \<^item> \<open>Setid\<close>, \<open>Syscap\<close> (\<^verbatim>\<open>kernel/sys.c\<close>, \<^verbatim>\<open>kernel/capability.c\<close>): the system calls; \<open>Setid_Spec\<close> and \<open>Syscap_Spec\<close> give
    their behaviour in every case, errors included.  \<open>Exec\<close> (\<^verbatim>\<open>fs/exec.c\<close>): the credential path of \<^verbatim>\<open>execve\<close>;
    \<open>Exec_Spec\<close> its behaviour.  \<open>Privilege\<close>, \<open>Exec_Privilege\<close> and \<open>Identity_Runs\<close>: what one call, one execution and a
    sequence of them can do to the privileges of a task; the properties of whole runs are in this theory.
  \<^item> \<open>Script\<close> and \<open>Script_Spec\<close> (\<^verbatim>\<open>fs/binfmt_script.c\<close>): the parser of the first line of a script.
  \<^item> \<open>Stat\<close>, \<open>Posix_Acl\<close>, \<open>Namei\<close>, \<open>Attr\<close>, \<open>Open\<close> with \<open>Namei_Spec\<close> and \<open>Open_Spec\<close> (\<^verbatim>\<open>fs/posix_acl.c\<close>, \<^verbatim>\<open>fs/namei.c\<close>,
    \<^verbatim>\<open>fs/attr.c\<close>, \<^verbatim>\<open>fs/open.c\<close>): access control lists, permission checks, attribute changes and the system calls on
    them; the checks implement the semantics of POSIX access control lists.
  \<^item> \<open>Acl_Format\<close> and \<open>Ext2_Acl\<close> (\<^verbatim>\<open>fs/ext2/acl.c\<close>, \<^verbatim>\<open>fs/xattr_acl.c\<close>, \<^verbatim>\<open>ext2_setattr\<close> of \<^verbatim>\<open>fs/ext2/inode.c\<close>): the two
    formats of an ACL outside memory, which round-trip, and the ACLs of an ext2 inode with their cache.  They stay in
    step with the mode from creation on, which is what the permission check of \<open>Namei\<close> relies on; a failing write to
    the disk breaks this.
  \<^item> \<open>Sem\<close> and \<open>Sem_Spec\<close> (\<^verbatim>\<open>ipc/sem.c\<close>): one semaphore set with sleepers and undo; calls are all or nothing, no
    operation sleeps that could be done, and exit gives back what was taken.
  \<^item> \<open>Kfifo\<close> and \<open>Kfifo_Spec\<close> (\<^verbatim>\<open>kernel/kfifo.c\<close>): the circular byte queue, which implements the interface
    \<open>bounded_fifo\<close>, with and without a lock and for one reader and one writer interleaved.

  \<^bold>\<open>Theories of the boot loader part.\<close>
  \<^item> \<open>Crc32\<close> (\<^verbatim>\<open>lib_generic/crc32.c\<close>): the table in the source is the one the polynomial gives, the unrolled loop is
    the bitwise division, and an error within one byte is always detected.
  \<^item> \<open>Uboot_Env\<close> (\<^verbatim>\<open>common/cmd_nvedit.c\<close>, \<^verbatim>\<open>common/env_common.c\<close>, \<^verbatim>\<open>common/env_nand.c\<close>): the environment as a block
    of bytes, with its state in the record \<open>uboot\<close>.  \<open>Uboot_Env_Spec\<close>: the byte loops are look-up and update of a
    finite map (interface \<open>variable_store\<close>) and always return, with one exception.  \<open>Uboot_Boot_Spec\<close>: copying out,
    printing, and what a saved, a damaged and an overflowed environment give after the next boot.
  \<^item> \<open>Uboot_Command\<close> (\<^verbatim>\<open>common/main.c\<close>, \<^verbatim>\<open>common/command.c\<close>): expansion of variables, splitting of a line into
    commands and words, the table of commands and \<^verbatim>\<open>run\<close>.  A command is a function of the table, so that
    \<open>do_setenv\<close> of \<open>Uboot_Env\<close> is run as typed; \<open>before\<close> and \<open>rest\<close> are the unspecified bytes of memory around the
    buffers.

  \<^bold>\<open>Theories of the board part.\<close>
  \<^item> \<open>Board_Gpio\<close> (\<^verbatim>\<open>arch/arm/plat-s3c24xx/gpio.c\<close>, \<^verbatim>\<open>drivers/char/EmbedSky_gpio.c\<close> and others): pins, lamps, back light
    and beeper on a register file; pins are independent of each other.
  \<^item> \<open>Board_Buttons\<close> (\<^verbatim>\<open>drivers/char/EmbedSky_irq.c\<close>): open is all or nothing, and no change of a button is lost
    between interrupt and read.
  \<^item> \<open>Board_Keys\<close> (\<^verbatim>\<open>drivers/input/keyboard/tq2440_buttons.c\<close>): the driver of the same buttons for the input layer;
    binding it takes all resources or none, and it and the button device exclude each other.
  \<^item> \<open>Board_Touch\<close> (\<^verbatim>\<open>drivers/input/touchscreen/tq2440_ts.c\<close>, \<^verbatim>\<open>drivers/char/EmbedSky_adc.c\<close>): the touch screen and the
    converter device share the converter by a semaphore; an inductive step relation interleaves the
    interrupt handlers, the timer and reads.

  \<^bold>\<open>How the code is translated.\<close>  A structure is a record, an enumeration a datatype, a word of the machine a
  \<open>32 word\<close> (or the width it has), a C string the list of its bytes.  A function that changes state takes it
  and returns it; a function that returns \<^verbatim>\<open>0\<close> or \<^verbatim>\<open>-Exxx\<close> returns a value of type \<open>'a result\<close>; \<^verbatim>\<open>BUG()\<close>, an access
  outside an array and a null pointer are \<open>None\<close> or a flag in the state.  What depends on code that is not
  modelled (allocations, copies from and to user space, path walks, the flash driver, the converter) is an
  argument, so that theorems hold for each of its outcomes.  There is no fuel: every loop is a
  recursive function with a termination proof, bounded by the array it walks, by its counter, or by the list it
  consumes; a loop over a block stops with \<open>None\<close> when it would leave the block, and the properties show
  that on well-formed blocks it does not.  Concurrency is by inductive step relations over the stages of
  the operations.

  \<^bold>\<open>Not modelled.\<close>  Memory management, scheduling, the network and block layers, the storage of extended attributes and the rest of the file
  systems; within the
  modelled parts, reference counts, RCU and freeing, auditing and keyrings (configured out), path walking, and the
  registration of devices.  Of the drivers of the board: the display, camera and network drivers, which are
  sequences of register accesses whose meaning lies in the hardware, and the input core that the key driver reports to.  Of the boot loader:
  the console with its line editing, the menus, the screen, start-up code, and the flash and network drivers.
\<close>

section \<open>Runs of identity system calls\<close>

text \<open>The example task with other credentials.\<close>

definition example_with :: "cred \<Rightarrow> kernel" where
  "example_with c = (example_kernel 0 CAP_EMPTY_SET)\<lparr>current :=
     (current (example_kernel 0 CAP_EMPTY_SET))\<lparr>cred := c, real_cred := c\<rparr>\<rparr>"

lemma example_with_frame:
  "current_cred (example_with c) = c" "sane (example_with c)" "pid (current (example_with c)) = 42"
  by (simp_all add: example_with_def sane_def example_kernel_def)

lemma example_setuid_run:
  "id_run cfg s [Setuid u] (snd (sys_setuid (capability_ops cfg) env s u))"
  by (rule id_run.call [OF id_step.setuid id_run.stop])

text \<open>
  C1: a task without capabilities and without uid 0 among its ids stays confined: whatever
  sequence of set-id, group, capability and \<^verbatim>\<open>prctl\<close> calls it makes, and whatever programs
  without set-id bits and file capabilities it executes, its uids and gids remain among the ones
  it started with, its supplementary groups and its empty capability sets stay, and no
  \<^verbatim>\<open>BUG()\<close> fires.
\<close>

theorem unprivileged_contained:
  assumes "id_run cfg s xs s'" "list_all (plain_call cfg) xs" "sane s" "0 \<notin> uids (current_cred s)"
    and "cap_permitted (current_cred s) = CAP_EMPTY_SET" "cap_effective (current_cred s) = CAP_EMPTY_SET"
  shows "uids (current_cred s') \<subseteq> uids (current_cred s) \<and> gids (current_cred s') \<subseteq> gids (current_cred s) \<and>
    group_info (current_cred s') = group_info (current_cred s) \<and>
    cap_permitted (current_cred s') = CAP_EMPTY_SET \<and> cap_effective (current_cred s') = CAP_EMPTY_SET \<and>
    \<not> bug s'"
proof -
  let ?Q = "contained (uids (current_cred s)) (gids (current_cred s)) (group_info (current_cred s))"
  have "?Q s" using assms(3-6) by (simp add: contained_def)
  with assms(1,2) have "?Q s'"
    using id_run_invariant [of cfg ?Q "plain_call cfg"] contained_step by blast
  then show ?thesis unfolding contained_def sane_def by blast
qed

theorem unprivileged_contained_witness:
  "uids (current_cred (snd (sys_setuid (capability_ops example_config) ample_env
     (example_kernel 5 CAP_EMPTY_SET) 7))) \<subseteq> {5}"
  using unprivileged_contained [OF example_setuid_run,
      of example_config 7 "example_kernel 5 CAP_EMPTY_SET" ample_env]
  by (simp add: example_frame uids_def)

text \<open>
  C2: a capability that is in none of the permitted, inheritable and bounding sets of a task
  (other than init) whose effective set is within its permitted one can never be acquired again:
  after any sequence of calls, set-user-id and file-capability \<^verbatim>\<open>execve\<close> included, it is
  in none of the four sets, and the bounding set has not grown.
\<close>

theorem capability_never_regained:
  assumes "id_run cfg s xs s'" "sane s" "pid (current s) \<noteq> 1" "caps_ok (current_cred s)"
    and "n \<notin> cap_set (cap_permitted (current_cred s))" "n \<notin> cap_set (cap_inheritable (current_cred s))"
    and "n \<notin> cap_set (cap_bset (current_cred s))"
  shows "n \<notin> cap_set (cap_effective (current_cred s')) \<and> n \<notin> cap_set (cap_permitted (current_cred s')) \<and>
    n \<notin> cap_set (cap_inheritable (current_cred s')) \<and>
    cap_set (cap_bset (current_cred s')) \<subseteq> cap_set (cap_bset (current_cred s))"
proof -
  let ?Q = "bounded (- {n}) (cap_set (cap_bset (current_cred s)))"
  have "?Q s" using assms(2-7) by (auto simp: bounded_def)
  moreover have "list_all (\<lambda>_. True) xs" by (simp add: list_all_iff)
  ultimately have "?Q s'"
    using id_run_invariant [of cfg ?Q "\<lambda>_. True"] assms(1) bounded_step by blast
  then show ?thesis by (auto simp: bounded_def caps_ok_def cap_issubset_set)
qed

theorem capability_never_regained_witness:
  "CAP_SYS_ADMIN \<notin> cap_set (cap_effective (current_cred (snd (sys_setuid (capability_ops example_config)
     ample_env (example_with ((example_cred 0 CAP_EMPTY_SET)\<lparr>cap_bset := CAP_EMPTY_SET\<rparr>)) 7))))"
  using capability_never_regained [OF example_setuid_run,
      of "example_with ((example_cred 0 CAP_EMPTY_SET)\<lparr>cap_bset := CAP_EMPTY_SET\<rparr>)" CAP_SYS_ADMIN
        example_config ample_env 7]
  by (simp add: example_with_frame caps_ok_def kcap.issubset_refl cap_set_empty)

text \<open>
  C4: once \<^verbatim>\<open>SECURE_NOROOT\<close> or \<^verbatim>\<open>SECURE_NO_SETUID_FIXUP\<close> is locked, no sequence
  of calls changes the bit or opens the lock.
\<close>

theorem locked_securebits_stay:
  assumes "id_run cfg s xs s'" "sane s" "k = SECURE_NOROOT \<or> k = SECURE_NO_SETUID_FIXUP"
    and "issecure (current_cred s) (Suc k)"
  shows "issecure (current_cred s') (Suc k) \<and> issecure (current_cred s') k = issecure (current_cred s) k"
proof -
  let ?Q = "locked k (issecure (current_cred s) k)"
  have k: "Suc k < 32" using assms(3) by (auto simp: secure_numbers)
  then have "?Q s" using assms(2,4) by (simp add: locked_def issecure_bit)
  moreover have "list_all (\<lambda>_. True) xs" by (simp add: list_all_iff)
  ultimately have "?Q s'"
    using id_run_invariant [of cfg ?Q "\<lambda>_. True"] assms(1,3) locked_step by blast
  with k show ?thesis by (simp add: locked_def issecure_bit)
qed

theorem locked_securebits_stay_witness:
  "issecure (current_cred (snd (sys_setuid (capability_ops example_config)
     ample_env (example_with ((example_cred 0 CAP_FULL_SET)\<lparr>securebits := 3\<rparr>)) 7))) SECURE_NOROOT"
  using locked_securebits_stay [OF example_setuid_run,
      of "example_with ((example_cred 0 CAP_FULL_SET)\<lparr>securebits := 3\<rparr>)" SECURE_NOROOT
        example_config ample_env 7]
  by (simp add: example_with_frame issecure_def issecure_mask_def SECURE_NOROOT_def)




lemma example_drop:
  "sys_setuid (capability_ops example_config) ample_env (example_kernel 0 CAP_FULL_SET) 7 =
    (Inr (), snd (sys_setuid (capability_ops example_config) ample_env (example_kernel 0 CAP_FULL_SET) 7))"
proof -
  obtain P E where "cap_task_fix_setuid (example_cred 0 CAP_FULL_SET)
      (setuid_new True (next_cred (example_kernel 0 CAP_FULL_SET)) 7 (example_cred 0 CAP_FULL_SET))
      (example_cred 0 CAP_FULL_SET) LSM_SETID_ID =
      Inr ((setuid_new True (next_cred (example_kernel 0 CAP_FULL_SET)) 7 (example_cred 0 CAP_FULL_SET))
        \<lparr>cap_permitted := P, cap_effective := E\<rparr>)"
    by (rule fix_setuid_default [of LSM_SETID_ID]) (auto simp: capability_ops_def)
  then show ?thesis
    by (simp add: setuid_eval [OF example_frame(3)] example_frame full_ids)
qed


end
